(* ===== verification/Cosmos_Prelude.thy ===== *)
theory Cosmos_Prelude
  imports Main "HOL-Library.Word" "HOL-Library.Monad_Syntax"
begin

unbundle bit_operations_syntax

text \<open>
  Shared types, constants and lemmas of the development.

  The kernel is compiled for x86-64: \<open>uint_t\<close>, \<open>size_t\<close> and \<open>adr_t\<close> are 64 bits wide
  (\<open>include/bastypeinc/bastype_t.h\<close>), so counters and addresses are \<open>64 word\<close> values whose
  \<open>+\<close> and \<open>-\<close> wrap around as in C.

  A computation that may call \<open>hal_sysdie\<close> or \<open>system_error\<close> has the type \<open>'a option\<close>:
  those two functions spin forever (\<open>hal/x86/halcpuctrl.c\<close>), and \<open>None\<close> is a call that
  does not return.
\<close>

subsection \<open>Machine types\<close>

type_synonym u8 = "8 word"
type_synonym u32 = "32 word"
type_synonym u64 = "64 word"
type_synonym adr = "64 word"

named_theorems klist_intros \<open>rules that establish the shape of the kernel's linked lists\<close>
named_theorems kdefs \<open>definitions of small kernel operations that proofs unfold\<close>

subsection \<open>The halting functions\<close>

definition hal_sysdie :: "string \<Rightarrow> 'a option" where
  "hal_sysdie msg = None"

definition system_error :: "string \<Rightarrow> 'a option" where
  "system_error msg = hal_sysdie msg"

lemma halting [simp]: "hal_sysdie msg = None" "system_error msg = None"
  by (simp_all add: hal_sysdie_def system_error_def)

subsection \<open>Alignment\<close>

text \<open>The macro \<open>ALIGN(x, a)\<close> of \<open>bastype_t.h\<close>.\<close>

definition ALIGN :: "u64 \<Rightarrow> u64 \<Rightarrow> u64" where
  "ALIGN x a = (x + a - 1) AND NOT (a - 1)"

subsection \<open>Lists\<close>

lemma remove1_split: "x \<notin> set as \<Longrightarrow> remove1 x (as @ x # bs) = as @ bs"
  by (simp add: remove1_append)

lemma hd_append_single: "hd (xs @ [a]) = (if xs = [] then a else hd xs)"
  by (cases xs) simp_all

lemma distinct_map_inj: "inj f \<Longrightarrow> distinct (map f xs) = distinct xs"
  by (auto simp: distinct_map intro: inj_on_subset)

lemma remove1_map_inj: "inj f \<Longrightarrow> remove1 (f x) (map f xs) = map f (remove1 x xs)"
  by (induction xs) (auto dest: injD)

subsection \<open>State machines\<close>

text \<open>A set of start states, a step relation and a predicate that holds at the start and that
  every step keeps.\<close>

locale state_machine =
  fixes start :: "'s \<Rightarrow> bool" and step :: "'s \<Rightarrow> 's \<Rightarrow> bool" and inv :: "'s \<Rightarrow> bool"
  assumes inv_start: "start s \<Longrightarrow> inv s"
    and inv_step: "inv s \<Longrightarrow> step s s' \<Longrightarrow> inv s'"
begin

lemma inv_steps: "inv s \<Longrightarrow> step\<^sup>*\<^sup>* s s' \<Longrightarrow> inv s'"
  by (erule rtranclp_induct [of step s s' inv, rotated]) (auto intro: inv_step)

lemma inv_reachable: "start s \<Longrightarrow> step\<^sup>*\<^sup>* s s' \<Longrightarrow> inv s'"
  by (blast intro: inv_start inv_steps)

end

subsection \<open>Refinement of operations\<close>

text \<open>Requests executed in order by an operation that may not return, and by its specification.\<close>

primrec exec_all :: "('r \<Rightarrow> 's \<Rightarrow> ('v \<times> 's) option) \<Rightarrow> 'r list \<Rightarrow> 's \<Rightarrow> ('v list \<times> 's) option" where
  "exec_all f [] s = Some ([], s)"
| "exec_all f (r # rs) s = do { (v, s) \<leftarrow> f r s; (vs, s) \<leftarrow> exec_all f rs s; Some (v # vs, s) }"

primrec spec_all :: "('r \<Rightarrow> 'a \<Rightarrow> 'v \<times> 'a) \<Rightarrow> 'r list \<Rightarrow> 'a \<Rightarrow> 'v list \<times> 'a" where
  "spec_all g [] a = ([], a)"
| "spec_all g (r # rs) a = (case g r a of (v, a) \<Rightarrow> case spec_all g rs a of (vs, a) \<Rightarrow> (v # vs, a))"

locale op_refinement =
  fixes inv :: "'s \<Rightarrow> bool" and abs :: "'s \<Rightarrow> 'a" and pre :: "'r \<Rightarrow> bool"
    and exec :: "'r \<Rightarrow> 's \<Rightarrow> ('v \<times> 's) option" and spec :: "'r \<Rightarrow> 'a \<Rightarrow> 'v \<times> 'a"
  assumes exec_spec: "inv s \<Longrightarrow> pre r \<Longrightarrow> \<exists>v s'. exec r s = Some (v, s') \<and> inv s' \<and> spec r (abs s) = (v, abs s')"
begin

lemma exec_all_spec:
  "inv s \<Longrightarrow> list_all pre rs \<Longrightarrow> \<exists>vs s'. exec_all exec rs s = Some (vs, s') \<and> inv s' \<and> spec_all spec rs (abs s) = (vs, abs s')"
proof (induction rs arbitrary: s)
  case (Cons r rs)
  obtain v s1 where 1: "exec r s = Some (v, s1)" "inv s1" "spec r (abs s) = (v, abs s1)"
    using exec_spec Cons.prems by force
  then obtain vs s2 where "exec_all exec rs s1 = Some (vs, s2)" "inv s2" "spec_all spec rs (abs s1) = (vs, abs s2)"
    using Cons.IH Cons.prems by force
  then show ?case using 1 by simp
qed simp

end

end
