(* ===== verification/Klist.thy ===== *)
theory Klist
  imports Cosmos_Prelude
begin

text \<open>
  The intrusive doubly linked lists of \<open>include/bastypeinc/list.h\<close>.

  A node is a \<open>list_h_t\<close>, embedded in a larger structure; the heap holds the two pointer
  fields of every node. The operations are the C functions, one field write after the
  other. \<open>klist h hd xs\<close> says that the circular list whose head is \<open>hd\<close> holds the nodes
  \<open>xs\<close>; \<open>klists h L\<close> describes all the lists of a heap at once, a detached node being the
  head of an empty list, as \<open>list_init\<close> makes it. The lemmas show that every operation
  refines an operation on finite lists and leaves the other lists alone.
\<close>

section \<open>The operations of list.h\<close>

record 'n lheap =
  l_prev :: "'n \<Rightarrow> 'n"
  l_next :: "'n \<Rightarrow> 'n"

definition set_prev :: "'n \<Rightarrow> 'n \<Rightarrow> 'n lheap \<Rightarrow> 'n lheap" where
  "set_prev n v h = h\<lparr>l_prev := (l_prev h)(n := v)\<rparr>"

definition set_next :: "'n \<Rightarrow> 'n \<Rightarrow> 'n lheap \<Rightarrow> 'n lheap" where
  "set_next n v h = h\<lparr>l_next := (l_next h)(n := v)\<rparr>"

definition list_init :: "'n lheap \<Rightarrow> 'n \<Rightarrow> 'n lheap" where
  "list_init h list = set_next list list (set_prev list list h)"

definition list_del_raw :: "'n lheap \<Rightarrow> 'n \<Rightarrow> 'n \<Rightarrow> 'n lheap" where
  "list_del_raw h prev next = set_next prev next (set_prev next prev h)"

definition list_add_raw :: "'n lheap \<Rightarrow> 'n \<Rightarrow> 'n \<Rightarrow> 'n \<Rightarrow> 'n lheap" where
  "list_add_raw h new prev next =
     set_next prev new (set_prev new prev (set_next new next (set_prev next new h)))"

definition list_add :: "'n lheap \<Rightarrow> 'n \<Rightarrow> 'n \<Rightarrow> 'n lheap" where
  "list_add h new head = list_add_raw h new head (l_next h head)"

definition list_add_tail :: "'n lheap \<Rightarrow> 'n \<Rightarrow> 'n \<Rightarrow> 'n lheap" where
  "list_add_tail h new head = list_add_raw h new (l_prev h head) head"

definition list_del_entry_raw :: "'n lheap \<Rightarrow> 'n \<Rightarrow> 'n lheap" where
  "list_del_entry_raw h entry = list_del_raw h (l_prev h entry) (l_next h entry)"

definition list_del :: "'n lheap \<Rightarrow> 'n \<Rightarrow> 'n lheap" where
  "list_del h entry = list_init (list_del_raw h (l_prev h entry) (l_next h entry)) entry"

definition list_move :: "'n lheap \<Rightarrow> 'n \<Rightarrow> 'n \<Rightarrow> 'n lheap" where
  "list_move h list head = list_add (list_del h list) list head"

definition list_move_tail :: "'n lheap \<Rightarrow> 'n \<Rightarrow> 'n \<Rightarrow> 'n lheap" where
  "list_move_tail h list head = list_add_tail (list_del h list) list head"

definition list_is_empty :: "'n lheap \<Rightarrow> 'n \<Rightarrow> bool" where
  "list_is_empty h head \<longleftrightarrow> l_next h head = head"

definition list_is_first :: "'n lheap \<Rightarrow> 'n \<Rightarrow> 'n \<Rightarrow> bool" where
  "list_is_first h list head \<longleftrightarrow> l_prev h list = head"

definition list_is_last :: "'n lheap \<Rightarrow> 'n \<Rightarrow> 'n \<Rightarrow> bool" where
  "list_is_last h list head \<longleftrightarrow> l_next h list = head"

definition list_is_empty_careful :: "'n lheap \<Rightarrow> 'n \<Rightarrow> bool" where
  "list_is_empty_careful h head \<longleftrightarrow> l_next h head = head \<and> l_next h head = l_prev h head"

text \<open>
  The nodes \<open>list_for_each(pos, head)\<close> visits, in order, when the body does not change the
  list. The loop ends when it meets \<open>head\<close> again; on a broken list it may run forever,
  which is the value \<open>None\<close>.
\<close>

partial_function (option) list_for_each_from :: "'n lheap \<Rightarrow> 'n \<Rightarrow> 'n \<Rightarrow> 'n list option" where
  "list_for_each_from h head pos =
     (if pos = head then Some []
      else do { rest \<leftarrow> list_for_each_from h head (l_next h pos); Some (pos # rest) })"

declare list_for_each_from.simps [code]

definition list_for_each :: "'n lheap \<Rightarrow> 'n \<Rightarrow> 'n list option" where
  "list_for_each h head = list_for_each_from h head (l_next h head)"

section \<open>The shape of a list\<close>

lemma lheap_sel [simp]:
  "l_prev (set_prev n v h) = (l_prev h)(n := v)"
  "l_next (set_prev n v h) = l_next h"
  "l_prev (set_next n v h) = l_prev h"
  "l_next (set_next n v h) = (l_next h)(n := v)"
  by (simp_all add: set_prev_def set_next_def)

text \<open>\<open>links h a xs b\<close>: following \<open>next\<close> from \<open>a\<close> runs through \<open>xs\<close> to \<open>b\<close>, and \<open>prev\<close> runs back.\<close>

fun links :: "'n lheap \<Rightarrow> 'n \<Rightarrow> 'n list \<Rightarrow> 'n \<Rightarrow> bool" where
  "links h a [] b \<longleftrightarrow> l_next h a = b \<and> l_prev h b = a"
| "links h a (x # xs) b \<longleftrightarrow> l_next h a = x \<and> l_prev h x = a \<and> links h x xs b"

definition klist :: "'n lheap \<Rightarrow> 'n \<Rightarrow> 'n list \<Rightarrow> bool" where
  "klist h lh xs \<longleftrightarrow> distinct (lh # xs) \<and> links h lh xs lh"

lemma links_append [simp]:
  "links h a (xs @ y # ys) b \<longleftrightarrow> links h a xs y \<and> links h y ys b"
  by (induction xs arbitrary: a) auto

lemma links_next: "links h a xs b \<Longrightarrow> l_next h a = hd (xs @ [b])"
  by (cases xs) auto

lemma links_prev: "links h a xs b \<Longrightarrow> l_prev h b = last (a # xs)"
  by (induction xs arbitrary: a) auto

lemma links_set_prev [simp]:
  "n \<notin> set xs \<Longrightarrow> n \<noteq> b \<Longrightarrow> links (set_prev n v h) a xs b \<longleftrightarrow> links h a xs b"
  by (induction xs arbitrary: a) auto

lemma links_set_next [simp]:
  "n \<notin> set xs \<Longrightarrow> n \<noteq> a \<Longrightarrow> links (set_next n v h) a xs b \<longleftrightarrow> links h a xs b"
  by (induction xs arbitrary: a) auto

lemma links_cong:
  assumes "\<And>n. n \<in> set (a # xs) \<Longrightarrow> l_next h' n = l_next h n"
    and "\<And>n. n \<in> set (xs @ [b]) \<Longrightarrow> l_prev h' n = l_prev h n"
  shows "links h' a xs b \<longleftrightarrow> links h a xs b"
  using assms by (induction xs arbitrary: a) auto

lemma klist_cong:
  assumes "\<And>n. n \<in> set (lh # xs) \<Longrightarrow> l_next h' n = l_next h n \<and> l_prev h' n = l_prev h n"
  shows "klist h' lh xs \<longleftrightarrow> klist h lh xs"
  unfolding klist_def using assms links_cong [of lh xs h' h lh] by auto

lemma klist_empty: "klist h n [] \<longleftrightarrow> l_next h n = n \<and> l_prev h n = n"
  by (auto simp: klist_def)

lemma klist_next: "klist h lh xs \<Longrightarrow> l_next h lh = hd (xs @ [lh])"
  by (simp add: klist_def links_next)

lemma klist_prev: "klist h lh xs \<Longrightarrow> l_prev h lh = last (lh # xs)"
  by (auto simp: klist_def dest: links_prev)

lemma klist_is_empty: "klist h lh xs \<Longrightarrow> list_is_empty h lh \<longleftrightarrow> xs = []"
  by (cases xs) (auto simp: list_is_empty_def klist_def)

lemma klist_is_empty_careful: "klist h lh xs \<Longrightarrow> list_is_empty_careful h lh \<longleftrightarrow> xs = []"
  by (cases xs) (auto simp: list_is_empty_careful_def klist_def)

lemma klist_is_last:
  assumes "klist h lh (as @ e # bs)"
  shows "list_is_last h e lh \<longleftrightarrow> bs = []"
  using assms by (cases bs) (auto simp: list_is_last_def klist_def)

lemma klist_is_first:
  assumes "klist h lh (as @ e # bs)"
  shows "list_is_first h e lh \<longleftrightarrow> as = []"
  using assms by (cases as rule: rev_cases) (auto simp: list_is_first_def klist_def)

section \<open>Each operation on one list\<close>

lemma klist_add_raw:
  assumes "klist h lh (as @ bs)" and "new \<notin> set (lh # as @ bs)"
  shows "klist (list_add_raw h new (last (lh # as)) (hd (bs @ [lh]))) lh (as @ new # bs)"
  using assms
  by (cases as rule: rev_cases; cases bs) (auto simp: klist_def list_add_raw_def)

lemma klist_add: "klist h lh xs \<Longrightarrow> new \<notin> set (lh # xs) \<Longrightarrow> klist (list_add h new lh) lh (new # xs)"
  using klist_add_raw [of h lh "[]" xs new] by (simp add: list_add_def klist_next)

lemma klist_add_tail:
  "klist h lh xs \<Longrightarrow> new \<notin> set (lh # xs) \<Longrightarrow> klist (list_add_tail h new lh) lh (xs @ [new])"
  using klist_add_raw [of h lh xs "[]" new] klist_prev [of h lh xs]
  by (simp add: list_add_tail_def)

text \<open>\<open>list_add\<close> with a node in the middle of a list as its second argument inserts after that node.\<close>

lemma klist_add_after:
  assumes "klist h lh (as @ e # bs)" and "new \<notin> set (lh # as @ e # bs)"
  shows "klist (list_add h new e) lh (as @ e # new # bs)"
proof -
  have "l_next h e = hd (bs @ [lh])"
    using assms(1) by (auto simp: klist_def dest: links_next)
  then show ?thesis
    using klist_add_raw [of h lh "as @ [e]" bs new] assms by (simp add: list_add_def)
qed

lemma klist_del:
  assumes "klist h lh (as @ e # bs)"
  shows "klist (list_del h e) lh (as @ bs)"
proof -
  let ?h = "list_del_raw h (l_prev h e) (l_next h e)"
  have d: "distinct (lh # as @ e # bs)" and l: "links h lh as e" "links h e bs lh"
    using assms by (auto simp: klist_def)
  have p: "l_prev h e = last (lh # as)" and n: "l_next h e = hd (bs @ [lh])"
    using links_prev [OF l(1)] links_next [OF l(2)] by auto
  have "links ?h lh (as @ bs) lh"
    using d l unfolding p n list_del_raw_def
    by (cases as rule: rev_cases; cases bs) auto
  then show ?thesis
    using d by (auto simp: klist_def list_del_def list_init_def)
qed

lemma klist_init: "klist (list_init h n) n []"
  by (simp add: klist_empty list_init_def)

lemma klist_del_self: "klist (list_del h e) e []"
  by (simp add: list_del_def klist_init)

lemma list_del_detached: "klist h e [] \<Longrightarrow> list_del h e = h"
  by (simp add: klist_empty list_del_def list_del_raw_def list_init_def set_prev_def set_next_def
      fun_upd_idem)

lemma list_for_each_from_links:
  "links h a xs lh \<Longrightarrow> lh \<notin> set xs \<Longrightarrow> list_for_each_from h lh (l_next h a) = Some xs"
proof (induction xs arbitrary: a)
  case Nil
  then show ?case by (subst list_for_each_from.simps) simp
next
  case (Cons x xs)
  then have "list_for_each_from h lh (l_next h x) = Some xs" by simp
  with Cons.prems show ?case by (subst list_for_each_from.simps) auto
qed

section \<open>All the lists of a heap\<close>

text \<open>
  \<open>L\<close> maps every list head, and every detached node, to the nodes of its list. Two lists
  share no node.
\<close>

definition klists :: "'n lheap \<Rightarrow> ('n \<rightharpoonup> 'n list) \<Rightarrow> bool" where
  "klists h L \<longleftrightarrow>
     (\<forall>lh xs. L lh = Some xs \<longrightarrow> klist h lh xs) \<and>
     (\<forall>lh lh' xs xs'. L lh = Some xs \<longrightarrow> L lh' = Some xs' \<longrightarrow> lh \<noteq> lh' \<longrightarrow>
        set (lh # xs) \<inter> set (lh' # xs') = {})"

lemma klistsD: "klists h L \<Longrightarrow> L lh = Some xs \<Longrightarrow> klist h lh xs"
  by (simp add: klists_def)

lemma klists_disjoint:
  "klists h L \<Longrightarrow> L lh = Some xs \<Longrightarrow> L lh' = Some xs' \<Longrightarrow> lh \<noteq> lh' \<Longrightarrow>
     set (lh # xs) \<inter> set (lh' # xs') = {}"
  by (simp add: klists_def)

text \<open>Lists whose nodes an operation does not write stay as they are.\<close>

lemma klists_change:
  assumes "klists h L"
    and same: "\<And>n. n \<notin> S \<Longrightarrow> l_next h' n = l_next h n \<and> l_prev h' n = l_prev h n"
    and old: "\<And>k ys. L' k = Some ys \<Longrightarrow>
       L k = Some ys \<and> set (k # ys) \<inter> S = {} \<or> set (k # ys) \<subseteq> S \<and> klist h' k ys"
    and disj: "\<And>k k' ys ys'. L' k = Some ys \<Longrightarrow> L' k' = Some ys' \<Longrightarrow> k \<noteq> k' \<Longrightarrow>
       set (k # ys) \<subseteq> S \<Longrightarrow> set (k' # ys') \<subseteq> S \<Longrightarrow> set (k # ys) \<inter> set (k' # ys') = {}"
  shows "klists h' L'"
  unfolding klists_def
proof (intro conjI allI impI)
  fix k ys assume k: "L' k = Some ys"
  from old [OF k] show "klist h' k ys"
  proof
    assume a: "L k = Some ys \<and> set (k # ys) \<inter> S = {}"
    then have "klist h' k ys = klist h k ys"
      by (intro klist_cong same) auto
    with a assms(1) show ?thesis by (simp add: klistsD)
  qed simp
next
  fix k k' ys ys' assume k: "L' k = Some ys" and k': "L' k' = Some ys'" and ne: "k \<noteq> k'"
  show "set (k # ys) \<inter> set (k' # ys') = {}"
    using old [OF k] old [OF k'] disj [OF k k' ne] klists_disjoint [OF assms(1) _ _ ne]
    by (meson disjoint_iff subset_iff)
qed

lemma list_add_raw_same:
  "n \<notin> {new, p, q} \<Longrightarrow> l_next (list_add_raw h new p q) n = l_next h n \<and>
     l_prev (list_add_raw h new p q) n = l_prev h n"
  by (simp add: list_add_raw_def)

lemma list_del_same:
  "n \<notin> {e, l_prev h e, l_next h e} \<Longrightarrow> l_next (list_del h e) n = l_next h n \<and>
     l_prev (list_del h e) n = l_prev h n"
  by (simp add: list_del_def list_del_raw_def list_init_def)

lemma klists_init:
  assumes "klists h L" and "\<And>lh xs. L lh = Some xs \<Longrightarrow> n \<notin> set (lh # xs)"
  shows "klists (list_init h n) (L(n \<mapsto> []))"
proof (rule klists_change [OF assms(1), where S = "{n}"])
  fix k ys assume "(L(n \<mapsto> [])) k = Some ys"
  then show "L k = Some ys \<and> set (k # ys) \<inter> {n} = {} \<or> set (k # ys) \<subseteq> {n} \<and> klist (list_init h n) k ys"
    using assms(2) [of k ys] klist_init [of h n] by (auto split: if_splits)
qed (auto simp: list_init_def)

lemma klists_insert_raw:
  assumes kl: "klists h L" and lh: "L lh = Some (as @ bs)" and new: "L new = Some []" "new \<noteq> lh"
    and pq: "p = last (lh # as)" "q = hd (bs @ [lh])"
  shows "klists (list_add_raw h new p q) (L(new := None, lh \<mapsto> as @ new # bs))"
proof (rule klists_change [OF kl, where S = "insert new (set (lh # as @ bs))"])
  have fresh: "new \<notin> set (lh # as @ bs)"
    using klists_disjoint [OF kl new(1) lh new(2)] by auto
  have pqS: "p \<in> set (lh # as)" "q \<in> set (lh # bs)"
    using pq by (auto simp: hd_append_single)
  fix n assume "n \<notin> insert new (set (lh # as @ bs))"
  with pqS show "l_next (list_add_raw h new p q) n = l_next h n \<and>
      l_prev (list_add_raw h new p q) n = l_prev h n"
    by (intro list_add_raw_same) auto
next
  have fresh: "new \<notin> set (lh # as @ bs)"
    using klists_disjoint [OF kl new(1) lh new(2)] by auto
  have in_lh: "klist (list_add_raw h new p q) lh (as @ new # bs)"
    unfolding pq by (rule klist_add_raw [OF klistsD [OF kl lh] fresh])
  fix k ys assume k: "(L(new := None, lh \<mapsto> as @ new # bs)) k = Some ys"
  show "L k = Some ys \<and> set (k # ys) \<inter> insert new (set (lh # as @ bs)) = {} \<or>
      set (k # ys) \<subseteq> insert new (set (lh # as @ bs)) \<and> klist (list_add_raw h new p q) k ys"
  proof (cases "k = lh")
    case True
    with k in_lh show ?thesis by auto
  next
    case False
    with k have old: "L k = Some ys" and "k \<noteq> new" by (auto split: if_splits)
    then show ?thesis
      using klists_disjoint [OF kl old lh False] klists_disjoint [OF kl old new(1)] by auto
  qed
next
  fix k k' ys ys'
  assume "(L(new := None, lh \<mapsto> as @ new # bs)) k = Some ys"
    and "(L(new := None, lh \<mapsto> as @ new # bs)) k' = Some ys'" and "k \<noteq> k'"
    and "set (k # ys) \<subseteq> insert new (set (lh # as @ bs))"
    and "set (k' # ys') \<subseteq> insert new (set (lh # as @ bs))"
  then show "set (k # ys) \<inter> set (k' # ys') = {}"
    using klists_disjoint [OF kl _ lh, of k ys] klists_disjoint [OF kl _ lh, of k' ys']
    by (auto split: if_splits)
qed

lemma klists_del:
  assumes kl: "klists h L" and lh: "L lh = Some (as @ e # bs)"
  shows "klists (list_del h e) (L(lh \<mapsto> as @ bs, e \<mapsto> []))"
proof (rule klists_change [OF kl, where S = "set (lh # as @ e # bs)"])
  have "klist h lh (as @ e # bs)" by (rule klistsD [OF kl lh])
  then have l: "links h lh as e" "links h e bs lh" by (auto simp: klist_def)
  have "l_prev h e \<in> set (lh # as)" "l_next h e \<in> set (lh # bs)"
    using links_prev [OF l(1)] links_next [OF l(2)] by (auto simp: hd_append_single)
  moreover fix n assume "n \<notin> set (lh # as @ e # bs)"
  ultimately show "l_next (list_del h e) n = l_next h n \<and> l_prev (list_del h e) n = l_prev h n"
    by (intro list_del_same) auto
next
  fix k ys assume k: "(L(lh \<mapsto> as @ bs, e \<mapsto> [])) k = Some ys"
  show "L k = Some ys \<and> set (k # ys) \<inter> set (lh # as @ e # bs) = {} \<or>
      set (k # ys) \<subseteq> set (lh # as @ e # bs) \<and> klist (list_del h e) k ys"
  proof (cases "k = lh \<or> k = e")
    case True
    have "e \<noteq> lh" using klistsD [OF kl lh] by (auto simp: klist_def)
    with True k klist_del [OF klistsD [OF kl lh]] klist_del_self [of h e] show ?thesis
      by (auto split: if_splits)
  next
    case False
    with k have old: "L k = Some ys" and ne: "k \<noteq> lh" by (auto split: if_splits)
    then show ?thesis using klists_disjoint [OF kl old lh ne] by auto
  qed
next
  have d: "distinct (lh # as @ e # bs)" using klistsD [OF kl lh] by (simp add: klist_def)
  fix k k' ys ys'
  assume "(L(lh \<mapsto> as @ bs, e \<mapsto> [])) k = Some ys"
    and "(L(lh \<mapsto> as @ bs, e \<mapsto> [])) k' = Some ys'" and "k \<noteq> k'"
    and "set (k # ys) \<subseteq> set (lh # as @ e # bs)" and "set (k' # ys') \<subseteq> set (lh # as @ e # bs)"
  then show "set (k # ys) \<inter> set (k' # ys') = {}"
    using d klists_disjoint [OF kl _ lh, of k ys] klists_disjoint [OF kl _ lh, of k' ys']
    by (auto split: if_splits)
qed

section \<open>The interface the kernel's components use\<close>

text \<open>
  What a component that keeps its objects on \<open>list_h_t\<close> lists relies on. \<open>rep h L\<close> relates
  the store of the pointers with the contents of the lists; the laws say what each
  operation does to the contents, and what the tests and the traversal return.
\<close>

locale list_store =
  fixes rep :: "'h \<Rightarrow> ('n \<rightharpoonup> 'n list) \<Rightarrow> bool"
    and init :: "'h \<Rightarrow> 'n \<Rightarrow> 'h"
    and add :: "'h \<Rightarrow> 'n \<Rightarrow> 'n \<Rightarrow> 'h"
    and add_tail :: "'h \<Rightarrow> 'n \<Rightarrow> 'n \<Rightarrow> 'h"
    and del :: "'h \<Rightarrow> 'n \<Rightarrow> 'h"
    and is_empty :: "'h \<Rightarrow> 'n \<Rightarrow> bool"
    and for_each :: "'h \<Rightarrow> 'n \<Rightarrow> 'n list option"
  assumes init: "rep h L \<Longrightarrow> (\<And>k ys. L k = Some ys \<Longrightarrow> n \<notin> set (k # ys)) \<Longrightarrow>
      rep (init h n) (L(n \<mapsto> []))"
    and add: "rep h L \<Longrightarrow> L lh = Some xs \<Longrightarrow> L n = Some [] \<Longrightarrow> n \<noteq> lh \<Longrightarrow>
      rep (add h n lh) (L(n := None, lh \<mapsto> n # xs))"
    and add_tail: "rep h L \<Longrightarrow> L lh = Some xs \<Longrightarrow> L n = Some [] \<Longrightarrow> n \<noteq> lh \<Longrightarrow>
      rep (add_tail h n lh) (L(n := None, lh \<mapsto> xs @ [n]))"
    and del: "rep h L \<Longrightarrow> L lh = Some (as @ e # bs) \<Longrightarrow>
      rep (del h e) (L(lh \<mapsto> as @ bs, e \<mapsto> []))"
    and del_detached: "rep h L \<Longrightarrow> L e = Some [] \<Longrightarrow> del h e = h"
    and is_empty: "rep h L \<Longrightarrow> L lh = Some xs \<Longrightarrow> is_empty h lh \<longleftrightarrow> xs = []"
    and for_each: "rep h L \<Longrightarrow> L lh = Some xs \<Longrightarrow> for_each h lh = Some xs"
    and node_unique: "rep h L \<Longrightarrow> L k = Some ys \<Longrightarrow> L k' = Some ys' \<Longrightarrow> k \<noteq> k' \<Longrightarrow>
      set (k # ys) \<inter> set (k' # ys') = {}"
    and nodes_distinct: "rep h L \<Longrightarrow> L k = Some ys \<Longrightarrow> distinct (k # ys)"
begin

lemma not_detached_if_member:
  assumes "rep h L" and "L lh = Some xs" and "n \<in> set xs"
  shows "L n = None"
proof (cases "L n")
  case (Some ys)
  have "n \<noteq> lh" using nodes_distinct [OF assms(1,2)] assms(3) by auto
  then have "set (n # ys) \<inter> set (lh # xs) = {}" by (rule node_unique [OF assms(1) Some assms(2)])
  with assms(3) show ?thesis by auto
qed simp

text \<open>Taking the first node off a list leaves the rest and a detached node.\<close>

lemma pop:
  assumes "rep h L" and "L lh = Some (e # xs)"
  shows "rep (del h e) (L(lh \<mapsto> xs, e \<mapsto> []))"
  using del [of h L lh "[]" e xs] assms by simp

text \<open>Moving the first node of one list to the end of another: what a wake-up does.\<close>

lemma pop_push_tail:
  assumes "rep h L" and "L lh = Some (e # xs)" and "L lh' = Some ys" and "lh \<noteq> lh'"
  shows "rep (add_tail (del h e) e lh') (L(lh \<mapsto> xs, lh' \<mapsto> ys @ [e]))"
proof -
  let ?L = "L(lh \<mapsto> xs, e \<mapsto> [])"
  have ne: "e \<noteq> lh" using nodes_distinct [OF assms(1,2)] by auto
  have ne': "e \<noteq> lh'" using node_unique [OF assms(1,2,3,4)] by auto
  have "L e = None" by (rule not_detached_if_member [OF assms(1,2)]) simp
  then have upd: "?L(e := None, lh' \<mapsto> ys @ [e]) = L(lh \<mapsto> xs, lh' \<mapsto> ys @ [e])"
    using ne ne' assms(4) by (auto simp: fun_eq_iff)
  have "rep (add_tail (del h e) e lh') (?L(e := None, lh' \<mapsto> ys @ [e]))"
    by (rule add_tail [OF pop [OF assms(1,2)]]) (use ne ne' assms(3,4) in auto)
  with upd show ?thesis by simp
qed

text \<open>Taking a node off whatever list holds it; a detached node stays detached.\<close>

lemma del_member:
  assumes "rep h L" and "L lh = Some xs" and "e \<in> set xs"
  shows "rep (del h e) (L(lh \<mapsto> remove1 e xs, e \<mapsto> []))"
proof -
  obtain as bs where xs: "xs = as @ e # bs" and "e \<notin> set as"
    using split_list_first [OF assms(3)] by blast
  then show ?thesis using del [OF assms(1)] assms(2) by (simp add: remove1_split)
qed

end

interpretation kl: list_store klists list_init list_add list_add_tail list_del
    list_is_empty_careful list_for_each
proof
  fix h :: "'n lheap" and L lh xs n
  assume kl: "klists h L" and lh: "L lh = Some xs" and n: "L n = Some []" "n \<noteq> lh"
  show "klists (list_add h n lh) (L(n := None, lh \<mapsto> n # xs))"
    using klists_insert_raw [OF kl, of lh "[]" xs n lh "l_next h lh"] lh n
      klist_next [OF klistsD [OF kl lh]]
    by (simp add: list_add_def)
  show "klists (list_add_tail h n lh) (L(n := None, lh \<mapsto> xs @ [n]))"
    using klists_insert_raw [OF kl, of lh xs "[]" n "l_prev h lh" lh] lh n
      klist_prev [OF klistsD [OF kl lh]]
    by (simp add: list_add_tail_def)
next
  fix h :: "'n lheap" and L lh xs
  assume kl: "klists h L" and lh: "L lh = Some xs"
  show "list_is_empty_careful h lh \<longleftrightarrow> xs = []"
    by (rule klist_is_empty_careful [OF klistsD [OF kl lh]])
  show "list_for_each h lh = Some xs"
    using klistsD [OF kl lh] list_for_each_from_links [of h lh xs lh]
    by (simp add: list_for_each_def klist_def)
next
  fix h :: "'n lheap" and L k ys k' ys'
  assume "klists h L" "L k = Some ys" "L k' = Some ys'" "k \<noteq> k'"
  then show "set (k # ys) \<inter> set (k' # ys') = {}" by (rule klists_disjoint)
qed (auto intro: klists_init klists_del list_del_detached klistsD dest: klistsD simp: klist_def)

lemmas kl_rules = kl.add kl.add_tail kl.del kl.pop kl.pop_push_tail kl.del_member

end
