(* ===== verification/Kthread.thy ===== *)
theory Kthread
  imports Cosmos_Prelude
begin

text \<open>
  The thread descriptor (\<open>include/knlinc/krlthread_t.h\<close>) and the operations of
  \<open>kernel/krlthread.c\<close> that work on one descriptor: initialisation, the handle table, the
  tick counters and the first stack frame of a thread. A pointer to a descriptor is its
  address; the handle table holds addresses of object nodes, with 0 for NULL.
\<close>

section \<open>Data\<close>

definition TDSTUS_RUN :: u64 where "TDSTUS_RUN = 0"
definition TDSTUS_WAIT :: u64 where "TDSTUS_WAIT = 4"
definition TDSTUS_NEW :: u64 where "TDSTUS_NEW = 5"
definition TDSTUS_EXIT :: u64 where "TDSTUS_EXIT = 12"
definition TDFLAG_FREE :: u64 where "TDFLAG_FREE = 1"
definition TDRUN_TICK :: u64 where "TDRUN_TICK = 20"
definition PRITY_MAX :: u64 where "PRITY_MAX = 64"
definition PRITY_MIN :: u64 where "PRITY_MIN = 0"
definition PRILG_SYS :: u64 where "PRILG_SYS = 0"
definition PRILG_USR :: u64 where "PRILG_USR = 5"
definition THREAD_NAME_MAX :: nat where "THREAD_NAME_MAX = 64"
definition TD_HAND_MAX :: nat where "TD_HAND_MAX = 8"
definition NO_HAND :: int where "NO_HAND = -1"
definition K_CS_IDX :: u64 where "K_CS_IDX = 0x08"
definition K_DS_IDX :: u64 where "K_DS_IDX = 0x10"
definition U_CS_IDX :: u64 where "U_CS_IDX = 0x1b"
definition U_DS_IDX :: u64 where "U_DS_IDX = 0x23"

lemmas td_consts = TDSTUS_RUN_def TDSTUS_WAIT_def TDSTUS_NEW_def TDSTUS_EXIT_def TDFLAG_FREE_def
  TDRUN_TICK_def PRITY_MAX_def PRITY_MIN_def PRILG_SYS_def PRILG_USR_def

record context_t =
  ctx_nextrip :: u64
  ctx_nextrsp :: u64
  ctx_nexttss :: nat

text \<open>\<open>td_appfilenm\<close> points nowhere, at the descriptor's own \<open>td_name\<close>, or at a heap buffer.\<close>

datatype filenm = NullName | OwnName | HeapName adr

record thread_t =
  td_flgs :: u64
  td_stus :: u64
  td_cpuid :: u64
  td_id :: u64
  td_tick :: u64
  td_sumtick :: u64
  td_privilege :: u64
  td_priority :: u64
  td_runmode :: u64
  td_krlstktop :: adr
  td_krlstkstart :: adr
  td_usrstktop :: adr
  td_usrstkstart :: adr
  td_mmdsc :: adr
  td_resdsc :: adr
  td_privtep :: adr
  td_extdatap :: adr
  td_appfilenm :: filenm
  td_appfilenmlen :: u64
  td_context :: context_t
  td_handtbl :: "adr list"
  td_name :: "u8 list"

record intstkregs_t =
  r_gs :: u64
  r_fs :: u64
  r_es :: u64
  r_ds :: u64
  r_gpr :: "u64 list"
  r_rip_old :: u64
  r_cs_old :: u64
  r_rflgs :: u64
  r_rsp_old :: u64
  r_ss_old :: u64

section \<open>Operations\<close>

definition context_t_init :: "nat \<Rightarrow> context_t" where
  "context_t_init cpuid = \<lparr>ctx_nextrip = 0, ctx_nextrsp = 0, ctx_nexttss = cpuid\<rparr>"

definition krlretn_thread_id :: "adr \<Rightarrow> u64" where
  "krlretn_thread_id tdp = tdp"

text \<open>\<open>initmmadrsdsc\<close> is the address of the kernel's own address space descriptor.\<close>

definition thread_t_init :: "adr \<Rightarrow> adr \<Rightarrow> thread_t" where
  "thread_t_init initmmadrsdsc initp =
     \<lparr>td_flgs = TDFLAG_FREE, td_stus = TDSTUS_NEW, td_cpuid = 0,
      td_id = krlretn_thread_id initp, td_tick = 0, td_sumtick = 0,
      td_privilege = PRILG_USR, td_priority = PRITY_MIN, td_runmode = 0,
      td_krlstktop = 0, td_krlstkstart = 0, td_usrstktop = 0, td_usrstkstart = 0,
      td_mmdsc = initmmadrsdsc, td_resdsc = 0, td_privtep = 0, td_extdatap = 0,
      td_appfilenm = NullName, td_appfilenmlen = 0, td_context = context_t_init 0,
      td_handtbl = replicate TD_HAND_MAX 0, td_name = replicate THREAD_NAME_MAX 0\<rparr>"

text \<open>The search loop of the handle functions: the first NULL entry at or after \<open>hand\<close>.\<close>

fun find_nullhand :: "adr list \<Rightarrow> int \<Rightarrow> int" where
  "find_nullhand [] hand = NO_HAND"
| "find_nullhand (p # tbl) hand = (if p = 0 then hand else find_nullhand tbl (hand + 1))"

definition krlthd_retn_nullhand :: "thread_t \<Rightarrow> int" where
  "krlthd_retn_nullhand thdp = find_nullhand (td_handtbl thdp) 0"

definition krlthd_add_objnode :: "thread_t \<Rightarrow> adr \<Rightarrow> int \<times> thread_t" where
  "krlthd_add_objnode thdp ondp =
     (let rethd = find_nullhand (td_handtbl thdp) 0 in
      if rethd = NO_HAND then (NO_HAND, thdp)
      else (rethd, thdp\<lparr>td_handtbl := (td_handtbl thdp)[nat rethd := ondp]\<rparr>))"

definition krlthd_del_objnode :: "thread_t \<Rightarrow> int \<Rightarrow> int \<times> thread_t" where
  "krlthd_del_objnode thdp hand =
     (if hand \<ge> int TD_HAND_MAX \<or> hand \<le> NO_HAND then (NO_HAND, thdp)
      else if td_handtbl thdp ! nat hand = 0 then (NO_HAND, thdp)
      else (hand, thdp\<lparr>td_handtbl := (td_handtbl thdp)[nat hand := 0]\<rparr>))"

definition krlthd_retn_objnode :: "thread_t \<Rightarrow> int \<Rightarrow> adr" where
  "krlthd_retn_objnode thdp hand =
     (if hand \<ge> int TD_HAND_MAX \<or> hand \<le> NO_HAND then 0
      else td_handtbl thdp ! nat hand)"

definition krlthread_sumtick :: "thread_t option \<Rightarrow> u64" where
  "krlthread_sumtick thdp = (case thdp of None \<Rightarrow> 0 | Some td \<Rightarrow> td_sumtick td)"

definition sizeof_intstkregs :: u64 where "sizeof_intstkregs = 24 * 8"

text \<open>
  The frame is written at the returned address \<open>arp\<close>; \<open>r_gpr\<close> are the fifteen general
  registers between \<open>r_ds\<close> and \<open>r_rip_old\<close>, cleared by \<open>hal_memset\<close>.
\<close>

definition align_stktops :: "thread_t \<Rightarrow> thread_t" where
  "align_stktops thdp = thdp\<lparr>td_krlstktop := td_krlstktop thdp AND NOT 0xf,
                             td_usrstktop := td_usrstktop thdp AND NOT 0xf\<rparr>"

definition krlthread_kernstack_init ::
    "thread_t \<Rightarrow> adr \<Rightarrow> u64 \<Rightarrow> thread_t \<times> adr \<times> intstkregs_t" where
  "krlthread_kernstack_init thdp runadr cpuflags =
     (let thdp = align_stktops thdp;
          arp = td_krlstktop thdp - sizeof_intstkregs;
          regs = \<lparr>r_gs = K_DS_IDX, r_fs = K_DS_IDX, r_es = K_DS_IDX, r_ds = K_DS_IDX,
                  r_gpr = replicate 15 0, r_rip_old = runadr, r_cs_old = K_CS_IDX,
                  r_rflgs = cpuflags, r_rsp_old = td_krlstktop thdp, r_ss_old = 0\<rparr>;
          thdp = thdp\<lparr>td_context := (td_context thdp)\<lparr>ctx_nextrip := runadr, ctx_nextrsp := arp\<rparr>\<rparr>
      in (thdp, arp, regs))"

definition krlthread_userstack_init ::
    "thread_t \<Rightarrow> adr \<Rightarrow> u64 \<Rightarrow> thread_t \<times> adr \<times> intstkregs_t" where
  "krlthread_userstack_init thdp runadr cpuflags =
     (let thdp = align_stktops thdp;
          arp = td_krlstktop thdp - sizeof_intstkregs;
          regs = \<lparr>r_gs = U_DS_IDX, r_fs = U_DS_IDX, r_es = U_DS_IDX, r_ds = U_DS_IDX,
                  r_gpr = replicate 15 0, r_rip_old = runadr, r_cs_old = U_CS_IDX,
                  r_rflgs = cpuflags, r_rsp_old = td_usrstktop thdp, r_ss_old = U_DS_IDX\<rparr>;
          thdp = thdp\<lparr>td_context := (td_context thdp)\<lparr>ctx_nextrip := runadr, ctx_nextrsp := arp\<rparr>\<rparr>
      in (thdp, arp, regs))"

section \<open>The handle table\<close>

text \<open>A descriptor is well formed when its handle table has \<open>TD_HAND_MAX\<close> entries.\<close>

definition thread_wf :: "thread_t \<Rightarrow> bool" where
  "thread_wf td \<longleftrightarrow> length (td_handtbl td) = TD_HAND_MAX \<and> length (td_name td) = THREAD_NAME_MAX"

lemma thread_t_init_wf: "thread_wf (thread_t_init mm p)"
  by (simp add: thread_wf_def thread_t_init_def)

lemma find_nullhand_cases:
  "find_nullhand tbl k = NO_HAND \<and> (0 \<notin> set tbl) \<or>
   (\<exists>i < length tbl. find_nullhand tbl k = k + int i \<and> tbl ! i = 0 \<and> (\<forall>j < i. tbl ! j \<noteq> 0))"
proof (induction tbl arbitrary: k)
  case Nil
  then show ?case by simp
next
  case (Cons p tbl)
  show ?case
  proof (cases "p = 0")
    case True
    then show ?thesis by (intro disjI2 exI [of _ 0]) simp
  next
    case False
    from Cons.IH [of "k + 1"] show ?thesis
    proof
      assume "\<exists>i < length tbl. find_nullhand tbl (k + 1) = k + 1 + int i \<and> tbl ! i = 0 \<and>
          (\<forall>j < i. tbl ! j \<noteq> 0)"
      then obtain i where "i < length tbl" "find_nullhand tbl (k + 1) = k + 1 + int i"
        "tbl ! i = 0" "\<forall>j < i. tbl ! j \<noteq> 0" by blast
      with False show ?thesis
        by (intro disjI2 exI [of _ "Suc i"]) (auto simp: nth_Cons split: nat.splits)
    qed (use False in simp)
  qed
qed

lemma find_nullhand_range:
  assumes "find_nullhand tbl 0 \<noteq> NO_HAND"
  shows "\<exists>i < length tbl. find_nullhand tbl 0 = int i \<and> tbl ! i = 0 \<and> (\<forall>j < i. tbl ! j \<noteq> 0)"
  using find_nullhand_cases [of tbl 0] assms by auto

end
