(* ===== verification/Sched.thy ===== *)
theory Sched
  imports Klist Kthread
begin

text \<open>
  The scheduler, the wait lists and the semaphores: \<open>kernel/krlsched.c\<close>,
  \<open>kernel/krlwaitlist.c\<close>, \<open>kernel/krlsem.c\<close> and the tick of \<open>kernel/krlthread.c\<close>.

  The state holds the scheduling class \<open>osschedcls\<close>, the thread descriptors by address,
  the semaphores by address and the \<open>prev\<close>/\<open>next\<close> fields of every list node. The build
  has one processor (\<open>CPUCORE_MAX\<close> is 1 and \<open>hal_retn_cpuid\<close> returns 0), so the array
  \<open>scls_schda\<close> has one element, and a section between \<open>krlspinlock_cli\<close> and
  \<open>krlspinunlock_sti\<close> runs with interrupts off: it is one step of the model. A null
  thread pointer is the address 0.
\<close>

section \<open>State\<close>

text \<open>The list nodes: heads of the run queues, of the exit list and of the wait lists, and the
  \<open>td_list\<close> field of a thread.\<close>

datatype node = RunHead nat | ExitHead | WaitHead adr | TdNode adr

record thrdlst_t =
  tdl_curruntd :: adr
  tdl_nr :: u64

record schdata_t =
  sda_cpuid :: u64
  sda_schdflgs :: u64
  sda_premptidx :: u64
  sda_threadnr :: u64
  sda_prityidx :: u64
  sda_cpuidle :: adr
  sda_currtd :: adr
  sda_thdlst :: "nat \<Rightarrow> thrdlst_t"

record schedclass_t =
  scls_cpunr :: u64
  scls_threadnr :: u64
  scls_threadid_inc :: u64
  scls_schda :: schdata_t

record sem_t =
  sem_flg :: u64
  sem_count :: int

text \<open>\<open>wl_tdnr\<close> is the counter of the wait list at an address; a semaphore and its
  \<open>sem_waitlst\<close> share the address. \<open>tss_rsp0\<close> and \<open>mmu_mmdsc\<close> are the stack pointer in
  \<open>x64tss[0]\<close> and the address space the MMU was last loaded with.\<close>

record sched_t =
  osschedcls :: schedclass_t
  lst :: "node lheap"
  thds :: "adr \<Rightarrow> thread_t"
  wl_tdnr :: "adr \<Rightarrow> u64"
  sems :: "adr \<Rightarrow> sem_t"
  tss_rsp0 :: adr
  mmu_mmdsc :: adr

definition NOTS_SCHED_FLGS :: u64 where "NOTS_SCHED_FLGS = 0"
definition NEED_SCHED_FLGS :: u64 where "NEED_SCHED_FLGS = 1"
definition NEED_START_CPUILDE_SCHED_FLGS :: u64 where "NEED_START_CPUILDE_SCHED_FLGS = 2"
definition PMPT_FLGS :: u64 where "PMPT_FLGS = 0"

lemmas sched_consts = NOTS_SCHED_FLGS_def NEED_SCHED_FLGS_def
  NEED_START_CPUILDE_SCHED_FLGS_def PMPT_FLGS_def td_consts

section \<open>Access to the state\<close>

abbreviation schdap :: "sched_t \<Rightarrow> schdata_t" where
  "schdap s \<equiv> scls_schda (osschedcls s)"

abbreviation thdlst :: "sched_t \<Rightarrow> nat \<Rightarrow> thrdlst_t" where
  "thdlst s p \<equiv> sda_thdlst (schdap s) p"

definition upd_schda :: "(schdata_t \<Rightarrow> schdata_t) \<Rightarrow> sched_t \<Rightarrow> sched_t" where
  "upd_schda f s = s\<lparr>osschedcls := (osschedcls s)\<lparr>scls_schda := f (schdap s)\<rparr>\<rparr>"

definition upd_thdlst :: "nat \<Rightarrow> (thrdlst_t \<Rightarrow> thrdlst_t) \<Rightarrow> sched_t \<Rightarrow> sched_t" where
  "upd_thdlst p f = upd_schda (\<lambda>d. d\<lparr>sda_thdlst := (sda_thdlst d)(p := f (sda_thdlst d p))\<rparr>)"

definition upd_td :: "adr \<Rightarrow> (thread_t \<Rightarrow> thread_t) \<Rightarrow> sched_t \<Rightarrow> sched_t" where
  "upd_td t f s = s\<lparr>thds := (thds s)(t := f (thds s t))\<rparr>"

definition upd_lst :: "(node lheap \<Rightarrow> node lheap) \<Rightarrow> sched_t \<Rightarrow> sched_t" where
  "upd_lst f s = s\<lparr>lst := f (lst s)\<rparr>"

definition td_prity :: "sched_t \<Rightarrow> adr \<Rightarrow> nat" where
  "td_prity s t = unat (td_priority (thds s t))"

text \<open>\<open>list_entry(pos, thread_t, td_list)\<close>; it is a thread only for a \<open>td_list\<close> field.\<close>

fun list_entry :: "node \<Rightarrow> adr option" where
  "list_entry (TdNode t) = Some t"
| "list_entry _ = None"

section \<open>Initialisation\<close>

definition thrdlst_t_init :: thrdlst_t where
  "thrdlst_t_init = \<lparr>tdl_curruntd = 0, tdl_nr = 0\<rparr>"

definition schdata_t_init :: schdata_t where
  "schdata_t_init = \<lparr>sda_cpuid = 0, sda_schdflgs = NOTS_SCHED_FLGS, sda_premptidx = 0,
     sda_threadnr = 0, sda_prityidx = 0, sda_cpuidle = 0, sda_currtd = 0,
     sda_thdlst = (\<lambda>ti. thrdlst_t_init)\<rparr>"

text \<open>The heads of the lists: \<open>list_init\<close> on the run queues in the order of the loop of
  \<open>schdata_t_init\<close>, then on the exit list.\<close>

definition schedclass_t_init :: "sched_t \<Rightarrow> sched_t" where
  "schedclass_t_init s =
     s\<lparr>osschedcls := \<lparr>scls_cpunr = 1, scls_threadnr = 0, scls_threadid_inc = 0,
                      scls_schda = schdata_t_init\<rparr>,
       lst := list_init (fold (\<lambda>ti h. list_init h (RunHead ti)) [0..<64] (lst s)) ExitHead\<rparr>"

definition init_krlsched :: "sched_t \<Rightarrow> sched_t" where
  "init_krlsched s = schedclass_t_init s"

definition kwlst_t_init :: "adr \<Rightarrow> sched_t \<Rightarrow> sched_t" where
  "kwlst_t_init wlst s =
     s\<lparr>wl_tdnr := (wl_tdnr s)(wlst := 0), lst := list_init (lst s) (WaitHead wlst)\<rparr>"

section \<open>Wait lists\<close>

definition krlwlst_add_thread :: "adr \<Rightarrow> adr \<Rightarrow> sched_t \<Rightarrow> sched_t" where
  "krlwlst_add_thread wlst tdp s =
     (let s = upd_lst (\<lambda>h. list_add h (TdNode tdp) (WaitHead wlst)) s
      in s\<lparr>wl_tdnr := (wl_tdnr s)(wlst := wl_tdnr s wlst + 1)\<rparr>)"

text \<open>The loop over the wait list leaves at its first element; 0 is a null result.\<close>

definition krlwlst_del_thread :: "adr \<Rightarrow> sched_t \<Rightarrow> (adr \<times> sched_t) option" where
  "krlwlst_del_thread wlst s =
     (let pos = l_next (lst s) (WaitHead wlst) in
      if pos = WaitHead wlst then Some (0, s)
      else do {
        tdp \<leftarrow> list_entry pos;
        if tdp = 0 \<or> wl_tdnr s wlst < 1 then Some (0, s)
        else (let s = upd_lst (\<lambda>h. list_del h (TdNode tdp)) s
              in Some (tdp, s\<lparr>wl_tdnr := (wl_tdnr s)(wlst := wl_tdnr s wlst - 1)\<rparr>))
      })"

section \<open>The scheduler\<close>

definition krlsched_retn_currthread :: "sched_t \<Rightarrow> adr option" where
  "krlsched_retn_currthread s =
     (if sda_currtd (schdap s) = 0 then hal_sysdie ''schdap->sda_currtd NULL''
      else Some (sda_currtd (schdap s)))"

definition krlsched_retn_schedflgs :: "sched_t \<Rightarrow> u64" where
  "krlsched_retn_schedflgs s = sda_schdflgs (schdap s)"

definition krlsched_wait :: "adr \<Rightarrow> sched_t \<Rightarrow> sched_t option" where
  "krlsched_wait wlst s = do {
     tdp \<leftarrow> krlsched_retn_currthread s;
     let pity = td_prity s tdp;
     if td_priority (thds s tdp) \<ge> PRITY_MAX \<or> wlst = 0 then hal_sysdie ''krlsched_wait err''
     else if tdl_nr (thdlst s pity) < 1 then hal_sysdie ''krlsched_wait err''
     else (let s = upd_td tdp (\<lambda>t. t\<lparr>td_stus := TDSTUS_WAIT\<rparr>) s;
               s = upd_lst (\<lambda>h. list_del h (TdNode tdp)) s;
               s = (if tdl_curruntd (thdlst s pity) = tdp
                    then upd_thdlst pity (\<lambda>l. l\<lparr>tdl_curruntd := 0\<rparr>) s else s);
               s = upd_thdlst pity (\<lambda>l. l\<lparr>tdl_nr := tdl_nr l - 1\<rparr>) s
           in Some (krlwlst_add_thread wlst tdp s))
   }"

definition krlsched_up :: "adr \<Rightarrow> sched_t \<Rightarrow> sched_t option" where
  "krlsched_up wlst s =
     (if wlst = 0 then hal_sysdie ''krlsched_up err''
      else do {
        (tdp, s) \<leftarrow> krlwlst_del_thread wlst s;
        if tdp = 0 then hal_sysdie ''krlsched_up err''
        else if td_priority (thds s tdp) \<ge> PRITY_MAX then hal_sysdie ''krlsched_up err''
        else (let pity = td_prity s tdp;
                  s = upd_td tdp (\<lambda>t. t\<lparr>td_stus := TDSTUS_RUN\<rparr>) s;
                  s = upd_lst (\<lambda>h. list_add_tail h (TdNode tdp) (RunHead pity)) s
              in Some (upd_thdlst pity (\<lambda>l. l\<lparr>tdl_nr := tdl_nr l + 1\<rparr>) s))
      })"

definition krlsched_retn_idlethread :: "sched_t \<Rightarrow> adr option" where
  "krlsched_retn_idlethread s =
     (if sda_cpuidle (schdap s) = 0 then hal_sysdie ''schdap->sda_cpuidle NULL''
      else Some (sda_cpuidle (schdap s)))"

definition krlsched_set_schedflgs_ex :: "u64 \<Rightarrow> sched_t \<Rightarrow> sched_t" where
  "krlsched_set_schedflgs_ex flags = upd_schda (\<lambda>d. d\<lparr>sda_schdflgs := flags\<rparr>)"

definition krlsched_set_schedflgs :: "sched_t \<Rightarrow> sched_t" where
  "krlsched_set_schedflgs = upd_schda (\<lambda>d. d\<lparr>sda_schdflgs := NEED_SCHED_FLGS\<rparr>)"

text \<open>The inner loop of \<open>krlsched_select_thread\<close>: the first thread of a run queue that is
  running or new, or 0.\<close>

partial_function (option) select_in_list :: "sched_t \<Rightarrow> node \<Rightarrow> node \<Rightarrow> adr option" where
  "select_in_list s head pos =
     (if pos = head then Some 0
      else do {
        tdtmp \<leftarrow> list_entry pos;
        if td_stus (thds s tdtmp) = TDSTUS_RUN \<or> td_stus (thds s tdtmp) = TDSTUS_NEW then Some tdtmp
        else select_in_list s head (l_next (lst s) pos)
      })"

text \<open>The outer loop, over the priorities still to visit.\<close>

fun select_prity :: "nat list \<Rightarrow> sched_t \<Rightarrow> (adr \<times> sched_t) option" where
  "select_prity [] s =
     (let s = upd_schda (\<lambda>d. d\<lparr>sda_prityidx := PRITY_MIN\<rparr>) s in
      do { idle \<leftarrow> krlsched_retn_idlethread s; Some (idle, s) })"
| "select_prity (pity # ps) s = do {
     tdtmp \<leftarrow> select_in_list s (RunHead pity) (l_next (lst s) (RunHead pity));
     if tdtmp \<noteq> 0 then
       (let s = upd_lst (\<lambda>h. list_del h (TdNode tdtmp)) s;
            cur = tdl_curruntd (thdlst s pity);
            s = (if cur \<noteq> 0 then upd_lst (\<lambda>h. list_add_tail h (TdNode cur) (RunHead pity)) s else s);
            s = upd_thdlst pity (\<lambda>l. l\<lparr>tdl_curruntd := tdtmp\<rparr>) s
        in Some (tdtmp, s))
     else if tdl_curruntd (thdlst s pity) \<noteq> 0 then Some (tdl_curruntd (thdlst s pity), s)
     else select_prity ps s
   }"

definition krlsched_select_thread :: "sched_t \<Rightarrow> (adr \<times> sched_t) option" where
  "krlsched_select_thread s = select_prity [0..<unat PRITY_MAX] s"

text \<open>
  \<open>__to_new_context\<close>, and \<open>save_to_new_context\<close> around it. The stack pointer \<open>rsp\<close> of the
  outgoing thread is an input: sixteen registers are pushed below it and the result is kept
  in its context. A thread that is new continues at its first frame
  (\<open>retnfrom_first_sched\<close>), any other returns from its own earlier call; both continue
  with the state computed here.
\<close>

definition to_new_context :: "adr \<Rightarrow> adr \<Rightarrow> sched_t \<Rightarrow> sched_t" where
  "to_new_context next prev s =
     (let s = upd_schda (\<lambda>d. d\<lparr>sda_currtd := next\<rparr>) s;
          s = upd_td next (\<lambda>t. t\<lparr>td_context := (td_context t)\<lparr>ctx_nexttss := 0\<rparr>\<rparr>) s;
          s = s\<lparr>tss_rsp0 := td_krlstktop (thds s next)\<rparr>;
          s = s\<lparr>mmu_mmdsc := td_mmdsc (thds s next)\<rparr>
      in if td_stus (thds s next) = TDSTUS_NEW
         then upd_td next (\<lambda>t. t\<lparr>td_stus := TDSTUS_RUN\<rparr>) s
         else s)"

definition save_to_new_context :: "adr \<Rightarrow> adr \<Rightarrow> adr \<Rightarrow> sched_t \<Rightarrow> sched_t" where
  "save_to_new_context rsp next prev s =
     to_new_context next prev
       (upd_td prev (\<lambda>t. t\<lparr>td_context := (td_context t)\<lparr>ctx_nextrsp := rsp - 16 * 8\<rparr>\<rparr>) s)"

definition krlschedul :: "adr \<Rightarrow> sched_t \<Rightarrow> sched_t option" where
  "krlschedul rsp s =
     (if krlsched_retn_schedflgs s = NEED_START_CPUILDE_SCHED_FLGS then
        (let s = krlsched_set_schedflgs_ex NOTS_SCHED_FLGS s in
         do { idle \<leftarrow> krlsched_retn_idlethread s; Some s })
      else do {
        prev \<leftarrow> krlsched_retn_currthread s;
        (next, s) \<leftarrow> krlsched_select_thread s;
        Some (save_to_new_context rsp next prev s)
      })"

definition krlsched_chkneed_pmptsched :: "adr \<Rightarrow> sched_t \<Rightarrow> sched_t option" where
  "krlsched_chkneed_pmptsched rsp s =
     (let d = schdap s;
          need = (sda_schdflgs d = NEED_SCHED_FLGS \<and> sda_premptidx d = PMPT_FLGS);
          s = (if need then upd_schda (\<lambda>d. d\<lparr>sda_schdflgs := NOTS_SCHED_FLGS\<rparr>) s else s);
          schd = (need \<or> sda_schdflgs (schdap s) = NEED_START_CPUILDE_SCHED_FLGS)
      in if schd then krlschedul rsp s else Some s)"

definition krlschdclass_del_thread_addexit :: "adr \<Rightarrow> sched_t \<Rightarrow> sched_t" where
  "krlschdclass_del_thread_addexit thdp s =
     (let p = td_prity s thdp;
          s = upd_thdlst p (\<lambda>l. l\<lparr>tdl_nr := tdl_nr l - 1\<rparr>) s;
          s = upd_schda (\<lambda>d. d\<lparr>sda_threadnr := sda_threadnr d - 1\<rparr>) s;
          s = (if tdl_curruntd (thdlst s p) = thdp
               then upd_thdlst p (\<lambda>l. l\<lparr>tdl_curruntd := 0\<rparr>) s else s);
          s = upd_lst (\<lambda>h. list_del h (TdNode thdp)) s;
          s = upd_td thdp (\<lambda>t. t\<lparr>td_stus := TDSTUS_EXIT\<rparr>) s
      in upd_lst (\<lambda>h. list_add h (TdNode thdp) ExitHead) s)"

definition krlsched_exit :: "sched_t \<Rightarrow> sched_t option" where
  "krlsched_exit s = do {
     tdp \<leftarrow> krlsched_retn_currthread s;
     idle \<leftarrow> krlsched_retn_idlethread s;
     if tdp = idle then system_error ''krlsched_exit''
     else if td_priority (thds s tdp) \<ge> PRITY_MAX then hal_sysdie ''krlsched_wait err''
     else if tdl_nr (thdlst s (td_prity s tdp)) < 1 then hal_sysdie ''krlsched_wait err''
     else Some (krlschdclass_del_thread_addexit tdp s)
   }"

text \<open>A priority of \<open>PRITY_MAX\<close> or more would write behind the array: no outcome.\<close>

definition krlschdclass_add_thread :: "adr \<Rightarrow> sched_t \<Rightarrow> sched_t option" where
  "krlschdclass_add_thread thdp s =
     (let p = td_prity s thdp in
      if p \<ge> unat PRITY_MAX then None
      else (let s = upd_lst (\<lambda>h. list_add h (TdNode thdp) (RunHead p)) s;
                s = upd_thdlst p (\<lambda>l. l\<lparr>tdl_nr := tdl_nr l + 1\<rparr>) s;
                s = upd_schda (\<lambda>d. d\<lparr>sda_threadnr := sda_threadnr d + 1\<rparr>) s
            in Some (s\<lparr>osschedcls := (osschedcls s)\<lparr>scls_threadnr := scls_threadnr (osschedcls s) + 1\<rparr>\<rparr>)))"

definition krlthd_inc_tick :: "adr \<Rightarrow> sched_t \<Rightarrow> sched_t" where
  "krlthd_inc_tick thdp s =
     (let s = upd_td thdp (\<lambda>t. t\<lparr>td_tick := td_tick t + 1, td_sumtick := td_sumtick t + 1\<rparr>) s
      in if td_tick (thds s thdp) > TDRUN_TICK
         then krlsched_set_schedflgs (upd_td thdp (\<lambda>t. t\<lparr>td_tick := 0\<rparr>) s)
         else s)"

section \<open>Waiting and waking, semaphores\<close>

definition krlwlst_wait :: "adr \<Rightarrow> sched_t \<Rightarrow> sched_t option" where
  "krlwlst_wait wlst s = krlsched_wait wlst s"

definition krlwlst_up :: "adr \<Rightarrow> sched_t \<Rightarrow> sched_t option" where
  "krlwlst_up wlst s =
     (if list_is_empty_careful (lst s) (WaitHead wlst) then Some s else krlsched_up wlst s)"

partial_function (option) krlwlst_allup :: "adr \<Rightarrow> sched_t \<Rightarrow> sched_t option" where
  "krlwlst_allup wlst s =
     (if list_is_empty_careful (lst s) (WaitHead wlst) then Some s
      else do { s \<leftarrow> krlsched_up wlst s; krlwlst_allup wlst s })"

definition krlsem_t_init :: "adr \<Rightarrow> sched_t \<Rightarrow> sched_t" where
  "krlsem_t_init sem s = kwlst_t_init sem (s\<lparr>sems := (sems s)(sem := \<lparr>sem_flg = 0, sem_count = 0\<rparr>)\<rparr>)"

definition krlsem_set_sem :: "adr \<Rightarrow> u64 \<Rightarrow> int \<Rightarrow> sched_t \<Rightarrow> sched_t" where
  "krlsem_set_sem setsem flg conut s =
     s\<lparr>sems := (sems s)(setsem := \<lparr>sem_flg = flg, sem_count = conut\<rparr>)\<rparr>"

text \<open>
  One pass of the loop of \<open>krlsem_down\<close> by the current thread: \<open>Inr\<close> when it has the
  semaphore and the call returns, \<open>Inl\<close> when it is on the wait list and \<open>krlschedul\<close> has
  given the processor to another thread; it takes the next pass when it runs again.
\<close>

definition krlsem_down_pass :: "adr \<Rightarrow> adr \<Rightarrow> sched_t \<Rightarrow> (sched_t + sched_t) option" where
  "krlsem_down_pass rsp sem s =
     (if sem_count (sems s sem) < 1 then do {
        s \<leftarrow> krlwlst_wait sem s;
        s \<leftarrow> krlschedul rsp s;
        Some (Inl s)
      }
      else Some (Inr (s\<lparr>sems := (sems s)(sem := (sems s sem)\<lparr>sem_count := sem_count (sems s sem) - 1\<rparr>)\<rparr>)))"

definition krlsem_up :: "adr \<Rightarrow> sched_t \<Rightarrow> sched_t option" where
  "krlsem_up sem s =
     (let s = s\<lparr>sems := (sems s)(sem := (sems s sem)\<lparr>sem_count := sem_count (sems s sem) + 1\<rparr>)\<rparr> in
      if sem_count (sems s sem) < 1 then hal_sysdie ''sem up err''
      else do {
        s \<leftarrow> krlwlst_allup sem s;
        Some (krlsched_set_schedflgs s)
      })"

declare select_in_list.simps [code] krlwlst_allup.simps [code]

end
