(* ===== verification/Sched_Spec.thy ===== *)
theory Sched_Spec
  imports Sched
begin

text \<open>
  What the scheduler promises, on finite lists instead of linked ones, and the proof that the
  operations of \<open>Sched\<close> implement it. An abstract state gives the contents of the run
  queues, the thread each priority considers current, the wait lists, the exit list and the
  descriptors that are on no list. \<open>sched_rel s a\<close> relates it to the kernel's state: the
  linked lists hold these threads, the counters are the lengths, and the status and priority
  of every thread agree with the place it is in.
\<close>

section \<open>Abstract states and operations\<close>

record asched =
  a_run :: "nat \<Rightarrow> adr list"
  a_cur :: "nat \<Rightarrow> adr"
  a_wait :: "adr \<Rightarrow> adr list option"
  a_exit :: "adr list"
  a_free :: "adr set"

text \<open>One turn of a queue: its first thread becomes current, the former current thread goes to
  the end.\<close>

definition as_rotate :: "nat \<Rightarrow> asched \<Rightarrow> asched" where
  "as_rotate p a =
     a\<lparr>a_run := (a_run a)(p := tl (a_run a p) @ (if a_cur a p = 0 then [] else [a_cur a p])),
       a_cur := (a_cur a)(p := hd (a_run a p))\<rparr>"

text \<open>The first priority of \<open>ps\<close> with a thread takes its turn; \<open>None\<close> is the idle thread.\<close>

definition as_select_in :: "nat list \<Rightarrow> asched \<Rightarrow> adr option \<times> asched" where
  "as_select_in ps a =
     (case find (\<lambda>p. a_run a p \<noteq> [] \<or> a_cur a p \<noteq> 0) ps of
        None \<Rightarrow> (None, a)
      | Some p \<Rightarrow> (if a_run a p = [] then (Some (a_cur a p), a)
                   else (Some (hd (a_run a p)), as_rotate p a)))"

definition as_select :: "asched \<Rightarrow> adr option \<times> asched" where
  "as_select a = as_select_in [0..<64] a"

definition as_wait :: "adr \<Rightarrow> nat \<Rightarrow> asched \<Rightarrow> asched" where
  "as_wait w p a = a\<lparr>a_cur := (a_cur a)(p := 0),
                      a_wait := (a_wait a)(w \<mapsto> a_cur a p # the (a_wait a w))\<rparr>"

definition as_exit :: "nat \<Rightarrow> asched \<Rightarrow> asched" where
  "as_exit p a = a\<lparr>a_cur := (a_cur a)(p := 0), a_exit := a_cur a p # a_exit a\<rparr>"

definition as_add :: "nat \<Rightarrow> adr \<Rightarrow> asched \<Rightarrow> asched" where
  "as_add p t a = a\<lparr>a_run := (a_run a)(p := t # a_run a p), a_free := a_free a - {t}\<rparr>"

text \<open>Waking \<open>n\<close> threads: they leave the front of the wait list and join their run queues.\<close>

definition as_up :: "(adr \<Rightarrow> nat) \<Rightarrow> adr \<Rightarrow> nat \<Rightarrow> asched \<Rightarrow> asched" where
  "as_up pr w n a =
     (let ts = the (a_wait a w) in
      a\<lparr>a_run := (\<lambda>p. a_run a p @ filter (\<lambda>t. pr t = p) (take n ts)),
        a_wait := (a_wait a)(w \<mapsto> drop n ts)\<rparr>)"

section \<open>The relation\<close>

fun contents :: "asched \<Rightarrow> node \<Rightarrow> node list option" where
  "contents a (RunHead p) = (if p < 64 then Some (map TdNode (a_run a p)) else None)"
| "contents a ExitHead = Some (map TdNode (a_exit a))"
| "contents a (WaitHead w) = map_option (map TdNode) (a_wait a w)"
| "contents a (TdNode t) =
     (if t \<in> a_free a \<or> t \<noteq> 0 \<and> (\<exists>p < 64. a_cur a p = t) then Some [] else None)"

text \<open>The part of the relation that does not look at the linked lists.\<close>

definition runnable :: "thread_t \<Rightarrow> bool" where
  "runnable td \<longleftrightarrow> td_stus td = TDSTUS_RUN \<or> td_stus td = TDSTUS_NEW"

definition ready_ok :: "sched_t \<Rightarrow> asched \<Rightarrow> bool" where
  "ready_ok s a \<longleftrightarrow> (\<forall>p < 64. \<forall>t \<in> set (a_run a p). t \<noteq> 0 \<and> runnable (thds s t) \<and> td_prity s t = p)"

definition cur_ok :: "sched_t \<Rightarrow> asched \<Rightarrow> bool" where
  "cur_ok s a \<longleftrightarrow> (\<forall>p < 64. tdl_curruntd (thdlst s p) = a_cur a p \<and>
     (a_cur a p \<noteq> 0 \<longrightarrow> a_cur a p \<notin> a_free a \<and> runnable (thds s (a_cur a p)) \<and> td_prity s (a_cur a p) = p))"

definition nr_ok :: "sched_t \<Rightarrow> asched \<Rightarrow> bool" where
  "nr_ok s a \<longleftrightarrow> (\<forall>p < 64. tdl_nr (thdlst s p) =
     of_nat (length (a_run a p) + (if a_cur a p = 0 then 0 else 1)))"

definition wait_ok :: "sched_t \<Rightarrow> asched \<Rightarrow> bool" where
  "wait_ok s a \<longleftrightarrow> (\<forall>w ts. a_wait a w = Some ts \<longrightarrow> w \<noteq> 0 \<and> wl_tdnr s w = of_nat (length ts) \<and>
     (\<forall>t \<in> set ts. t \<noteq> 0 \<and> td_stus (thds s t) = TDSTUS_WAIT \<and> td_prity s t < 64))"

definition exit_ok :: "sched_t \<Rightarrow> asched \<Rightarrow> bool" where
  "exit_ok s a \<longleftrightarrow> (\<forall>t \<in> set (a_exit a). td_stus (thds s t) = TDSTUS_EXIT)"

definition idle_ok :: "sched_t \<Rightarrow> asched \<Rightarrow> bool" where
  "idle_ok s a \<longleftrightarrow> sda_cpuidle (schdap s) \<noteq> 0 \<and> sda_cpuidle (schdap s) \<in> a_free a"

definition sched_rel :: "sched_t \<Rightarrow> asched \<Rightarrow> bool" where
  "sched_rel s a \<longleftrightarrow> klists (lst s) (contents a) \<and> ready_ok s a \<and> cur_ok s a \<and> nr_ok s a \<and>
     wait_ok s a \<and> exit_ok s a \<and> idle_ok s a"

text \<open>The processor runs the thread its run queue calls current, or the idle thread.\<close>

definition running_ok :: "sched_t \<Rightarrow> asched \<Rightarrow> bool" where
  "running_ok s a \<longleftrightarrow> (let t = sda_currtd (schdap s) in
     t \<noteq> 0 \<and> (t = sda_cpuidle (schdap s) \<or> (td_prity s t < 64 \<and> a_cur a (td_prity s t) = t)))"

lemmas rel_defs = ready_ok_def cur_ok_def nr_ok_def wait_ok_def exit_ok_def idle_ok_def

section \<open>Reading an updated state\<close>

lemma upd_sel [simp]:
  "lst (upd_lst f s) = f (lst s)" "thds (upd_lst f s) = thds s" "osschedcls (upd_lst f s) = osschedcls s"
  "wl_tdnr (upd_lst f s) = wl_tdnr s" "sems (upd_lst f s) = sems s"
  "lst (upd_td t g s) = lst s" "thds (upd_td t g s) = (thds s)(t := g (thds s t))"
  "osschedcls (upd_td t g s) = osschedcls s" "wl_tdnr (upd_td t g s) = wl_tdnr s"
  "sems (upd_td t g s) = sems s"
  by (simp_all add: upd_lst_def upd_td_def)

lemma upd_schda_sel [simp]:
  "lst (upd_schda k s) = lst s" "thds (upd_schda k s) = thds s" "wl_tdnr (upd_schda k s) = wl_tdnr s"
  "sems (upd_schda k s) = sems s" "schdap (upd_schda k s) = k (schdap s)"
  "scls_threadnr (osschedcls (upd_schda k s)) = scls_threadnr (osschedcls s)"
  by (simp_all add: upd_schda_def)

lemma upd_thdlst_sel [simp]:
  "lst (upd_thdlst p l s) = lst s" "thds (upd_thdlst p l s) = thds s"
  "wl_tdnr (upd_thdlst p l s) = wl_tdnr s" "sems (upd_thdlst p l s) = sems s"
  "thdlst (upd_thdlst p l s) q = (if q = p then l (thdlst s p) else thdlst s q)"
  "sda_cpuidle (schdap (upd_thdlst p l s)) = sda_cpuidle (schdap s)"
  "sda_currtd (schdap (upd_thdlst p l s)) = sda_currtd (schdap s)"
  "sda_schdflgs (schdap (upd_thdlst p l s)) = sda_schdflgs (schdap s)"
  "sda_premptidx (schdap (upd_thdlst p l s)) = sda_premptidx (schdap s)"
  "sda_threadnr (schdap (upd_thdlst p l s)) = sda_threadnr (schdap s)"
  "scls_threadnr (osschedcls (upd_thdlst p l s)) = scls_threadnr (osschedcls s)"
  by (simp_all add: upd_thdlst_def)

lemma td_prity_upd [simp]:
  "td_prity (upd_lst f s) = td_prity s" "td_prity (upd_schda k s) = td_prity s"
  "td_prity (upd_thdlst p l s) = td_prity s"
  "td_prity (upd_td t (td_stus_update g) s) = td_prity s" "td_prity (wl_tdnr_update v s) = td_prity s"
  by (simp_all add: td_prity_def fun_eq_iff)

lemma td_prity_less: "td_prity s t < 64 \<longleftrightarrow> \<not> PRITY_MAX \<le> td_priority (thds s t)"
proof -
  have "unat (64 :: 64 word) = 64" by simp
  then show ?thesis by (simp add: td_prity_def PRITY_MAX_def word_le_nat_alt not_le)
qed

section \<open>What the relation gives\<close>

lemma sched_relD:
  assumes "sched_rel s a"
  shows "klists (lst s) (contents a)" "ready_ok s a" "cur_ok s a" "nr_ok s a" "wait_ok s a"
    "exit_ok s a" "idle_ok s a"
  using assms by (simp_all add: sched_rel_def)

lemma member_not_detached:
  assumes "sched_rel s a" and "contents a n = Some (map TdNode ts)" and "t \<in> set ts"
  shows "contents a (TdNode t) = None"
  by (rule kl.not_detached_if_member [OF sched_relD(1) [OF assms(1)] assms(2)]) (simp add: assms(3))

lemma contents_distinct:
  assumes "sched_rel s a" and "contents a n = Some (map TdNode ts)"
  shows "distinct ts"
  using kl.nodes_distinct [OF sched_relD(1) [OF assms(1)] assms(2)] by (auto simp: distinct_map)

lemma contents_disjoint:
  assumes "sched_rel s a" and "contents a n = Some (map TdNode ts)"
    and "contents a n' = Some (map TdNode ts')" and "n \<noteq> n'"
  shows "set ts \<inter> set ts' = {}"
  using kl.node_unique [OF sched_relD(1) [OF assms(1)] assms(2,3,4)] by auto

lemma cur_facts:
  assumes "sched_rel s a" and "p < 64" and "a_cur a p \<noteq> 0"
  shows "a_cur a p \<notin> a_free a" "runnable (thds s (a_cur a p))" "td_prity s (a_cur a p) = p"
  using sched_relD(3) [OF assms(1)] assms(2,3) by (auto simp: cur_ok_def)

lemma cur_unique:
  assumes "sched_rel s a" and "p < 64" and "q < 64" and "a_cur a p \<noteq> 0" and "a_cur a q = a_cur a p"
  shows "q = p"
  using cur_facts(3) [OF assms(1,2,4)] cur_facts(3) [OF assms(1,3)] assms(4,5) by metis

lemma ex_upd:
  "u \<noteq> v \<Longrightarrow> u \<noteq> f p \<Longrightarrow> (\<exists>q < (n :: nat). (if q = p then v else f q) = u) \<longleftrightarrow> (\<exists>q < n. f q = u)"
  by metis

lemma wait_not_running:
  assumes "sched_rel s a" and "a_wait a w = Some ts" and "t \<in> set ts"
  shows "t \<notin> a_free a" "p < 64 \<Longrightarrow> a_cur a p \<noteq> t" "p < 64 \<Longrightarrow> t \<notin> set (a_run a p)"
    "t \<notin> set (a_exit a)"
proof -
  have c: "contents a (TdNode t) = None"
    using member_not_detached [OF assms(1), of "WaitHead w" ts] assms(2,3) by simp
  have "t \<noteq> 0" using sched_relD(5) [OF assms(1)] assms(2,3) by (auto simp: wait_ok_def)
  with c show "t \<notin> a_free a" "p < 64 \<Longrightarrow> a_cur a p \<noteq> t" by (auto split: if_splits)
  show "p < 64 \<Longrightarrow> t \<notin> set (a_run a p)" "t \<notin> set (a_exit a)"
    using contents_disjoint [OF assms(1), of "WaitHead w" ts "RunHead p" "a_run a p"]
      contents_disjoint [OF assms(1), of "WaitHead w" ts ExitHead "a_exit a"] assms(2,3) by auto
qed

text \<open>A distinct list of non-null addresses is shorter than \<open>2 ^ 64\<close>: its length as a 64-bit
  counter is 0 only for the empty list.\<close>

lemma length_nonnull:
  fixes ts :: "'w::len word list"
  assumes "distinct ts" and "0 \<notin> set ts"
  shows "length ts < 2 ^ LENGTH('w)"
proof -
  have "length ts = card (set ts)" using assms(1) by (simp add: distinct_card)
  also have "\<dots> \<le> card (UNIV - {0 :: 'w word})" using assms(2) by (intro card_mono) auto
  also have "\<dots> < card (UNIV :: 'w word set)" by (rule psubset_card_mono) auto
  finally show ?thesis by (simp add: card_word)
qed

lemma counter_pos:
  fixes ts :: "'w::len word list"
  assumes "distinct ts" and "0 \<notin> set ts" and "ts \<noteq> []"
  shows "\<not> (of_nat (length ts) :: 'w word) < 1"
proof -
  have "unat (of_nat (length ts) :: 'w word) = length ts"
    using length_nonnull [OF assms(1,2)] by (simp add: unat_of_nat take_bit_nat_eq_self)
  with assms(3) show ?thesis by (auto simp: word_less_nat_alt)
qed

section \<open>Selecting a thread\<close>

lemma select_in_list_rel:
  assumes "sched_rel s a" and "p < 64"
  shows "select_in_list s (RunHead p) (l_next (lst s) (RunHead p)) =
    Some (case a_run a p of [] \<Rightarrow> 0 | t # ts \<Rightarrow> t)"
proof -
  have "klist (lst s) (RunHead p) (map TdNode (a_run a p))"
    using klistsD [OF sched_relD(1) [OF assms(1)], of "RunHead p"] assms(2) by simp
  note n = klist_next [OF this]
  show ?thesis
  proof (cases "a_run a p")
    case Nil
    with n show ?thesis by (subst select_in_list.simps) simp
  next
    case (Cons t ts)
    then have "runnable (thds s t)"
      using sched_relD(2) [OF assms(1)] assms(2) by (auto simp: ready_ok_def)
    with n Cons show ?thesis by (subst select_in_list.simps) (auto simp: runnable_def)
  qed
qed

definition rotate_lst :: "nat \<Rightarrow> adr \<Rightarrow> adr \<Rightarrow> node lheap \<Rightarrow> node lheap" where
  "rotate_lst p t c h =
     (let h = list_del h (TdNode t) in if c \<noteq> 0 then list_add_tail h (TdNode c) (RunHead p) else h)"

lemma rotate_lst_rel:
  assumes r: "sched_rel s a" and p: "p < 64" and ts: "a_run a p = t # ts"
  shows "klists (rotate_lst p t (a_cur a p) (lst s)) (contents (as_rotate p a))"
proof -
  let ?L = "(contents a)(RunHead p \<mapsto> map TdNode ts, TdNode t \<mapsto> [])"
  let ?c = "a_cur a p"
  have t0: "t \<noteq> 0" using sched_relD(2) [OF r] p ts by (auto simp: ready_ok_def)
  have tn: "contents a (TdNode t) = None"
    using member_not_detached [OF r, of "RunHead p" "a_run a p"] p ts by simp
  have pop: "klists (list_del (lst s) (TdNode t)) ?L"
    using kl.pop [OF sched_relD(1) [OF r], of "RunHead p"] p ts by simp
  show ?thesis
  proof (cases "?c = 0")
    case True
    have "?L = contents (as_rotate p a)"
    proof
      fix n show "?L n = contents (as_rotate p a) n"
        using True p ts t0 tn by (cases n) (auto simp: as_rotate_def split: if_splits)
    qed
    with pop True show ?thesis by (simp add: rotate_lst_def)
  next
    case False
    note cur = cur_unique [OF r p _ False] and cf = cur_facts(1) [OF r p False]
    have ct: "t \<noteq> ?c" using tn p t0 by (auto split: if_splits)
    let ?L' = "?L(TdNode ?c := None, RunHead p \<mapsto> map TdNode ts @ [TdNode ?c])"
    have "klists (list_add_tail (list_del (lst s) (TdNode t)) (TdNode ?c) (RunHead p)) ?L'"
      by (rule kl.add_tail [OF pop]) (use False p in auto)
    moreover have "?L' = contents (as_rotate p a)"
    proof
      fix n show "?L' n = contents (as_rotate p a) n"
      proof (cases n)
        case (TdNode u)
        then show ?thesis
          using False p t0 tn ct cf cur
          by (cases "u = ?c"; cases "u = t") (auto simp: as_rotate_def ts ex_upd split: if_splits)
      qed (use False p ts in \<open>auto simp: as_rotate_def\<close>)
    qed
    ultimately show ?thesis using False by (simp add: rotate_lst_def)
  qed
qed

text \<open>What no scheduling operation touches.\<close>

definition same_env :: "sched_t \<Rightarrow> sched_t \<Rightarrow> bool" where
  "same_env s s' \<longleftrightarrow> sems s' = sems s \<and> sda_cpuidle (schdap s') = sda_cpuidle (schdap s) \<and>
     sda_currtd (schdap s') = sda_currtd (schdap s) \<and> sda_schdflgs (schdap s') = sda_schdflgs (schdap s) \<and>
     sda_premptidx (schdap s') = sda_premptidx (schdap s) \<and> td_prity s' = td_prity s"

lemma same_env_refl [simp]: "same_env s s"
  by (simp add: same_env_def)

lemma select_prity_rel:
  assumes "sched_rel s a" and "set ps \<subseteq> {..<64}"
  shows "\<exists>s'. select_prity ps s =
      Some (case fst (as_select_in ps a) of None \<Rightarrow> sda_cpuidle (schdap s) | Some t \<Rightarrow> t, s') \<and>
    sched_rel s' (snd (as_select_in ps a)) \<and> same_env s s' \<and> thds s' = thds s"
  using assms
proof (induction ps)
  case Nil
  then show ?case
    by (auto simp: as_select_in_def krlsched_retn_idlethread_def sched_rel_def rel_defs Let_def
        same_env_def)
next
  case (Cons p ps)
  then have p: "p < 64" by simp
  note r = Cons.prems(1)
  note sel = select_in_list_rel [OF r p]
  have cur: "tdl_curruntd (thdlst s p) = a_cur a p"
    using sched_relD(3) [OF r] p by (simp add: cur_ok_def)
  show ?case
  proof (cases "a_run a p")
    case Nil
    with Cons cur sel show ?thesis by (auto simp: as_select_in_def)
  next
    case (Cons t ts)
    have t0: "t \<noteq> 0" using sched_relD(2) [OF r] p Cons by (auto simp: ready_ok_def)
    let ?s = "upd_thdlst p (\<lambda>l. l\<lparr>tdl_curruntd := t\<rparr>) (upd_lst (rotate_lst p t (a_cur a p)) s)"
    have "select_prity (p # ps) s = Some (t, ?s)"
      using t0 cur sel Cons by (auto simp: Let_def rotate_lst_def upd_lst_def)
    moreover have "sched_rel ?s (as_rotate p a)"
      unfolding sched_rel_def using rotate_lst_rel [OF r p Cons] sched_relD [OF r] p Cons
        member_not_detached [OF r, of "RunHead p" "a_run a p" t]
      by (auto simp: rel_defs as_rotate_def split: if_splits)
    ultimately show ?thesis using Cons by (auto simp: as_select_in_def same_env_def)
  qed
qed

section \<open>Waiting, waking, leaving and joining\<close>

lemma contents_wait:
  assumes r: "sched_rel s a" and p: "p < 64" and t: "a_cur a p \<noteq> 0" and w: "a_wait a w = Some ts"
  shows "contents (as_wait w p a) =
    (contents a)(TdNode (a_cur a p) := None, WaitHead w \<mapsto> TdNode (a_cur a p) # map TdNode ts)"
proof
  fix n show "contents (as_wait w p a) n =
    ((contents a)(TdNode (a_cur a p) := None, WaitHead w \<mapsto> TdNode (a_cur a p) # map TdNode ts)) n"
  proof (cases n)
    case (TdNode u)
    then show ?thesis
      using p t cur_facts(1) [OF r p t] cur_unique [OF r p _ t]
      by (cases "u = a_cur a p"; cases "u = 0") (auto simp: as_wait_def ex_upd split: if_splits)
  qed (use p t w in \<open>auto simp: as_wait_def\<close>)
qed

lemma contents_exit:
  assumes r: "sched_rel s a" and p: "p < 64" and t: "a_cur a p \<noteq> 0"
  shows "contents (as_exit p a) =
    (contents a)(TdNode (a_cur a p) := None, ExitHead \<mapsto> TdNode (a_cur a p) # map TdNode (a_exit a))"
proof
  fix n show "contents (as_exit p a) n =
    ((contents a)(TdNode (a_cur a p) := None, ExitHead \<mapsto> TdNode (a_cur a p) # map TdNode (a_exit a))) n"
  proof (cases n)
    case (TdNode u)
    then show ?thesis
      using p t cur_facts(1) [OF r p t] cur_unique [OF r p _ t]
      by (cases "u = a_cur a p"; cases "u = 0") (auto simp: as_exit_def ex_upd split: if_splits)
  qed (use p t in \<open>auto simp: as_exit_def\<close>)
qed

lemma cur_detached: "p < 64 \<Longrightarrow> a_cur a p \<noteq> 0 \<Longrightarrow> contents a (TdNode (a_cur a p)) = Some []"
  by auto

text \<open>Other places of a thread that is current.\<close>

lemma cur_elsewhere:
  assumes r: "sched_rel s a" and p: "p < 64" and t: "a_cur a p \<noteq> 0"
  shows "q < 64 \<Longrightarrow> a_cur a p \<notin> set (a_run a q)"
    "a_wait a w = Some ts \<Longrightarrow> a_cur a p \<notin> set ts" "a_cur a p \<notin> set (a_exit a)"
proof -
  note d = cur_detached [OF p t]
  show "q < 64 \<Longrightarrow> a_cur a p \<notin> set (a_run a q)"
    using member_not_detached [OF r, of "RunHead q" "a_run a q"] d by fastforce
  show "a_wait a w = Some ts \<Longrightarrow> a_cur a p \<notin> set ts"
    using member_not_detached [OF r, of "WaitHead w" ts] d by fastforce
  show "a_cur a p \<notin> set (a_exit a)"
    using member_not_detached [OF r, of ExitHead "a_exit a"] d by fastforce
qed

text \<open>The current thread of a priority is counted, so the counter is not 0.\<close>

lemma cur_counted:
  assumes r: "sched_rel s a" and p: "p < 64" and t: "a_cur a p \<noteq> 0"
  shows "\<not> tdl_nr (thdlst s p) < 1"
proof -
  have c: "contents a (RunHead p) = Some (map TdNode (a_run a p))" using p by simp
  note ni = cur_elsewhere(1) [OF r p t p]
  have "distinct (a_cur a p # a_run a p)" "0 \<notin> set (a_cur a p # a_run a p)"
    using ni contents_distinct [OF r c] t sched_relD(2) [OF r] p by (auto simp: ready_ok_def)
  from counter_pos [OF this] have "\<not> (of_nat (length (a_cur a p # a_run a p)) :: u64) < 1" by blast
  then show ?thesis using sched_relD(4) [OF r] p t by (simp add: nr_ok_def add.commute)
qed

lemma krlsched_wait_rel:
  assumes r: "sched_rel s a" and p: "p < 64" and t: "a_cur a p \<noteq> 0"
    and run: "sda_currtd (schdap s) = a_cur a p" and w: "a_wait a w = Some ts"
  shows "\<exists>s'. krlsched_wait w s = Some s' \<and> sched_rel s' (as_wait w p a) \<and> same_env s s'"
proof -
  let ?t = "a_cur a p"
  have w0: "w \<noteq> 0" using sched_relD(5) [OF r] w by (simp add: wait_ok_def)
  have pr: "td_prity s ?t = p" by (rule cur_facts(3) [OF r p t])
  have cur: "tdl_curruntd (thdlst s p) = ?t" using sched_relD(3) [OF r] p by (simp add: cur_ok_def)
  have det: "list_del (lst s) (TdNode ?t) = lst s"
    by (rule kl.del_detached [OF sched_relD(1) [OF r] cur_detached [OF p t]])
  let ?s = "upd_thdlst p (\<lambda>l. l\<lparr>tdl_nr := tdl_nr l - 1\<rparr>) (upd_thdlst p (\<lambda>l. l\<lparr>tdl_curruntd := 0\<rparr>)
      (upd_lst (\<lambda>h. list_del h (TdNode ?t)) (upd_td ?t (\<lambda>t. t\<lparr>td_stus := TDSTUS_WAIT\<rparr>) s)))"
  have "krlsched_wait w s = Some (krlwlst_add_thread w ?t ?s)"
    using w0 run t pr p cur cur_counted [OF r p t] td_prity_less [of s ?t]
    by (simp add: krlsched_wait_def krlsched_retn_currthread_def Let_def)
  moreover have "klists (lst (krlwlst_add_thread w ?t ?s)) (contents (as_wait w p a))"
    unfolding contents_wait [OF r p t w] krlwlst_add_thread_def Let_def
    using kl.add [OF sched_relD(1) [OF r] _ cur_detached [OF p t], of "WaitHead w" "map TdNode ts"]
      w det by simp
  moreover have "ready_ok (krlwlst_add_thread w ?t ?s) (as_wait w p a)"
    using sched_relD(2) [OF r] cur_elsewhere(1) [OF r p t]
    by (auto simp: ready_ok_def as_wait_def krlwlst_add_thread_def Let_def td_prity_def)
  moreover have "cur_ok (krlwlst_add_thread w ?t ?s) (as_wait w p a)"
    using sched_relD(3) [OF r] cur_unique [OF r p _ t]
    by (auto simp: cur_ok_def as_wait_def krlwlst_add_thread_def Let_def td_prity_def)
  moreover have "nr_ok (krlwlst_add_thread w ?t ?s) (as_wait w p a)"
    using sched_relD(4) [OF r] t
    by (auto simp: nr_ok_def as_wait_def krlwlst_add_thread_def Let_def)
  moreover have "wait_ok (krlwlst_add_thread w ?t ?s) (as_wait w p a)"
    using sched_relD(5) [OF r] cur_elsewhere(2) [OF r p t] w t p pr
    by (auto simp: wait_ok_def as_wait_def krlwlst_add_thread_def Let_def td_prity_def)
  moreover have "exit_ok (krlwlst_add_thread w ?t ?s) (as_wait w p a)"
    using sched_relD(6) [OF r] cur_elsewhere(3) [OF r p t]
    by (auto simp: exit_ok_def as_wait_def krlwlst_add_thread_def Let_def)
  moreover have "idle_ok (krlwlst_add_thread w ?t ?s) (as_wait w p a)"
    using sched_relD(7) [OF r] by (auto simp: idle_ok_def as_wait_def krlwlst_add_thread_def Let_def)
  moreover have "same_env s (krlwlst_add_thread w ?t ?s)"
    by (auto simp: same_env_def krlwlst_add_thread_def Let_def td_prity_def)
  ultimately show ?thesis by (auto simp: sched_rel_def)
qed

lemma krlsched_exit_rel:
  assumes r: "sched_rel s a" and p: "p < 64" and t: "a_cur a p \<noteq> 0"
    and run: "sda_currtd (schdap s) = a_cur a p"
  shows "\<exists>s'. krlsched_exit s = Some s' \<and> sched_rel s' (as_exit p a) \<and> same_env s s'"
proof -
  let ?t = "a_cur a p"
  let ?s = "krlschdclass_del_thread_addexit ?t s"
  note d = krlschdclass_del_thread_addexit_def Let_def as_exit_def
  have pr: "td_prity s ?t = p" by (rule cur_facts(3) [OF r p t])
  have cur: "tdl_curruntd (thdlst s p) = ?t" using sched_relD(3) [OF r] p by (simp add: cur_ok_def)
  have det: "list_del (lst s) (TdNode ?t) = lst s"
    by (rule kl.del_detached [OF sched_relD(1) [OF r] cur_detached [OF p t]])
  have "sda_cpuidle (schdap s) \<noteq> 0" "?t \<noteq> sda_cpuidle (schdap s)"
    using sched_relD(7) [OF r] cur_facts(1) [OF r p t] by (auto simp: idle_ok_def)
  then have "krlsched_exit s = Some ?s"
    using run t pr p cur_counted [OF r p t] td_prity_less [of s ?t]
    by (simp add: krlsched_exit_def krlsched_retn_currthread_def krlsched_retn_idlethread_def)
  moreover have "klists (lst ?s) (contents (as_exit p a))"
    unfolding contents_exit [OF r p t]
    using kl.add [OF sched_relD(1) [OF r] _ cur_detached [OF p t], of ExitHead "map TdNode (a_exit a)"]
      det pr cur by (simp add: krlschdclass_del_thread_addexit_def Let_def)
  moreover have "ready_ok ?s (as_exit p a)"
    using sched_relD(2) [OF r] cur_elsewhere(1) [OF r p t] pr cur
    by (auto simp: ready_ok_def d td_prity_def)
  moreover have "cur_ok ?s (as_exit p a)"
    using sched_relD(3) [OF r] cur_unique [OF r p _ t] pr cur
    by (auto simp: cur_ok_def d td_prity_def)
  moreover have "nr_ok ?s (as_exit p a)"
    using sched_relD(4) [OF r] t pr cur by (auto simp: nr_ok_def d)
  moreover have "wait_ok ?s (as_exit p a)"
    using sched_relD(5) [OF r] cur_elsewhere(2) [OF r p t] pr cur
    by (auto simp: wait_ok_def d td_prity_def)
  moreover have "exit_ok ?s (as_exit p a)"
    using sched_relD(6) [OF r] by (auto simp: exit_ok_def d)
  moreover have "idle_ok ?s (as_exit p a)"
    using sched_relD(7) [OF r] by (auto simp: idle_ok_def d)
  moreover have "same_env s ?s"
    by (auto simp: same_env_def d td_prity_def)
  ultimately show ?thesis by (auto simp: sched_rel_def)
qed

lemma contents_up:
  assumes r: "sched_rel s a" and w: "a_wait a w = Some (t # ts)" and p: "p = td_prity s t" "p < 64"
  shows "contents (as_up (td_prity s) w 1 a) =
    (contents a)(WaitHead w \<mapsto> map TdNode ts, RunHead p \<mapsto> map TdNode (a_run a p) @ [TdNode t])"
proof
  fix n show "contents (as_up (td_prity s) w 1 a) n =
    ((contents a)(WaitHead w \<mapsto> map TdNode ts, RunHead p \<mapsto> map TdNode (a_run a p) @ [TdNode t])) n"
    using w p by (cases n) (auto simp: as_up_def Let_def)
qed

lemma wait_counted:
  assumes r: "sched_rel s a" and w: "a_wait a w = Some ts" and ne: "ts \<noteq> []"
  shows "\<not> wl_tdnr s w < 1"
proof -
  have "distinct ts" using contents_distinct [OF r, of "WaitHead w" ts] w by simp
  moreover have "0 \<notin> set ts" using sched_relD(5) [OF r] w by (auto simp: wait_ok_def)
  ultimately have "\<not> (of_nat (length ts) :: u64) < 1" using ne by (rule counter_pos)
  then show ?thesis using sched_relD(5) [OF r] w by (simp add: wait_ok_def)
qed

lemma krlsched_up_rel:
  assumes r: "sched_rel s a" and w: "a_wait a w = Some (t # ts)"
  shows "\<exists>s'. krlsched_up w s = Some s' \<and> sched_rel s' (as_up (td_prity s) w 1 a) \<and> same_env s s'"
proof -
  define p where "p = td_prity s t"
  have wt: "w \<noteq> 0" "t \<noteq> 0" "p < 64" "wl_tdnr s w = of_nat (length (t # ts))"
    using sched_relD(5) [OF r] w by (auto simp: wait_ok_def p_def)
  note other = wait_not_running [OF r w, of t, simplified]
  have c: "contents a (WaitHead w) = Some (TdNode t # map TdNode ts)" using w by simp
  have nx: "l_next (lst s) (WaitHead w) = TdNode t"
    using klist_next [OF klistsD [OF sched_relD(1) [OF r] c]] by simp
  let ?s = "upd_thdlst p (\<lambda>l. l\<lparr>tdl_nr := tdl_nr l + 1\<rparr>)
      (upd_lst (\<lambda>h. list_add_tail (list_del h (TdNode t)) (TdNode t) (RunHead p))
        (upd_td t (\<lambda>t. t\<lparr>td_stus := TDSTUS_RUN\<rparr>) (s\<lparr>wl_tdnr := (wl_tdnr s)(w := wl_tdnr s w - 1)\<rparr>)))"
  let ?a = "as_up (td_prity s) w 1 a"
  note d = as_up_def Let_def
  have "krlsched_up w s = Some ?s"
    using wt nx wait_counted [OF r w] td_prity_less [of s t]
    by (simp add: krlsched_up_def krlwlst_del_thread_def Let_def p_def td_prity_def upd_lst_def upd_td_def)
  moreover have "klists (lst ?s) (contents ?a)"
    unfolding contents_up [OF r w p_def wt(3)]
    using kl.pop_push_tail [OF sched_relD(1) [OF r] c, of "RunHead p"] wt(3) by simp
  moreover have "ready_ok ?s ?a"
    using sched_relD(2) [OF r] other(3) wt(2) w
    by (auto simp: ready_ok_def d runnable_def)
  moreover have "cur_ok ?s ?a"
    using sched_relD(3) [OF r] other by (auto simp: cur_ok_def d)
  moreover have "nr_ok ?s ?a"
    using sched_relD(4) [OF r] wt w by (auto simp: nr_ok_def d p_def)
  moreover have "wait_ok ?s ?a"
    unfolding wait_ok_def
  proof (intro allI impI)
    fix w' ts' assume w': "a_wait ?a w' = Some ts'"
    obtain us where us: "a_wait a w' = Some us" "ts' = (if w' = w then ts else us)" "w' = w \<Longrightarrow> us = t # ts"
      using w w' by (auto simp: d split: if_splits)
    have "t \<notin> set ts'"
      using contents_distinct [OF r, of "WaitHead w" "t # ts"] us w
        contents_disjoint [OF r, of "WaitHead w" "t # ts" "WaitHead w'" us] by auto
    moreover have "set ts' \<subseteq> set us" using us by auto
    ultimately show "w' \<noteq> 0 \<and> wl_tdnr ?s w' = of_nat (length ts') \<and>
        (\<forall>u \<in> set ts'. u \<noteq> 0 \<and> td_stus (thds ?s u) = TDSTUS_WAIT \<and> td_prity ?s u < 64)"
      using sched_relD(5) [OF r] us wt(4) by (auto simp: wait_ok_def)
  qed
  moreover have "exit_ok ?s ?a"
    using sched_relD(6) [OF r] other by (auto simp: exit_ok_def d)
  moreover have "idle_ok ?s ?a"
    using sched_relD(7) [OF r] by (auto simp: idle_ok_def d)
  moreover have "same_env s ?s"
    by (auto simp: same_env_def)
  ultimately show ?thesis by (auto simp: sched_rel_def)
qed

lemma as_up_Suc:
  assumes "a_wait a w = Some (t # ts)"
  shows "as_up pr w (Suc n) a = as_up pr w n (as_up pr w 1 a)"
  using assms by (simp add: as_up_def Let_def fun_eq_iff)

lemma as_up_0: "a_wait a w = Some ts \<Longrightarrow> as_up pr w 0 a = a"
  by (simp add: as_up_def Let_def fun_upd_idem)

lemma same_env_trans: "same_env s s' \<Longrightarrow> same_env s' s'' \<Longrightarrow> same_env s s''"
  by (simp add: same_env_def)

text \<open>The loop of \<open>krlwlst_allup\<close> ends, and it wakes every thread of the list in order.\<close>

lemma krlwlst_allup_rel:
  assumes "sched_rel s a" and "a_wait a w = Some ts"
  shows "\<exists>s'. krlwlst_allup w s = Some s' \<and> sched_rel s' (as_up (td_prity s) w (length ts) a) \<and> same_env s s'"
  using assms
proof (induction ts arbitrary: s a)
  case Nil
  then have "list_is_empty_careful (lst s) (WaitHead w)"
    using kl.is_empty [OF sched_relD(1) [OF Nil.prems(1)], of "WaitHead w"] by simp
  with Nil show ?case by (subst krlwlst_allup.simps) (auto simp: as_up_0)
next
  case (Cons t ts)
  have ne: "\<not> list_is_empty_careful (lst s) (WaitHead w)"
    using kl.is_empty [OF sched_relD(1) [OF Cons.prems(1)], of "WaitHead w"] Cons.prems(2) by simp
  obtain s' where s': "krlsched_up w s = Some s'" "sched_rel s' (as_up (td_prity s) w 1 a)" "same_env s s'"
    using krlsched_up_rel [OF Cons.prems] by blast
  have "a_wait (as_up (td_prity s) w 1 a) w = Some ts"
    using Cons.prems(2) by (simp add: as_up_def Let_def)
  from Cons.IH [OF s'(2) this] obtain s'' where s'': "krlwlst_allup w s' = Some s''"
    "sched_rel s'' (as_up (td_prity s') w (length ts) (as_up (td_prity s) w 1 a))" "same_env s' s''"
    by blast
  have "krlwlst_allup w s = Some s''"
    using ne s'(1) s''(1) krlwlst_allup.simps [of w s] by simp
  moreover have "td_prity s' = td_prity s" using s'(3) by (simp add: same_env_def)
  then have "sched_rel s'' (as_up (td_prity s) w (length (t # ts)) a)"
    using s''(2) as_up_Suc [OF Cons.prems(2), of "td_prity s" "length ts"] by simp
  ultimately show ?case using same_env_trans [OF s'(3) s''(3)] by blast
qed

lemma krlschdclass_add_thread_rel:
  assumes r: "sched_rel s a" and t: "t \<in> a_free a" "t \<noteq> 0" "t \<noteq> sda_cpuidle (schdap s)"
    and p: "td_prity s t = p" "p < 64" and run: "runnable (thds s t)"
  shows "\<exists>s'. krlschdclass_add_thread t s = Some s' \<and> sched_rel s' (as_add p t a) \<and> same_env s s' \<and>
    thds s' = thds s \<and> scls_threadnr (osschedcls s') = scls_threadnr (osschedcls s) + 1 \<and>
    sda_threadnr (schdap s') = sda_threadnr (schdap s) + 1"
proof -
  define s' where "s' = the (krlschdclass_add_thread t s)"
  have some: "krlschdclass_add_thread t s = Some s'"
    using p by (simp add: s'_def krlschdclass_add_thread_def Let_def PRITY_MAX_def)
  have s': "lst s' = list_add (lst s) (TdNode t) (RunHead p)" "thds s' = thds s" "wl_tdnr s' = wl_tdnr s"
    "thdlst s' q = (if q = p then (thdlst s p)\<lparr>tdl_nr := tdl_nr (thdlst s p) + 1\<rparr> else thdlst s q)"
    "same_env s s'" "scls_threadnr (osschedcls s') = scls_threadnr (osschedcls s) + 1"
    "sda_threadnr (schdap s') = sda_threadnr (schdap s) + 1" for q
    using p unfolding s'_def
    by (auto simp: krlschdclass_add_thread_def Let_def PRITY_MAX_def same_env_def td_prity_def)
  have pr: "td_prity s' = td_prity s" "sda_cpuidle (schdap s') = sda_cpuidle (schdap s)"
    using s'(5) by (auto simp: same_env_def)
  have nc: "q < 64 \<Longrightarrow> a_cur a q \<noteq> t" for q using cur_facts(1) [OF r] t by blast
  have "contents (as_add p t a) =
      (contents a)(TdNode t := None, RunHead p \<mapsto> TdNode t # map TdNode (a_run a p))"
  proof
    fix n show "contents (as_add p t a) n =
      ((contents a)(TdNode t := None, RunHead p \<mapsto> TdNode t # map TdNode (a_run a p))) n"
      using p t nc by (cases n) (auto simp: as_add_def)
  qed
  moreover have "klists (lst s') ((contents a)(TdNode t := None, RunHead p \<mapsto> TdNode t # map TdNode (a_run a p)))"
    unfolding s'(1) by (rule kl.add [OF sched_relD(1) [OF r]]) (use p t in auto)
  ultimately have "sched_rel s' (as_add p t a)"
    using sched_relD(2-) [OF r] p t run nc
    by (auto simp: sched_rel_def rel_defs as_add_def s'(2-4) pr)
  with some s' show ?thesis by auto
qed

text \<open>The relation reads only the list nodes, counters, current and idle threads, priorities and
  statuses, and a status may go from new to running.\<close>

lemma sched_rel_transfer:
  assumes r: "sched_rel s a"
    and eq: "lst s' = lst s" "wl_tdnr s' = wl_tdnr s" "sda_thdlst (schdap s') = sda_thdlst (schdap s)"
      "sda_cpuidle (schdap s') = sda_cpuidle (schdap s)" "td_prity s' = td_prity s"
    and st: "\<And>t. td_stus (thds s' t) = td_stus (thds s t) \<or>
      td_stus (thds s t) = TDSTUS_NEW \<and> td_stus (thds s' t) = TDSTUS_RUN"
  shows "sched_rel s' a"
proof -
  have run: "runnable (thds s t) \<Longrightarrow> runnable (thds s' t)" for t
    using st [of t] by (auto simp: runnable_def)
  have wt: "td_stus (thds s t) = x \<Longrightarrow> x \<noteq> TDSTUS_NEW \<Longrightarrow> td_stus (thds s' t) = x" for t x
    using st [of t] by auto
  have "ready_ok s' a" using sched_relD(2) [OF r] run by (simp add: ready_ok_def eq)
  moreover have "cur_ok s' a" using sched_relD(3) [OF r] run by (simp add: cur_ok_def eq)
  moreover have "wait_ok s' a"
    using sched_relD(5) [OF r] wt by (fastforce simp: wait_ok_def eq td_consts)
  moreover have "exit_ok s' a"
    using sched_relD(6) [OF r] wt by (fastforce simp: exit_ok_def td_consts)
  ultimately show ?thesis
    using sched_relD [OF r] by (simp add: sched_rel_def nr_ok_def idle_ok_def eq)
qed

lemma to_new_context_sel [simp]:
  "lst (to_new_context next prev s) = lst s" "wl_tdnr (to_new_context next prev s) = wl_tdnr s"
  "sems (to_new_context next prev s) = sems s" "td_prity (to_new_context next prev s) = td_prity s"
  "schdap (to_new_context next prev s) = (schdap s)\<lparr>sda_currtd := next\<rparr>"
  "td_stus (thds (to_new_context next prev s) t) =
     (if t = next \<and> td_stus (thds s t) = TDSTUS_NEW then TDSTUS_RUN else td_stus (thds s t))"
  by (auto simp: to_new_context_def Let_def td_prity_def fun_eq_iff)

lemma save_to_new_context_sel [simp]:
  "lst (save_to_new_context rsp next prev s) = lst s"
  "wl_tdnr (save_to_new_context rsp next prev s) = wl_tdnr s"
  "sems (save_to_new_context rsp next prev s) = sems s"
  "td_prity (save_to_new_context rsp next prev s) = td_prity s"
  "schdap (save_to_new_context rsp next prev s) = (schdap s)\<lparr>sda_currtd := next\<rparr>"
  "td_stus (thds (save_to_new_context rsp next prev s) t) =
     (if t = next \<and> td_stus (thds s t) = TDSTUS_NEW then TDSTUS_RUN else td_stus (thds s t))"
  by (auto simp: save_to_new_context_def td_prity_def fun_eq_iff)

lemma sched_rel_flags [simp]: "sched_rel (upd_schda (\<lambda>d. d\<lparr>sda_schdflgs := v\<rparr>) s) a = sched_rel s a"
  by (simp add: sched_rel_def rel_defs)

text \<open>The thread that \<open>krlschedul\<close> gives the processor to.\<close>

definition chosen :: "sched_t \<Rightarrow> asched \<Rightarrow> adr" where
  "chosen s a = (case fst (as_select a) of None \<Rightarrow> sda_cpuidle (schdap s) | Some t \<Rightarrow> t)"

lemma find_props: "find P ps = Some p \<Longrightarrow> p \<in> set ps \<and> P p"
  by (auto simp: find_Some_iff)

lemma chosen_running:
  assumes r: "sched_rel s a"
  shows "chosen s a \<noteq> 0 \<and> (chosen s a = sda_cpuidle (schdap s) \<or>
    td_prity s (chosen s a) < 64 \<and> a_cur (snd (as_select a)) (td_prity s (chosen s a)) = chosen s a)"
proof (cases "find (\<lambda>p. a_run a p \<noteq> [] \<or> a_cur a p \<noteq> 0) [0..<64]")
  case None
  then show ?thesis
    using sched_relD(7) [OF r] by (simp add: chosen_def as_select_def as_select_in_def idle_ok_def)
next
  case (Some p)
  then have p: "p < 64" "a_run a p \<noteq> [] \<or> a_cur a p \<noteq> 0" using find_props [OF Some] by auto
  show ?thesis
  proof (cases "a_run a p")
    case Nil
    then show ?thesis using p cur_facts(3) [OF r p(1)] Some
      by (simp add: chosen_def as_select_def as_select_in_def)
  next
    case (Cons t ts)
    then show ?thesis using p sched_relD(2) [OF r] Some
      by (simp add: chosen_def as_select_def as_select_in_def ready_ok_def as_rotate_def)
  qed
qed

lemma krlschedul_rel:
  assumes r: "sched_rel s a" and cur: "sda_currtd (schdap s) \<noteq> 0"
    and fl: "sda_schdflgs (schdap s) \<noteq> NEED_START_CPUILDE_SCHED_FLGS"
  shows "\<exists>s'. krlschedul rsp s = Some s' \<and> sched_rel s' (snd (as_select a)) \<and>
    running_ok s' (snd (as_select a)) \<and> sda_currtd (schdap s') = chosen s a \<and>
    sems s' = sems s \<and> td_prity s' = td_prity s \<and> sda_schdflgs (schdap s') = sda_schdflgs (schdap s) \<and>
    sda_cpuidle (schdap s') = sda_cpuidle (schdap s)"
proof -
  have "set [0..<64] \<subseteq> {..<64 :: nat}" by auto
  then obtain s1 where s1: "krlsched_select_thread s = Some (chosen s a, s1)"
    "sched_rel s1 (snd (as_select a))" "same_env s s1" "thds s1 = thds s"
    using select_prity_rel [OF r, of "[0..<64]"]
    by (auto simp: krlsched_select_thread_def PRITY_MAX_def as_select_def chosen_def)
  let ?s = "save_to_new_context rsp (chosen s a) (sda_currtd (schdap s)) s1"
  have "krlschedul rsp s = Some ?s"
    using s1(1) cur fl by (simp add: krlschedul_def krlsched_retn_currthread_def krlsched_retn_schedflgs_def)
  moreover have "sched_rel ?s (snd (as_select a))"
    by (rule sched_rel_transfer [OF s1(2)]) auto
  moreover have "running_ok ?s (snd (as_select a))"
    using chosen_running [OF r] s1(3) by (simp add: running_ok_def same_env_def Let_def)
  ultimately show ?thesis using s1(3) by (simp add: same_env_def)
qed

end
