(* ===== verification/Sched_Props.thy ===== *)
theory Sched_Props
  imports Sched_Spec
begin

text \<open>
  Properties of the scheduler and of the semaphores built on the refinement of
  \<open>Sched_Spec\<close>: the initial state, one call of each operation, every sequence of calls.
\<close>

section \<open>Reading the lists off the state\<close>

text \<open>The threads of a list, by the traversal \<open>list_for_each\<close> of the code.\<close>

definition td_of :: "node \<Rightarrow> adr" where
  "td_of n = (case list_entry n of Some t \<Rightarrow> t | None \<Rightarrow> 0)"

definition threads_on :: "sched_t \<Rightarrow> node \<Rightarrow> adr list option" where
  "threads_on s n = map_option (map td_of) (list_for_each (lst s) n)"

lemma td_of_TdNode [simp]: "td_of (TdNode t) = t" "map (td_of \<circ> TdNode) ts = ts"
  by (simp_all add: td_of_def comp_def)

lemma threads_on_rel:
  assumes "sched_rel s a"
  shows "p < 64 \<Longrightarrow> threads_on s (RunHead p) = Some (a_run a p)"
    and "threads_on s ExitHead = Some (a_exit a)"
    and "a_wait a w = Some ts \<Longrightarrow> threads_on s (WaitHead w) = Some ts"
  using kl.for_each [OF sched_relD(1) [OF assms]] by (simp_all add: threads_on_def)

section \<open>The initial state\<close>

definition as_init :: "adr \<Rightarrow> asched" where
  "as_init idle = \<lparr>a_run = (\<lambda>p. []), a_cur = (\<lambda>p. 0), a_wait = (\<lambda>w. None), a_exit = [], a_free = {idle}\<rparr>"

lemma klists_empty: "klists h Map.empty"
  by (simp add: klists_def)

text \<open>The first \<open>n\<close> run queues are empty lists, nothing else is a list yet.\<close>

definition heads :: "nat \<Rightarrow> node \<Rightarrow> node list option" where
  "heads n k = (case k of RunHead p \<Rightarrow> if p < n then Some [] else None | _ \<Rightarrow> None)"

lemma heads_simps:
  "heads 0 = Map.empty" "heads (Suc n) = (heads n)(RunHead n \<mapsto> [])"
  "heads n (RunHead p) = (if p < n then Some [] else None)" "heads n ExitHead = None"
  "heads n (TdNode t) = None" "heads n (WaitHead w) = None" "heads n k = Some ys \<Longrightarrow> ys = []"
  by (auto simp: heads_def fun_eq_iff split: node.splits if_splits)

lemma klists_init_heads:
  "klists (fold (\<lambda>ti h. list_init h (RunHead ti)) [0..<n] h) (heads n)"
proof (induction n)
  case 0
  then show ?case by (simp add: klists_empty heads_simps(1))
next
  case (Suc n)
  have "klists (list_init (fold (\<lambda>ti h. list_init h (RunHead ti)) [0..<n] h) (RunHead n))
      ((heads n)(RunHead n \<mapsto> []))"
    by (rule klists_init [OF Suc]) (auto simp: heads_simps dest: heads_simps(7) split: if_splits)
  then show ?case by (simp add: heads_simps(2) fun_upd_def)
qed

text \<open>What \<open>new_cpuidle_thread\<close> does to the scheduler: a fresh descriptor, its list node
  initialised, becomes the idle and the current thread.\<close>

definition set_cpuidle :: "adr \<Rightarrow> sched_t \<Rightarrow> sched_t" where
  "set_cpuidle t s = upd_schda (\<lambda>d. d\<lparr>sda_cpuidle := t, sda_currtd := t\<rparr>)
     (upd_lst (\<lambda>h. list_init h (TdNode t)) s)"

lemma init_krlsched_rel:
  assumes "t \<noteq> 0"
  shows "sched_rel (set_cpuidle t (init_krlsched s)) (as_init t)"
    and "running_ok (set_cpuidle t (init_krlsched s)) (as_init t)"
proof -
  have "klists (fold (\<lambda>ti h. list_init h (RunHead ti)) [0..<64] (lst s)) (heads 64)"
    by (rule klists_init_heads)
  then have "klists (list_init (fold (\<lambda>ti h. list_init h (RunHead ti)) [0..<64] (lst s)) ExitHead)
      ((heads 64)(ExitHead \<mapsto> []))"
    by (rule klists_init) (auto simp: heads_simps dest: heads_simps(7))
  then have "klists (lst (set_cpuidle t (init_krlsched s))) ((heads 64)(ExitHead \<mapsto> [], TdNode t \<mapsto> []))"
    unfolding set_cpuidle_def init_krlsched_def schedclass_t_init_def
    by simp (erule klists_init, auto simp: heads_simps dest: heads_simps(7) split: if_splits)
  moreover have "contents (as_init t) = (heads 64)(ExitHead \<mapsto> [], TdNode t \<mapsto> [])"
  proof
    fix k show "contents (as_init t) k = ((heads 64)(ExitHead \<mapsto> [], TdNode t \<mapsto> [])) k"
      by (cases k) (auto simp: as_init_def heads_simps)
  qed
  ultimately show "sched_rel (set_cpuidle t (init_krlsched s)) (as_init t)"
    using assms by (simp add: sched_rel_def rel_defs as_init_def set_cpuidle_def init_krlsched_def
        schedclass_t_init_def schdata_t_init_def thrdlst_t_init_def)
  show "running_ok (set_cpuidle t (init_krlsched s)) (as_init t)"
    using assms by (simp add: running_ok_def set_cpuidle_def init_krlsched_def
        schedclass_t_init_def schdata_t_init_def)
qed

section \<open>Semaphores\<close>

lemma sched_rel_sems [simp]: "sched_rel (s\<lparr>sems := v\<rparr>) a = sched_rel s a"
  by (simp add: sched_rel_def rel_defs td_prity_def)

lemma running_ok_sems [simp]: "running_ok (s\<lparr>sems := v\<rparr>) a = running_ok s a"
  by (simp add: running_ok_def td_prity_def)

lemma running_ok_flags [simp]: "running_ok (upd_schda (\<lambda>d. d\<lparr>sda_schdflgs := v\<rparr>) s) a = running_ok s a"
  by (simp add: running_ok_def)

lemma running_ok_same_env:
  "same_env s s' \<Longrightarrow> a_cur a' = a_cur a \<Longrightarrow> running_ok s' a' = running_ok s a"
  by (simp add: running_ok_def same_env_def)

text \<open>An up adds one, wakes every waiter in order and asks for a reschedule.\<close>

lemma krlsem_up_rel:
  assumes r: "sched_rel s a" and w: "a_wait a sem = Some ts" and n: "0 \<le> sem_count (sems s sem)"
  shows "\<exists>s'. krlsem_up sem s = Some s' \<and> sched_rel s' (as_up (td_prity s) sem (length ts) a) \<and>
    sems s' = (sems s)(sem := (sems s sem)\<lparr>sem_count := sem_count (sems s sem) + 1\<rparr>) \<and>
    sda_currtd (schdap s') = sda_currtd (schdap s) \<and> sda_cpuidle (schdap s') = sda_cpuidle (schdap s) \<and>
    td_prity s' = td_prity s \<and> sda_schdflgs (schdap s') = NEED_SCHED_FLGS"
proof -
  let ?s = "s\<lparr>sems := (sems s)(sem := (sems s sem)\<lparr>sem_count := sem_count (sems s sem) + 1\<rparr>)\<rparr>"
  have "sched_rel ?s a" using r by simp
  from krlwlst_allup_rel [OF this w] obtain s1 where s1: "krlwlst_allup sem ?s = Some s1"
    "sched_rel s1 (as_up (td_prity ?s) sem (length ts) a)" "same_env ?s s1" by blast
  have "td_prity ?s = td_prity s" by (simp add: td_prity_def fun_eq_iff)
  moreover have "krlsem_up sem s = Some (krlsched_set_schedflgs s1)"
    using n s1(1) by (simp add: krlsem_up_def Let_def)
  ultimately show ?thesis
    using s1(2,3) by (simp add: krlsched_set_schedflgs_def same_env_def)
qed

text \<open>A down with no unit left puts the current thread on the wait list and runs another one.\<close>

lemma krlsem_down_blocks:
  assumes r: "sched_rel s a" and run: "running_ok s a" and ni: "sda_currtd (schdap s) \<noteq> sda_cpuidle (schdap s)"
    and w: "a_wait a sem = Some ts" and n: "sem_count (sems s sem) < 1"
    and fl: "sda_schdflgs (schdap s) \<noteq> NEED_START_CPUILDE_SCHED_FLGS"
  defines "p \<equiv> td_prity s (sda_currtd (schdap s))"
  defines "a' \<equiv> snd (as_select (as_wait sem p a))"
  shows "\<exists>s'. krlsem_down_pass rsp sem s = Some (Inl s') \<and> sched_rel s' a' \<and> running_ok s' a' \<and>
    sems s' = sems s \<and> td_prity s' = td_prity s \<and> sda_schdflgs (schdap s') = sda_schdflgs (schdap s) \<and>
    sda_cpuidle (schdap s') = sda_cpuidle (schdap s)"
proof -
  have p: "p < 64" "a_cur a p = sda_currtd (schdap s)" "a_cur a p \<noteq> 0"
    using run ni by (auto simp: running_ok_def Let_def p_def)
  from krlsched_wait_rel [OF r p(1,3) p(2) [symmetric] w] obtain s1 where
    s1: "krlsched_wait sem s = Some s1" "sched_rel s1 (as_wait sem p a)" "same_env s s1" by blast
  have "sda_currtd (schdap s1) \<noteq> 0" "sda_schdflgs (schdap s1) \<noteq> NEED_START_CPUILDE_SCHED_FLGS"
    using s1(3) p fl by (auto simp: same_env_def)
  from krlschedul_rel [OF s1(2) this, of rsp] s1 n show ?thesis
    by (auto simp: krlsem_down_pass_def krlwlst_wait_def a'_def same_env_def)
qed

text \<open>The lists of the abstract operations.\<close>

lemma as_select_wait [simp]: "a_wait (snd (as_select a)) = a_wait a"
  "a_exit (snd (as_select a)) = a_exit a" "a_free (snd (as_select a)) = a_free a"
  by (auto simp: as_select_def as_select_in_def as_rotate_def split: option.splits)

lemma as_ops_wait [simp]:
  "a_wait (as_wait w p a) = (a_wait a)(w \<mapsto> a_cur a p # the (a_wait a w))"
  "a_wait (as_exit p a) = a_wait a" "a_wait (as_add p t a) = a_wait a"
  "a_wait (as_up pr w n a) = (a_wait a)(w \<mapsto> drop n (the (a_wait a w)))"
  "a_cur (as_up pr w n a) = a_cur a" "a_cur (as_add p t a) = a_cur a"
  by (simp_all add: as_wait_def as_exit_def as_add_def as_up_def Let_def)

section \<open>No thread is lost\<close>

text \<open>The threads that still have to run: ready, current or waiting.\<close>

definition ready :: "asched \<Rightarrow> adr set" where
  "ready a = {t. t \<noteq> 0 \<and> (\<exists>p < 64. t \<in> set (a_run a p) \<or> t = a_cur a p)}"

definition live :: "asched \<Rightarrow> adr set" where
  "live a = ready a \<union> (\<Union>ts \<in> ran (a_wait a). set ts)"

lemma as_rotate_ready:
  assumes "a_run a p \<noteq> []"
  shows "ready (as_rotate p a) = ready a"
proof -
  obtain t ts where "a_run a p = t # ts" using assms by (cases "a_run a p") auto
  then show ?thesis by (auto simp: ready_def as_rotate_def split: if_splits)
qed

lemma as_select_live: "live (snd (as_select a)) = live a"
proof -
  have "ready (snd (as_select a)) = ready a"
    by (auto simp: as_select_def as_select_in_def as_rotate_ready split: option.splits)
  then show ?thesis by (simp add: live_def)
qed

lemma ran_upd: "ran (m(w \<mapsto> x)) = insert x {y. \<exists>v. v \<noteq> w \<and> m v = Some y}"
  by (auto simp: ran_def)

lemma ran_split:
  assumes "m w = Some y"
  shows "ran m = insert y {y. \<exists>v. v \<noteq> w \<and> m v = Some y}"
  using assms ran_upd [of m w y] by (simp add: fun_upd_idem)

lemma as_wait_live:
  assumes r: "sched_rel s a" and p: "p < 64" "a_cur a p \<noteq> 0" and w: "a_wait a w = Some ts"
  shows "live (as_wait w p a) = live a"
proof -
  have "ready a = insert (a_cur a p) (ready (as_wait w p a))"
    using p by (auto simp: ready_def as_wait_def split: if_splits)
  then show ?thesis using w by (auto simp: live_def ran_upd ran_split [of "a_wait a", OF w])
qed

lemma as_up_live:
  assumes r: "sched_rel s a" and w: "a_wait a w = Some ts"
  shows "live (as_up (td_prity s) w (length ts) a) = live a"
proof -
  have ts: "t \<in> set ts \<Longrightarrow> t \<noteq> 0 \<and> td_prity s t < 64" for t
    using sched_relD(5) [OF r] w by (auto simp: wait_ok_def)
  have "ready (as_up (td_prity s) w (length ts) a) = ready a \<union> set ts"
    using w ts by (auto simp: ready_def as_up_def Let_def)
  then show ?thesis using w by (auto simp: live_def ran_upd ran_split [of "a_wait a", OF w])
qed

lemma as_exit_live:
  assumes r: "sched_rel s a" and p: "p < 64" "a_cur a p \<noteq> 0"
  shows "live (as_exit p a) = live a - {a_cur a p}"
proof -
  have "t \<in> ready (as_exit p a) \<longleftrightarrow> t \<in> ready a - {a_cur a p}" for t
  proof (cases "t = a_cur a p")
    case True
    then show ?thesis
      using cur_elsewhere(1) [OF r p] cur_unique [OF r p(1) _ p(2)]
      by (simp add: ready_def as_exit_def) metis
  next
    case False
    then show ?thesis by (simp add: ready_def as_exit_def) metis
  qed
  then have "ready (as_exit p a) = ready a - {a_cur a p}" by blast
  moreover have "\<forall>ts \<in> ran (a_wait a). a_cur a p \<notin> set ts"
    using cur_elsewhere(2) [OF r p] by (auto simp: ran_def)
  ultimately show ?thesis by (auto simp: live_def)
qed

lemma as_add_live: "p < 64 \<Longrightarrow> t \<noteq> 0 \<Longrightarrow> live (as_add p t a) = insert t (live a)"
  by (auto simp: live_def ready_def as_add_def split: if_splits)

lemma live_not_free:
  assumes r: "sched_rel s a"
  shows "live a \<inter> a_free a = {}"
proof -
  have det: "t \<in> a_free a \<Longrightarrow> contents a (TdNode t) = Some []" for t by simp
  have run: "t \<notin> a_free a" if "p < 64" "t \<in> set (a_run a p)" for p t
    using member_not_detached [OF r, of "RunHead p" "a_run a p" t] that det [of t] by fastforce
  have "t \<notin> a_free a" if "t \<in> ready a" for t
    using that run cur_facts(1) [OF r] by (auto simp: ready_def)
  moreover have "t \<notin> a_free a" if "ts \<in> ran (a_wait a)" "t \<in> set ts" for t ts
    using that wait_not_running(1) [OF r] by (auto simp: ran_def)
  ultimately show ?thesis by (auto simp: live_def)
qed

end
