(* ===== verification/Sched_Run.thy ===== *)
theory Sched_Run
  imports Sched_Props
begin

text \<open>
  Every sequence of scheduling calls: a step relation whose steps are whole calls of the code
  (each runs with interrupts off up to the switch), from the state after boot, and the
  invariant that every reachable state satisfies. Counters of the completed downs and ups
  and the sets of started and of ever used threads are carried along to state what is
  conserved; no step depends on them except that a new descriptor was not used before.
\<close>

section \<open>Steps\<close>

record kstate =
  ks :: sched_t
  k_ups :: "adr \<Rightarrow> nat"
  k_downs :: "adr \<Rightarrow> nat"
  k_live :: "adr set"
  k_seen :: "adr set"

abbreviation curr :: "kstate \<Rightarrow> adr" where
  "curr k \<equiv> sda_currtd (schdap (ks k))"

abbreviation idle :: "kstate \<Rightarrow> adr" where
  "idle k \<equiv> sda_cpuidle (schdap (ks k))"

text \<open>A fresh descriptor: its list node is initialised (\<open>thread_t_init\<close>).\<close>

definition put_thread :: "adr \<Rightarrow> thread_t \<Rightarrow> sched_t \<Rightarrow> sched_t" where
  "put_thread t td s = upd_lst (\<lambda>h. list_init h (TdNode t)) (upd_td t (\<lambda>_. td) s)"

inductive kstep :: "adr set \<Rightarrow> kstate \<Rightarrow> kstate \<Rightarrow> bool" for S where
  sem_down: "sem \<in> S \<Longrightarrow> curr k \<noteq> idle k \<Longrightarrow> krlsem_down_pass rsp sem (ks k) = Some (Inr s') \<Longrightarrow>
    kstep S k (k\<lparr>ks := s', k_downs := (k_downs k)(sem := Suc (k_downs k sem))\<rparr>)"
| sem_block: "sem \<in> S \<Longrightarrow> curr k \<noteq> idle k \<Longrightarrow> krlsem_down_pass rsp sem (ks k) = Some (Inl s') \<Longrightarrow>
    kstep S k (k\<lparr>ks := s'\<rparr>)"
| sem_up: "sem \<in> S \<Longrightarrow> krlsem_up sem (ks k) = Some s' \<Longrightarrow>
    kstep S k (k\<lparr>ks := s', k_ups := (k_ups k)(sem := Suc (k_ups k sem))\<rparr>)"
| tick: "kstep S k (k\<lparr>ks := krlthd_inc_tick (curr k) (ks k)\<rparr>)"
| preempt: "krlsched_chkneed_pmptsched rsp (ks k) = Some s' \<Longrightarrow> kstep S k (k\<lparr>ks := s'\<rparr>)"
| yield: "krlschedul rsp (ks k) = Some s' \<Longrightarrow> kstep S k (k\<lparr>ks := s'\<rparr>)"
| exit: "curr k \<noteq> idle k \<Longrightarrow> krlsched_exit (ks k) = Some s1 \<Longrightarrow> krlschedul rsp s1 = Some s' \<Longrightarrow>
    kstep S k (k\<lparr>ks := s', k_live := k_live k - {curr k}\<rparr>)"
| start: "t \<noteq> 0 \<Longrightarrow> t \<notin> k_seen k \<Longrightarrow> td_stus td = TDSTUS_NEW \<Longrightarrow> td_priority td < PRITY_MAX \<Longrightarrow>
    krlschdclass_add_thread t (put_thread t td (ks k)) = Some s' \<Longrightarrow>
    kstep S k (k\<lparr>ks := s', k_live := insert t (k_live k), k_seen := insert t (k_seen k)\<rparr>)"

text \<open>After boot: the scheduler initialised, the idle thread current, and the semaphores
  \<open>ss\<close> set up with their first counts.\<close>

definition boot_sem :: "adr \<times> nat \<Rightarrow> sched_t \<Rightarrow> sched_t" where
  "boot_sem x s = krlsem_set_sem (fst x) 0 (int (snd x)) (krlsem_t_init (fst x) s)"

definition boot :: "(adr \<times> nat) list \<Rightarrow> adr \<Rightarrow> sched_t \<Rightarrow> sched_t" where
  "boot ss t s = fold boot_sem ss (set_cpuidle t (init_krlsched s))"

definition kboot :: "(adr \<times> nat) list \<Rightarrow> kstate \<Rightarrow> bool" where
  "kboot ss k \<longleftrightarrow> (\<exists>t s. t \<noteq> 0 \<and> ks k = boot ss t s \<and> k_ups k = (\<lambda>_. 0) \<and> k_downs k = (\<lambda>_. 0) \<and>
     k_live k = {} \<and> k_seen k = {t})"

section \<open>The invariant\<close>

definition sem_inv :: "nat \<Rightarrow> nat \<Rightarrow> nat \<Rightarrow> int \<Rightarrow> adr list option \<Rightarrow> bool" where
  "sem_inv n ups downs count ws \<longleftrightarrow> count = int n + int ups - int downs \<and> 0 \<le> count \<and>
     (count < 1 \<or> ws = Some [])"

definition sem_ok :: "(adr \<rightharpoonup> nat) \<Rightarrow> kstate \<Rightarrow> asched \<Rightarrow> bool" where
  "sem_ok c k a \<longleftrightarrow> dom (a_wait a) = dom c \<and> (\<forall>sem n. c sem = Some n \<longrightarrow>
     sem_inv n (k_ups k sem) (k_downs k sem) (sem_count (sems (ks k) sem)) (a_wait a sem))"

text \<open>A step that concerns one semaphore.\<close>

lemma sem_ok_one:
  assumes "sem_ok c k a" and "c sem = Some n" and "dom (a_wait a') = dom (a_wait a)"
    and "\<And>m. m \<noteq> sem \<Longrightarrow> k_ups k' m = k_ups k m \<and> k_downs k' m = k_downs k m \<and>
      sems (ks k') m = sems (ks k) m \<and> a_wait a' m = a_wait a m"
    and "sem_inv n (k_ups k sem) (k_downs k sem) (sem_count (sems (ks k) sem)) (a_wait a sem) \<Longrightarrow>
      sem_inv n (k_ups k' sem) (k_downs k' sem) (sem_count (sems (ks k') sem)) (a_wait a' sem)"
  shows "sem_ok c k' a'"
  unfolding sem_ok_def
proof (intro conjI allI impI)
  show "dom (a_wait a') = dom c" using assms(1,3) by (simp add: sem_ok_def)
  fix m i assume m: "c m = Some i"
  then have "sem_inv i (k_ups k m) (k_downs k m) (sem_count (sems (ks k) m)) (a_wait a m)"
    using assms(1) by (simp add: sem_ok_def)
  then show "sem_inv i (k_ups k' m) (k_downs k' m) (sem_count (sems (ks k') m)) (a_wait a' m)"
    using m assms(2,4,5) by (cases "m = sem") auto
qed

definition kinv_with :: "(adr \<rightharpoonup> nat) \<Rightarrow> kstate \<Rightarrow> asched \<Rightarrow> bool" where
  "kinv_with c k a \<longleftrightarrow> sched_rel (ks k) a \<and> running_ok (ks k) a \<and>
     sda_schdflgs (schdap (ks k)) \<noteq> NEED_START_CPUILDE_SCHED_FLGS \<and> live a = k_live k \<and>
     k_live k \<union> a_free a \<union> set (a_exit a) \<subseteq> k_seen k \<and> sem_ok c k a"

definition kinv :: "(adr \<rightharpoonup> nat) \<Rightarrow> kstate \<Rightarrow> bool" where
  "kinv c k \<longleftrightarrow> (\<exists>a. kinv_with c k a)"

lemma kinvD:
  assumes "kinv_with c k a"
  shows "sched_rel (ks k) a" "running_ok (ks k) a"
    "sda_schdflgs (schdap (ks k)) \<noteq> NEED_START_CPUILDE_SCHED_FLGS" "live a = k_live k"
    "k_live k \<union> a_free a \<union> set (a_exit a) \<subseteq> k_seen k" "sem_ok c k a"
  using assms by (simp_all add: kinv_with_def)

lemma sem_waitlist:
  assumes "kinv_with c k a" and "sem \<in> dom c"
  obtains n ts where "c sem = Some n" and "a_wait a sem = Some ts"
    and "0 \<le> sem_count (sems (ks k) sem)" and "sem_count (sems (ks k) sem) < 1 \<or> ts = []"
proof -
  obtain n where n: "c sem = Some n" using assms(2) by auto
  have "sem \<in> dom (a_wait a)" using kinvD(6) [OF assms(1)] assms(2) by (simp add: sem_ok_def)
  then obtain ts where ts: "a_wait a sem = Some ts" by auto
  have "sem_inv n (k_ups k sem) (k_downs k sem) (sem_count (sems (ks k) sem)) (a_wait a sem)"
    using kinvD(6) [OF assms(1)] n by (simp add: sem_ok_def)
  then have "0 \<le> sem_count (sems (ks k) sem)" "sem_count (sems (ks k) sem) < 1 \<or> ts = []"
    using ts unfolding sem_inv_def by auto
  then show thesis by (rule that [OF n ts])
qed

lemma running_curr:
  assumes "kinv_with c k a" and "curr k \<noteq> idle k"
  shows "td_prity (ks k) (curr k) < 64" "a_cur a (td_prity (ks k) (curr k)) = curr k" "curr k \<noteq> 0"
  using kinvD(2) [OF assms(1)] assms(2) by (auto simp: running_ok_def Let_def)

subsection \<open>Each step keeps it\<close>

lemma as_sel [simp]:
  "a_free (as_wait w p a) = a_free a" "a_exit (as_wait w p a) = a_exit a"
  "a_free (as_up pr w n a) = a_free a" "a_exit (as_up pr w n a) = a_exit a"
  "a_free (as_exit p a) = a_free a" "a_exit (as_exit p a) = a_cur a p # a_exit a"
  "a_free (as_add p t a) = a_free a - {t}" "a_exit (as_add p t a) = a_exit a"
  by (simp_all add: as_wait_def as_up_def as_exit_def as_add_def Let_def)

lemma kinv_down:
  assumes k: "kinv_with c k a" and sem: "sem \<in> dom c"
    and d: "krlsem_down_pass rsp sem (ks k) = Some (Inr s')"
  shows "kinv_with c (k\<lparr>ks := s', k_downs := (k_downs k)(sem := Suc (k_downs k sem))\<rparr>) a"
proof -
  have n: "\<not> sem_count (sems (ks k) sem) < 1"
    using d by (auto simp: krlsem_down_pass_def bind_eq_Some_conv split: if_splits)
  then have s': "s' = (ks k)\<lparr>sems := (sems (ks k))(sem := (sems (ks k) sem)\<lparr>sem_count := sem_count (sems (ks k) sem) - 1\<rparr>)\<rparr>"
    using d by (simp add: krlsem_down_pass_def)
  moreover obtain i ts where i: "c sem = Some i" by (rule sem_waitlist [OF k sem])
  ultimately have "sem_ok c (k\<lparr>ks := s', k_downs := (k_downs k)(sem := Suc (k_downs k sem))\<rparr>) a"
    using n by (intro sem_ok_one [OF kinvD(6) [OF k] i]) (auto simp: sem_inv_def)
  with s' kinvD [OF k] show ?thesis by (simp add: kinv_with_def)
qed

lemma kinv_block:
  assumes k: "kinv_with c k a" and sem: "sem \<in> dom c" and ni: "curr k \<noteq> idle k"
    and d: "krlsem_down_pass rsp sem (ks k) = Some (Inl s')"
  shows "kinv c (k\<lparr>ks := s'\<rparr>)"
proof -
  obtain n ts where ts: "c sem = Some n" "a_wait a sem = Some ts" by (rule sem_waitlist [OF k sem])
  note cur = running_curr [OF k ni]
  let ?p = "td_prity (ks k) (curr k)"
  have n: "sem_count (sems (ks k) sem) < 1"
    using d by (auto simp: krlsem_down_pass_def split: if_splits)
  from krlsem_down_blocks [OF kinvD(1,2) [OF k] ni ts(2) n kinvD(3) [OF k], of rsp] d
  have "sched_rel s' (snd (as_select (as_wait sem ?p a)))" "running_ok s' (snd (as_select (as_wait sem ?p a)))"
    "sems s' = sems (ks k)" "sda_schdflgs (schdap s') = sda_schdflgs (schdap (ks k))" by auto
  moreover have "live (snd (as_select (as_wait sem ?p a))) = k_live k"
    using as_select_live as_wait_live [OF kinvD(1) [OF k] cur(1) _ ts(2)] cur kinvD(4) [OF k] by simp
  moreover have "sem_ok c (k\<lparr>ks := s'\<rparr>) (snd (as_select (as_wait sem ?p a)))"
    by (rule sem_ok_one [OF kinvD(6) [OF k] ts(1)]) (use ts n calculation(3) in \<open>auto simp: sem_inv_def\<close>)
  ultimately have "kinv_with c (k\<lparr>ks := s'\<rparr>) (snd (as_select (as_wait sem ?p a)))"
    using kinvD(3,5) [OF k] by (simp add: kinv_with_def)
  then show ?thesis by (auto simp: kinv_def)
qed

lemma kinv_up:
  assumes k: "kinv_with c k a" and sem: "sem \<in> dom c" and u: "krlsem_up sem (ks k) = Some s'"
  shows "kinv c (k\<lparr>ks := s', k_ups := (k_ups k)(sem := Suc (k_ups k sem))\<rparr>)"
proof -
  obtain n ts where ts: "c sem = Some n" "a_wait a sem = Some ts" "0 \<le> sem_count (sems (ks k) sem)"
    by (rule sem_waitlist [OF k sem])
  let ?a = "as_up (td_prity (ks k)) sem (length ts) a"
  let ?k = "k\<lparr>ks := s', k_ups := (k_ups k)(sem := Suc (k_ups k sem))\<rparr>"
  from krlsem_up_rel [OF kinvD(1) [OF k] ts(2,3)] u
  have s': "sched_rel s' ?a" "sda_currtd (schdap s') = curr k" "sda_cpuidle (schdap s') = idle k"
    "td_prity s' = td_prity (ks k)" "sda_schdflgs (schdap s') = NEED_SCHED_FLGS"
    "sems s' = (sems (ks k))(sem := (sems (ks k) sem)\<lparr>sem_count := sem_count (sems (ks k) sem) + 1\<rparr>)"
    by auto
  have "running_ok s' ?a" using kinvD(2) [OF k] s' by (simp add: running_ok_def)
  moreover have "sem_ok c ?k ?a"
    by (rule sem_ok_one [OF kinvD(6) [OF k] ts(1)]) (use ts s'(6) in \<open>auto simp: sem_inv_def\<close>)
  ultimately have "kinv_with c ?k ?a"
    using s' kinvD(4,5) [OF k] as_up_live [OF kinvD(1) [OF k] ts(2)]
    by (simp add: kinv_with_def sched_consts)
  then show ?thesis by (auto simp: kinv_def)
qed

text \<open>Steps that change neither the semaphores nor the set of live threads.\<close>

lemma kinv_sched:
  assumes k: "kinv_with c k a" and "sched_rel s' a'" and "running_ok s' a'"
    and "sda_schdflgs (schdap s') \<noteq> NEED_START_CPUILDE_SCHED_FLGS" and "sems s' = sems (ks k)"
    and "live a' = k_live k" and "a_wait a' = a_wait a" and "a_free a' = a_free a" and "a_exit a' = a_exit a"
  shows "kinv c (k\<lparr>ks := s'\<rparr>)"
proof -
  have "kinv_with c (k\<lparr>ks := s'\<rparr>) a'"
    using assms kinvD [OF k] by (simp add: kinv_with_def sem_ok_def)
  then show ?thesis by (auto simp: kinv_def)
qed

lemma curr_nonnull: "kinv_with c k a \<Longrightarrow> curr k \<noteq> 0"
  using kinvD(2) [of c k a] by (auto simp: running_ok_def Let_def)

lemma kinv_yield:
  assumes k: "kinv_with c k a" and y: "krlschedul rsp (ks k) = Some s'"
  shows "kinv c (k\<lparr>ks := s'\<rparr>)"
proof (rule kinv_sched [OF k])
  from krlschedul_rel [OF kinvD(1) [OF k] curr_nonnull [OF k] kinvD(3) [OF k], of rsp] y
  show "sched_rel s' (snd (as_select a))" "running_ok s' (snd (as_select a))" "sems s' = sems (ks k)"
    "sda_schdflgs (schdap s') \<noteq> NEED_START_CPUILDE_SCHED_FLGS"
    using kinvD(3) [OF k] by auto
qed (use kinvD(4) [OF k] in \<open>simp_all add: as_select_live\<close>)

lemma kinv_flags:
  assumes k: "kinv_with c k a" and "v \<noteq> NEED_START_CPUILDE_SCHED_FLGS"
  shows "kinv_with c (k\<lparr>ks := upd_schda (\<lambda>d. d\<lparr>sda_schdflgs := v\<rparr>) (ks k)\<rparr>) a"
  using kinvD [OF k] assms(2) by (simp add: kinv_with_def sem_ok_def)

lemma kinv_preempt:
  assumes k: "kinv_with c k a" and y: "krlsched_chkneed_pmptsched rsp (ks k) = Some s'"
  shows "kinv c (k\<lparr>ks := s'\<rparr>)"
proof (cases "sda_schdflgs (schdap (ks k)) = NEED_SCHED_FLGS \<and> sda_premptidx (schdap (ks k)) = PMPT_FLGS")
  case True
  let ?k = "k\<lparr>ks := upd_schda (\<lambda>d. d\<lparr>sda_schdflgs := NOTS_SCHED_FLGS\<rparr>) (ks k)\<rparr>"
  have "kinv_with c ?k a" by (rule kinv_flags [OF k]) (simp add: sched_consts)
  moreover have "krlschedul rsp (ks ?k) = Some s'"
    using y True by (simp add: krlsched_chkneed_pmptsched_def Let_def)
  ultimately have "kinv c (?k\<lparr>ks := s'\<rparr>)" by (rule kinv_yield)
  then show ?thesis by simp
next
  case False
  then have "s' = ks k" using y kinvD(3) [OF k] by (auto simp: krlsched_chkneed_pmptsched_def Let_def)
  then show ?thesis using k by (auto simp: kinv_def)
qed

lemma kinv_tick:
  assumes k: "kinv_with c k a"
  shows "kinv c (k\<lparr>ks := krlthd_inc_tick t (ks k)\<rparr>)"
proof (rule kinv_sched [OF k])
  let ?s = "krlthd_inc_tick t (ks k)"
  note d = krlthd_inc_tick_def krlsched_set_schedflgs_def Let_def
  show "sched_rel ?s a"
    by (rule sched_rel_transfer [OF kinvD(1) [OF k]]) (auto simp: d td_prity_def fun_eq_iff)
  have "td_prity ?s = td_prity (ks k)" by (simp add: d td_prity_def fun_eq_iff)
  then show "running_ok ?s a" using kinvD(2) [OF k] by (simp add: running_ok_def d)
qed (use kinvD(3,4) [OF k] in \<open>auto simp: krlthd_inc_tick_def krlsched_set_schedflgs_def Let_def sched_consts\<close>)

lemma kinv_exit:
  assumes k: "kinv_with c k a" and ni: "curr k \<noteq> idle k" and e: "krlsched_exit (ks k) = Some s1"
    and y: "krlschedul rsp s1 = Some s'"
  shows "kinv c (k\<lparr>ks := s', k_live := k_live k - {curr k}\<rparr>)"
proof -
  note cur = running_curr [OF k ni]
  let ?p = "td_prity (ks k) (curr k)"
  have c0: "a_cur a ?p \<noteq> 0" using cur by simp
  let ?a = "snd (as_select (as_exit ?p a))"
  from krlsched_exit_rel [OF kinvD(1) [OF k] cur(1) c0 cur(2) [symmetric]] e
  have s1: "sched_rel s1 (as_exit ?p a)" "same_env (ks k) s1" by auto
  then have "sda_currtd (schdap s1) \<noteq> 0" "sda_schdflgs (schdap s1) \<noteq> NEED_START_CPUILDE_SCHED_FLGS"
    using cur(3) kinvD(3) [OF k] by (auto simp: same_env_def)
  from krlschedul_rel [OF s1(1) this, of rsp] y s1(2) kinvD(3) [OF k]
  have s': "sched_rel s' ?a" "running_ok s' ?a" "sems s' = sems (ks k)"
    "sda_schdflgs (schdap s') \<noteq> NEED_START_CPUILDE_SCHED_FLGS" by (auto simp: same_env_def)
  have "live ?a = k_live k - {curr k}"
    using as_select_live as_exit_live [OF kinvD(1) [OF k] cur(1) c0] kinvD(4) [OF k] cur(2) by simp
  moreover have "curr k \<in> ready a" using cur unfolding ready_def by fastforce
  then have "curr k \<in> k_live k" using kinvD(4) [OF k] by (auto simp: live_def)
  ultimately have "kinv_with c (k\<lparr>ks := s', k_live := k_live k - {curr k}\<rparr>) ?a"
    using s' kinvD(5,6) [OF k] cur(2) by (auto simp: kinv_with_def sem_ok_def)
  then show ?thesis by (auto simp: kinv_def)
qed

text \<open>A descriptor that was not used before is on no list.\<close>

lemma fresh_node:
  assumes k: "kinv_with c k a" and t: "t \<noteq> 0" "t \<notin> k_seen k" and n: "contents a n = Some ys"
  shows "TdNode t \<notin> set (n # ys)"
proof -
  have out: "t \<notin> live a" "t \<notin> a_free a" "t \<notin> set (a_exit a)"
    using kinvD(4,5) [OF k] t(2) by auto
  then have "t \<notin> set (a_run a p)" "t \<noteq> a_cur a p" if "p < 64" for p
    using that t(1) by (auto simp: live_def ready_def)
  moreover have "t \<notin> set ts" if "a_wait a w = Some ts" for w ts
    using that out(1) by (auto simp: live_def ran_def)
  ultimately show ?thesis using n out(2,3) t(1) by (cases n) (auto split: if_splits)
qed

lemma put_thread_rel:
  assumes k: "kinv_with c k a" and t: "t \<noteq> 0" "t \<notin> k_seen k"
  shows "sched_rel (put_thread t td (ks k)) (a\<lparr>a_free := insert t (a_free a)\<rparr>)" (is "sched_rel ?s ?a")
proof -
  note r = kinvD(1) [OF k]
  have cont: "contents ?a = (contents a)(TdNode t \<mapsto> [])"
  proof
    fix n show "contents ?a n = ((contents a)(TdNode t \<mapsto> [])) n" by (cases n) auto
  qed
  have th: "u \<noteq> t \<Longrightarrow> thds ?s u = thds (ks k) u" "u \<noteq> t \<Longrightarrow> td_prity ?s u = td_prity (ks k) u" for u
    by (auto simp: put_thread_def td_prity_def)
  have out: "p < 64 \<Longrightarrow> t \<notin> set (a_run a p)" "a_wait a w = Some ts \<Longrightarrow> t \<notin> set ts" "t \<notin> set (a_exit a)"
    "p < 64 \<Longrightarrow> a_cur a p \<noteq> t" for p w ts
    using fresh_node [OF k t, of "RunHead p"] fresh_node [OF k t, of "WaitHead w"]
      fresh_node [OF k t, of ExitHead] fresh_node [OF k t cur_detached, of p] t(1) by auto
  have other: "\<And>p u. p < 64 \<Longrightarrow> u \<in> set (a_run a p) \<Longrightarrow> u \<noteq> t" "\<And>w ts u. a_wait a w = Some ts \<Longrightarrow> u \<in> set ts \<Longrightarrow> u \<noteq> t"
    "\<And>u. u \<in> set (a_exit a) \<Longrightarrow> u \<noteq> t" using out(1-3) by blast+
  have "klists (lst ?s) (contents ?a)"
    unfolding cont put_thread_def using klists_init [OF sched_relD(1) [OF r] fresh_node [OF k t]] by simp
  moreover have "ready_ok ?s ?a" using sched_relD(2) [OF r] other(1) by (simp add: ready_ok_def th)
  moreover have "cur_ok ?s ?a" using sched_relD(3) [OF r] out(4) th by (simp add: cur_ok_def put_thread_def)
  moreover have "nr_ok ?s ?a" using sched_relD(4) [OF r] by (simp add: nr_ok_def put_thread_def)
  moreover have "wait_ok ?s ?a"
    using sched_relD(5) [OF r] other(2) th by (simp add: wait_ok_def put_thread_def)
  moreover have "exit_ok ?s ?a" using sched_relD(6) [OF r] other(3) by (simp add: exit_ok_def th)
  moreover have "idle_ok ?s ?a" using sched_relD(7) [OF r] by (simp add: idle_ok_def put_thread_def)
  ultimately show ?thesis by (simp add: sched_rel_def)
qed

lemma kinv_start:
  assumes k: "kinv_with c k a" and t: "t \<noteq> 0" "t \<notin> k_seen k"
    and td: "td_stus td = TDSTUS_NEW" "td_priority td < PRITY_MAX"
    and add: "krlschdclass_add_thread t (put_thread t td (ks k)) = Some s'"
  shows "kinv c (k\<lparr>ks := s', k_live := insert t (k_live k), k_seen := insert t (k_seen k)\<rparr>)"
proof -
  let ?s = "put_thread t td (ks k)" and ?a = "a\<lparr>a_free := insert t (a_free a)\<rparr>"
  define p where "p = td_prity ?s t"
  note r = put_thread_rel [OF k t, of td]
  have idle: "t \<noteq> idle k" using sched_relD(7) [OF kinvD(1) [OF k]] kinvD(5) [OF k] t(2)
    by (auto simp: idle_ok_def)
  have p: "p < 64" using td(2) td_prity_less [of ?s t] by (simp add: p_def put_thread_def)
  have "sda_cpuidle (schdap ?s) = idle k" "runnable (thds ?s t)"
    using td(1) by (simp_all add: put_thread_def runnable_def)
  with krlschdclass_add_thread_rel [OF r _ t(1) _ p_def [symmetric] p] add idle
  have s': "sched_rel s' (as_add p t ?a)" "same_env ?s s'" "thds s' = thds ?s" by auto
  have cur: "curr k \<noteq> t"
    using kinvD(2,5) [OF k] t sched_relD(7) [OF kinvD(1) [OF k]] fresh_node [OF k t cur_detached]
    by (fastforce simp: running_ok_def Let_def idle_ok_def)
  then have "td_prity ?s (curr k) = td_prity (ks k) (curr k)" by (simp add: put_thread_def td_prity_def)
  then have "running_ok s' (as_add p t ?a)"
    using kinvD(2) [OF k] s'(2) by (simp add: running_ok_def same_env_def put_thread_def)
  moreover have "live (as_add p t ?a) = insert t (k_live k)"
    using as_add_live [OF p t(1), of ?a] kinvD(4) [OF k] by (simp add: live_def ready_def)
  moreover have "sems s' = sems (ks k)" "sda_schdflgs (schdap s') = sda_schdflgs (schdap (ks k))"
    using s'(2) by (simp_all add: same_env_def put_thread_def)
  ultimately have "kinv_with c (k\<lparr>ks := s', k_live := insert t (k_live k), k_seen := insert t (k_seen k)\<rparr>)
      (as_add p t ?a)"
    using s'(1) kinvD(3,5,6) [OF k] by (auto simp: kinv_with_def sem_ok_def)
  then show ?thesis by (auto simp: kinv_def)
qed

subsection \<open>It holds after boot\<close>

definition as_sems :: "(adr \<times> nat) list \<Rightarrow> asched \<Rightarrow> asched" where
  "as_sems ss a = a\<lparr>a_wait := (\<lambda>w. if w \<in> fst ` set ss then Some [] else a_wait a w)\<rparr>"

lemma krlsem_t_init_rel:
  assumes r: "sched_rel s a" and w: "a_wait a w = None" "w \<noteq> 0"
  shows "sched_rel (krlsem_t_init w s) (a\<lparr>a_wait := (a_wait a)(w \<mapsto> [])\<rparr>)" (is "sched_rel ?s ?a")
proof -
  have cont: "contents ?a = (contents a)(WaitHead w \<mapsto> [])"
  proof
    fix n show "contents ?a n = ((contents a)(WaitHead w \<mapsto> [])) n" by (cases n) auto
  qed
  have "WaitHead w \<notin> set (n # ys)" if "contents a n = Some ys" for n ys
    using that w by (cases n) (auto split: if_splits)
  then have "klists (lst ?s) (contents ?a)"
    unfolding cont krlsem_t_init_def kwlst_t_init_def using klists_init [OF sched_relD(1) [OF r]] by simp
  then show ?thesis
    using sched_relD(2-) [OF r] w
    by (simp add: sched_rel_def rel_defs krlsem_t_init_def kwlst_t_init_def td_prity_def)
qed

lemma boot_sem_sel:
  "osschedcls (boot_sem x s) = osschedcls s" "thds (boot_sem x s) = thds s"
  "sems (boot_sem x s) = (sems s)(fst x := \<lparr>sem_flg = 0, sem_count = int (snd x)\<rparr>)"
  by (simp_all add: boot_sem_def krlsem_set_sem_def krlsem_t_init_def kwlst_t_init_def)

lemma boot_sems_sel:
  "osschedcls (fold boot_sem ss s) = osschedcls s" "thds (fold boot_sem ss s) = thds s"
  "distinct (map fst ss) \<Longrightarrow> map_of ss w = Some n \<Longrightarrow> sem_count (sems (fold boot_sem ss s) w) = int n"
  "w \<notin> fst ` set ss \<Longrightarrow> sems (fold boot_sem ss s) w = sems s w"
proof -
  show other: "w \<notin> fst ` set ss \<Longrightarrow> sems (fold boot_sem ss s) w = sems s w" for w ss s
    by (induction ss arbitrary: s) (auto simp: boot_sem_sel)
  show "osschedcls (fold boot_sem ss s) = osschedcls s" "thds (fold boot_sem ss s) = thds s"
    by (induction ss arbitrary: s) (simp_all add: boot_sem_sel)
  show "distinct (map fst ss) \<Longrightarrow> map_of ss w = Some n \<Longrightarrow> sem_count (sems (fold boot_sem ss s) w) = int n"
    by (induction ss arbitrary: s) (auto simp: boot_sem_sel other split: if_splits)
qed

lemma boot_sems_rel:
  assumes "sched_rel s a" and "distinct (map fst ss)" and "0 \<notin> fst ` set ss"
    and "\<forall>w \<in> fst ` set ss. a_wait a w = None"
  shows "sched_rel (fold boot_sem ss s) (as_sems ss a)"
  using assms
proof (induction ss arbitrary: s a)
  case Nil
  then show ?case by (simp add: as_sems_def)
next
  case (Cons x ss)
  let ?a = "a\<lparr>a_wait := (a_wait a)(fst x \<mapsto> [])\<rparr>"
  have "sched_rel (boot_sem x s) ?a"
    using krlsem_t_init_rel [OF Cons.prems(1), of "fst x"] Cons.prems(3,4)
    by (auto simp: boot_sem_def krlsem_set_sem_def)
  moreover have "as_sems ss ?a = as_sems (x # ss) a"
    by (simp add: as_sems_def fun_eq_iff)
  moreover have "\<forall>w \<in> fst ` set ss. a_wait ?a w = None"
  proof
    fix w assume w: "w \<in> fst ` set ss"
    then have "w \<noteq> fst x" using Cons.prems(2) by (metis distinct.simps(2) list.simps(9) set_map)
    then show "a_wait ?a w = None" using w Cons.prems(4) by fastforce
  qed
  ultimately show ?case using Cons.IH [of "boot_sem x s" ?a] Cons.prems(2,3) by simp
qed

definition sems_wf :: "(adr \<times> nat) list \<Rightarrow> bool" where
  "sems_wf ss \<longleftrightarrow> distinct (map fst ss) \<and> 0 \<notin> fst ` set ss"

lemma kinv_with_boot:
  assumes wf: "sems_wf ss" and t: "t \<noteq> 0" and k: "ks k = boot ss t s" "k_ups k = (\<lambda>_. 0)"
    "k_downs k = (\<lambda>_. 0)" "k_live k = {}" "k_seen k = {t}"
  shows "kinv_with (map_of ss) k (as_sems ss (as_init t))"
proof -
  let ?s = "set_cpuidle t (init_krlsched s)" and ?a = "as_sems ss (as_init t)"
  have b: "sched_rel (ks k) ?a" "osschedcls (ks k) = osschedcls ?s" "thds (ks k) = thds ?s"
    "map_of ss w = Some n \<Longrightarrow> sem_count (sems (ks k) w) = int n" for w n
    using boot_sems_rel [OF init_krlsched_rel(1) [OF t], of ss s] wf
    by (auto simp: sems_wf_def as_init_def k(1) boot_def boot_sems_sel)
  have "running_ok (ks k) ?a"
    using init_krlsched_rel(2) [OF t, of s] b(2,3) by (simp add: running_ok_def as_sems_def td_prity_def)
  moreover have "sda_schdflgs (schdap (ks k)) \<noteq> NEED_START_CPUILDE_SCHED_FLGS"
    using b(2) by (simp add: set_cpuidle_def init_krlsched_def schedclass_t_init_def
        schdata_t_init_def sched_consts)
  moreover have "live ?a = {}" by (auto simp: live_def ready_def as_sems_def as_init_def ran_def)
  moreover have "sem_ok (map_of ss) k ?a" unfolding sem_ok_def
  proof (intro conjI allI impI)
    have "dom (a_wait ?a) = fst ` set ss" by (force simp: as_sems_def as_init_def split: if_splits)
    then show "dom (a_wait ?a) = dom (map_of ss)" by (simp add: dom_map_of_conv_image_fst)
    fix sem n assume n: "map_of ss sem = Some n"
    then have "sem \<in> fst ` set ss" by (force dest: map_of_SomeD)
    then show "sem_inv n (k_ups k sem) (k_downs k sem) (sem_count (sems (ks k) sem)) (a_wait ?a sem)"
      using b(4) [OF n] k(2,3) by (simp add: sem_inv_def as_sems_def)
  qed
  ultimately show ?thesis
    using b(1) k by (simp add: kinv_with_def as_sems_def as_init_def)
qed

lemma kinv_boot:
  assumes "sems_wf ss" and "kboot ss k"
  shows "kinv (map_of ss) k"
  using assms kinv_with_boot unfolding kboot_def kinv_def by blast

lemma kinv_step:
  assumes "kinv c k" and "kstep (dom c) k k'"
  shows "kinv c k'"
proof -
  obtain a where a: "kinv_with c k a" using assms(1) by (auto simp: kinv_def)
  from assms(2) show ?thesis
  proof cases
    case sem_down
    then show ?thesis using kinv_down [OF a] unfolding kinv_def by blast
  qed (simp_all add: kinv_block [OF a] kinv_up [OF a] kinv_tick [OF a] kinv_preempt [OF a] kinv_yield [OF a]
      kinv_exit [OF a] kinv_start [OF a])
qed

interpretation krun: state_machine "\<lambda>k. sems_wf ss \<and> kboot ss k" "kstep (dom (map_of ss))" "kinv (map_of ss)"
  for ss
  by unfold_locales (auto intro: kinv_boot kinv_step)

section \<open>Round robin\<close>

fun nschedul :: "adr list \<Rightarrow> sched_t \<Rightarrow> sched_t option" where
  "nschedul [] s = Some s"
| "nschedul (rsp # rs) s = do { s \<leftarrow> krlschedul rsp s; nschedul rs s }"

definition highest :: "asched \<Rightarrow> nat \<Rightarrow> bool" where
  "highest a p \<longleftrightarrow> p < 64 \<and> (\<forall>q < p. a_run a q = [] \<and> a_cur a q = 0)"

lemma find_highest:
  assumes "highest a p" and "a_run a p \<noteq> []"
  shows "find (\<lambda>p. a_run a p \<noteq> [] \<or> a_cur a p \<noteq> 0) [0..<64] = Some p"
  using assms unfolding find_Some_iff highest_def by (intro exI [of _ p]) (auto simp: nth_upt)

lemma as_select_highest:
  assumes "highest a p" and "a_run a p = t # ts"
  shows "as_select a = (Some t, as_rotate p a)" and "highest (as_rotate p a) p"
    and "a_run (as_rotate p a) p = ts @ (if a_cur a p = 0 then [] else [a_cur a p])"
  using assms find_highest [OF assms(1)]
  by (auto simp: as_select_def as_select_in_def as_rotate_def highest_def)

lemma nschedul_turns:
  assumes "sched_rel s a" and "sda_currtd (schdap s) \<noteq> 0"
    and "sda_schdflgs (schdap s) \<noteq> NEED_START_CPUILDE_SCHED_FLGS"
    and "highest a p" and "length rs \<le> length (a_run a p)" and "rs \<noteq> []"
  shows "\<exists>s'. nschedul rs s = Some s' \<and> sda_currtd (schdap s') = a_run a p ! (length rs - 1)"
  using assms
proof (induction rs arbitrary: s a)
  case (Cons rsp rs)
  then obtain t ts where ts: "a_run a p = t # ts" by (cases "a_run a p") auto
  note sel = as_select_highest [OF Cons.prems(4) ts]
  from krlschedul_rel [OF Cons.prems(1-3), of rsp] obtain s' where s': "krlschedul rsp s = Some s'"
    "sched_rel s' (as_rotate p a)" "sda_currtd (schdap s') = t" "running_ok s' (as_rotate p a)"
    "sda_schdflgs (schdap s') \<noteq> NEED_START_CPUILDE_SCHED_FLGS"
    using sel(1) Cons.prems(3) by (auto simp: chosen_def)
  show ?case
  proof (cases "rs = []")
    case True
    with s' ts show ?thesis by simp
  next
    case False
    have "t \<noteq> 0" using s'(3,4) by (auto simp: running_ok_def Let_def)
    moreover have len: "length rs \<le> length ts" using Cons.prems(5) ts by simp
    ultimately have "\<exists>s''. nschedul rs s' = Some s'' \<and>
        sda_currtd (schdap s'') = a_run (as_rotate p a) p ! (length rs - 1)"
      using s' sel(2,3) False by (intro Cons.IH) auto
    moreover have "a_run (as_rotate p a) p ! (length rs - 1) = (t # ts) ! length rs"
      using False len sel(3) by (cases rs) (auto simp: nth_append)
    ultimately show ?thesis using s'(1) ts by simp
  qed
qed simp

section \<open>Properties\<close>

text \<open>The places a thread can be in, read off the state of the kernel.\<close>

datatype place = Ready nat | Current nat | Waiting adr

definition at_place :: "sched_t \<Rightarrow> adr set \<Rightarrow> adr \<Rightarrow> place \<Rightarrow> bool" where
  "at_place s S t pl = (case pl of
     Ready p \<Rightarrow> p < 64 \<and> (\<exists>ts. threads_on s (RunHead p) = Some ts \<and> t \<in> set ts)
   | Current p \<Rightarrow> p < 64 \<and> tdl_curruntd (thdlst s p) = t
   | Waiting w \<Rightarrow> w \<in> S \<and> (\<exists>ts. threads_on s (WaitHead w) = Some ts \<and> t \<in> set ts))"

lemma at_place_rel:
  assumes k: "kinv_with c k a"
  shows "at_place (ks k) (dom c) t pl = (case pl of
     Ready p \<Rightarrow> p < 64 \<and> t \<in> set (a_run a p)
   | Current p \<Rightarrow> p < 64 \<and> a_cur a p = t
   | Waiting w \<Rightarrow> (\<exists>ts. a_wait a w = Some ts \<and> t \<in> set ts))"
proof -
  note r = kinvD(1) [OF k]
  have "dom (a_wait a) = dom c" using kinvD(6) [OF k] by (simp add: sem_ok_def)
  then have d: "w \<in> dom c \<longleftrightarrow> (\<exists>ts. a_wait a w = Some ts)" for w by blast
  have cur: "p < 64 \<Longrightarrow> tdl_curruntd (thdlst (ks k) p) = a_cur a p" for p
    using sched_relD(3) [OF r] by (simp add: cur_ok_def)
  show ?thesis
    using threads_on_rel [OF r] cur d by (cases pl) (auto simp: at_place_def)
qed

lemma place_exists:
  assumes k: "kinv_with c k a" and t: "t \<in> k_live k"
  shows "\<exists>pl. at_place (ks k) (dom c) t pl"
proof -
  have "t \<in> live a" using t kinvD(4) [OF k] by simp
  then have "(\<exists>p < 64. t \<in> set (a_run a p)) \<or> (\<exists>p < 64. a_cur a p = t) \<or>
      (\<exists>w ts. a_wait a w = Some ts \<and> t \<in> set ts)"
    unfolding live_def ready_def ran_def by blast
  then consider (run) p where "p < 64" "t \<in> set (a_run a p)"
    | (cur) p where "p < 64" "a_cur a p = t" | (wait) w ts where "a_wait a w = Some ts" "t \<in> set ts"
    by blast
  then show ?thesis
  proof cases
    case run
    then show ?thesis by (intro exI [of _ "Ready p"]) (simp add: at_place_rel [OF k])
  next
    case cur
    then show ?thesis by (intro exI [of _ "Current p"]) (simp add: at_place_rel [OF k])
  next
    case wait
    then show ?thesis by (intro exI [of _ "Waiting w"]) (simp add: at_place_rel [OF k])
  qed
qed

lemma place_unique:
  assumes k: "kinv_with c k a" and t: "t \<noteq> 0" and pl: "at_place (ks k) (dom c) t pl" "at_place (ks k) (dom c) t pl'"
  shows "pl = pl'"
proof -
  note r = kinvD(1) [OF k]
  have run: "td_prity (ks k) t = p" if "p < 64" "t \<in> set (a_run a p)" for p
    using sched_relD(2) [OF r] that by (auto simp: ready_ok_def)
  have cur: "td_prity (ks k) t = p" "t \<notin> set (a_run a q)" if "p < 64" "a_cur a p = t" "q < 64" for p q
    using cur_facts(3) [OF r that(1)] cur_elsewhere(1) [OF r that(1) _ that(3)] that t by auto
  have wait: "w = w'" if "a_wait a w = Some ts" "t \<in> set ts" "a_wait a w' = Some ts'" "t \<in> set ts'" for w w' ts ts'
    using contents_disjoint [OF r, of "WaitHead w" ts "WaitHead w'" ts'] that by auto
  note nr = wait_not_running(2,3) [OF r]
  show ?thesis
    using pl unfolding at_place_rel [OF k]
    by (cases pl; cases pl') (auto dest: run cur(1) nr wait, (use run cur nr in metis)+)
qed

text \<open>In a state that satisfies the invariant every call returns.\<close>

lemma yield_returns:
  assumes "kinv_with c k a"
  shows "\<exists>s'. krlschedul rsp (ks k) = Some s' \<and> sda_currtd (schdap s') = chosen (ks k) a"
  using krlschedul_rel [OF kinvD(1) [OF assms] curr_nonnull [OF assms] kinvD(3) [OF assms]] by blast

lemma down_returns:
  assumes k: "kinv_with c k a" and sem: "sem \<in> dom c" and ni: "curr k \<noteq> idle k"
  shows "krlsem_down_pass rsp sem (ks k) \<noteq> None"
proof -
  obtain n ts where "a_wait a sem = Some ts"
    by (rule sem_waitlist [OF k sem])
  from krlsem_down_blocks [OF kinvD(1,2) [OF k] ni this _ kinvD(3) [OF k]] show ?thesis
    by (cases "sem_count (sems (ks k) sem) < 1") (blast, simp add: krlsem_down_pass_def)
qed

lemma up_returns:
  assumes k: "kinv_with c k a" and sem: "sem \<in> dom c"
  shows "krlsem_up sem (ks k) \<noteq> None"
proof -
  obtain n ts where "a_wait a sem = Some ts" "0 \<le> sem_count (sems (ks k) sem)"
    by (rule sem_waitlist [OF k sem])
  then show ?thesis using krlsem_up_rel [OF kinvD(1) [OF k]] by blast
qed

lemma exit_returns:
  assumes k: "kinv_with c k a" and ni: "curr k \<noteq> idle k"
  shows "krlsched_exit (ks k) \<noteq> None"
proof -
  note cur = running_curr [OF k ni]
  then have "a_cur a (td_prity (ks k) (curr k)) \<noteq> 0" by simp
  from krlsched_exit_rel [OF kinvD(1) [OF k] cur(1) this cur(2) [symmetric]] show ?thesis by auto
qed

lemma preempt_returns:
  assumes k: "kinv_with c k a"
  shows "krlsched_chkneed_pmptsched rsp (ks k) \<noteq> None"
proof -
  have "kinv_with c (k\<lparr>ks := upd_schda (\<lambda>d. d\<lparr>sda_schdflgs := NOTS_SCHED_FLGS\<rparr>) (ks k)\<rparr>) a"
    by (rule kinv_flags [OF k]) (simp add: sched_consts)
  from yield_returns [OF this, of rsp] show ?thesis
    using kinvD(3) [OF k] by (auto simp: krlsched_chkneed_pmptsched_def Let_def)
qed

text \<open>A concrete boot state: one semaphore at 16 with one unit, the idle thread at 32.\<close>

definition ex_sched :: sched_t where
  "ex_sched = \<lparr>osschedcls = \<lparr>scls_cpunr = 0, scls_threadnr = 0, scls_threadid_inc = 0,
       scls_schda = schdata_t_init\<rparr>,
     lst = \<lparr>l_prev = id, l_next = id\<rparr>, thds = thread_t_init 8, wl_tdnr = (\<lambda>_. 0),
     sems = (\<lambda>_. \<lparr>sem_flg = 0, sem_count = 0\<rparr>), tss_rsp0 = 0, mmu_mmdsc = 0\<rparr>"

definition ex_sems :: "(adr \<times> nat) list" where
  "ex_sems = [(16, 1)]"

definition ex_boot :: kstate where
  "ex_boot = \<lparr>ks = boot ex_sems 32 ex_sched, k_ups = (\<lambda>_. 0), k_downs = (\<lambda>_. 0), k_live = {}, k_seen = {32}\<rparr>"

definition ex_td :: thread_t where
  "ex_td = (thread_t_init 8 48)\<lparr>td_priority := 3\<rparr>"

lemma ex_boot_ok: "sems_wf ex_sems" "kboot ex_sems ex_boot" "map_of ex_sems 16 = Some 1"
  "dom (map_of ex_sems) = {16}" "kinv (map_of ex_sems) ex_boot"
proof -
  show wf: "sems_wf ex_sems" by (simp add: sems_wf_def ex_sems_def)
  show b: "kboot ex_sems ex_boot" unfolding kboot_def ex_boot_def
    by (rule exI [of _ 32], rule exI [of _ ex_sched]) simp
  show "map_of ex_sems 16 = Some 1" "dom (map_of ex_sems) = {16}" by (simp_all add: ex_sems_def)
  show "kinv (map_of ex_sems) ex_boot" by (rule kinv_boot [OF wf b])
qed

lemma ex_boot_with: "kinv_with (map_of ex_sems) ex_boot (as_sems ex_sems (as_init 32))"
  by (rule kinv_with_boot [OF ex_boot_ok(1), of 32 _ ex_sched]) (simp_all add: ex_boot_def)

text \<open>A step: thread 48 is started.\<close>

definition ex_started :: kstate where
  "ex_started = ex_boot\<lparr>ks := the (krlschdclass_add_thread 48 (put_thread 48 ex_td (ks ex_boot))),
     k_live := {48}, k_seen := {48, 32}\<rparr>"

lemma ex_started_returns:
  "krlschdclass_add_thread 48 (put_thread 48 ex_td (ks ex_boot)) = Some (ks ex_started)"
  by (simp add: ex_started_def krlschdclass_add_thread_def Let_def td_prity_def put_thread_def ex_td_def
      PRITY_MAX_def)

lemma ex_started_step: "kstep {16} ex_boot ex_started"
proof -
  have "kstep {16} ex_boot (ex_boot\<lparr>ks := ks ex_started, k_live := insert 48 (k_live ex_boot),
      k_seen := insert 48 (k_seen ex_boot)\<rparr>)"
    by (rule kstep.start [OF _ _ _ _ ex_started_returns])
      (simp_all add: ex_boot_def ex_td_def thread_t_init_def PRITY_MAX_def)
  then show ?thesis by (simp add: ex_started_def ex_boot_def)
qed

definition ex_abs :: asched where
  "ex_abs = as_add 3 48 ((as_sems ex_sems (as_init 32))\<lparr>a_free := {48, 32}\<rparr>)"

lemma ex_started_rel: "sched_rel (ks ex_started) ex_abs" "curr ex_started = 32"
  "sda_schdflgs (schdap (ks ex_started)) \<noteq> NEED_START_CPUILDE_SCHED_FLGS"
proof -
  let ?s = "put_thread 48 ex_td (ks ex_boot)"
  have r: "sched_rel ?s ((as_sems ex_sems (as_init 32))\<lparr>a_free := {48, 32}\<rparr>)"
    using put_thread_rel [OF ex_boot_with, of 48 ex_td] by (simp add: ex_boot_def as_sems_def as_init_def)
  have s: "osschedcls ?s = osschedcls (set_cpuidle 32 (init_krlsched ex_sched))"
    by (simp add: put_thread_def ex_boot_def boot_def boot_sems_sel)
  then have o: "sda_cpuidle (schdap ?s) = 32" "sda_currtd (schdap ?s) = 32"
    "sda_schdflgs (schdap ?s) \<noteq> NEED_START_CPUILDE_SCHED_FLGS"
    by (simp_all add: set_cpuidle_def init_krlsched_def schedclass_t_init_def schdata_t_init_def sched_consts)
  have "td_prity ?s 48 = 3" "runnable (thds ?s 48)"
    by (simp_all add: td_prity_def put_thread_def ex_td_def runnable_def thread_t_init_def)
  with krlschdclass_add_thread_rel [OF r, of 48 3] ex_started_returns o
  show "sched_rel (ks ex_started) ex_abs" "curr ex_started = 32"
    "sda_schdflgs (schdap (ks ex_started)) \<noteq> NEED_START_CPUILDE_SCHED_FLGS"
    by (auto simp: ex_abs_def same_env_def)
qed

lemma ex_run_start: "\<exists>k. kstep {16} ex_boot k \<and> k_live k = {48}"
  using ex_started_step by (auto simp: ex_started_def)

lemma ex_run_up:
  "\<exists>k. kstep {16} ex_boot k \<and> k_ups k 16 = 1 \<and> k_downs k 16 = 0 \<and> sem_count (sems (ks k) 16) = 2"
proof -
  obtain a where a: "kinv_with (map_of ex_sems) ex_boot a" using ex_boot_ok(5) by (auto simp: kinv_def)
  obtain s' where s': "krlsem_up 16 (ks ex_boot) = Some s'"
    using up_returns [OF a, of 16] ex_boot_ok(4) by auto
  let ?k = "ex_boot\<lparr>ks := s', k_ups := (k_ups ex_boot)(16 := Suc (k_ups ex_boot 16))\<rparr>"
  have st: "kstep {16} ex_boot ?k" using s' by (intro kstep.sem_up) simp_all
  then have "kinv (map_of ex_sems) ?k" using kinv_step [OF ex_boot_ok(5)] ex_boot_ok(4) by simp
  then have "sem_count (sems (ks ?k) 16) = 2"
    using ex_boot_ok(3) by (auto simp: kinv_def kinv_with_def sem_ok_def sem_inv_def ex_boot_def)
  with st show ?thesis by (intro exI conjI) (assumption, simp_all add: ex_boot_def)
qed



text \<open>C2. No wake-up is lost: in every reachable state a semaphore that still has a unit has no
  thread on its wait list.\<close>

theorem no_lost_wakeup:
  assumes "sems_wf ss" and "kboot ss k0" and "(kstep (dom (map_of ss)))\<^sup>*\<^sup>* k0 k"
    and "sem \<in> dom (map_of ss)" and "1 \<le> sem_count (sems (ks k) sem)"
  shows "threads_on (ks k) (WaitHead sem) = Some []"
proof -
  have "kinv (map_of ss) k" using krun.inv_reachable assms(1-3) by blast
  then obtain a where a: "kinv_with (map_of ss) k a" by (auto simp: kinv_def)
  obtain n ts where "a_wait a sem = Some ts" "sem_count (sems (ks k) sem) < 1 \<or> ts = []"
    by (rule sem_waitlist [OF a assms(4)])
  then show ?thesis using assms(5) threads_on_rel(3) [OF kinvD(1) [OF a]] by auto
qed

theorem no_lost_wakeup_witness:
  "\<exists>k. (kstep {16})\<^sup>*\<^sup>* ex_boot k \<and> sem_count (sems (ks k) 16) = 2 \<and> threads_on (ks k) (WaitHead 16) = Some []"
proof -
  obtain k where k: "kstep {16} ex_boot k" "sem_count (sems (ks k) 16) = 2" using ex_run_up by blast
  then have "(kstep (dom (map_of ex_sems)))\<^sup>*\<^sup>* ex_boot k" using ex_boot_ok(4) by simp
  from no_lost_wakeup [OF ex_boot_ok(1,2) this, of 16] k ex_boot_ok(4) show ?thesis by auto
qed

text \<open>C3. No thread is lost or duplicated: in every reachable state a thread that was started and
  has not exited is in exactly one place, a run queue, the current slot of a priority, or a
  wait list.\<close>

theorem thread_in_one_place:
  assumes "sems_wf ss" and "kboot ss k0" and "(kstep (dom (map_of ss)))\<^sup>*\<^sup>* k0 k" and "t \<in> k_live k"
  shows "\<exists>!pl. at_place (ks k) (dom (map_of ss)) t pl"
proof -
  have "kinv (map_of ss) k" using krun.inv_reachable assms(1-3) by blast
  then obtain a where a: "kinv_with (map_of ss) k a" by (auto simp: kinv_def)
  have "t \<in> live a" using kinvD(4) [OF a] assms(4) by simp
  then have "t \<noteq> 0"
    using sched_relD(5) [OF kinvD(1) [OF a]] by (auto simp: live_def ready_def wait_ok_def ran_def)
  then show ?thesis using place_exists [OF a assms(4)] place_unique [OF a] by blast
qed

theorem thread_in_one_place_witness:
  "\<exists>k. (kstep {16})\<^sup>*\<^sup>* ex_boot k \<and> (\<exists>!pl. at_place (ks k) {16} 48 pl)"
proof -
  obtain k where k: "kstep {16} ex_boot k" "k_live k = {48}" using ex_run_start by blast
  then have "(kstep (dom (map_of ex_sems)))\<^sup>*\<^sup>* ex_boot k" using ex_boot_ok(4) by simp
  from thread_in_one_place [OF ex_boot_ok(1,2) this, of 48] k ex_boot_ok(4) show ?thesis by auto
qed



text \<open>C4. Round robin: when no higher priority has a thread, the thread at position \<open>k\<close> of a run
  queue gets the processor at the \<open>(k + 1)\<close>-th reschedule; every queued thread gets its turn
  within as many reschedules as the queue is long.\<close>

theorem round_robin:
  assumes "sched_rel s a" and "sda_currtd (schdap s) \<noteq> 0"
    and "sda_schdflgs (schdap s) \<noteq> NEED_START_CPUILDE_SCHED_FLGS"
    and "p < 64" and "\<forall>q < p. threads_on s (RunHead q) = Some [] \<and> tdl_curruntd (thdlst s q) = 0"
    and "threads_on s (RunHead p) = Some ts" and "k < length ts" and "length rsps = k + 1"
  shows "\<exists>s'. nschedul rsps s = Some s' \<and> sda_currtd (schdap s') = ts ! k"
proof -
  have ts: "a_run a p = ts" using threads_on_rel(1) [OF assms(1,4)] assms(6) by simp
  have "highest a p"
    using assms(4,5) threads_on_rel(1) [OF assms(1)] sched_relD(3) [OF assms(1)]
    by (auto simp: highest_def cur_ok_def)
  then show ?thesis
    using nschedul_turns [OF assms(1-3), of p rsps] assms(7,8) ts by force
qed

theorem round_robin_witness:
  "kstep {16} ex_boot ex_started \<and> threads_on (ks ex_started) (RunHead 3) = Some [48] \<and>
     (\<exists>s'. nschedul [4096] (ks ex_started) = Some s' \<and> sda_currtd (schdap s') = 48)"
proof -
  note a = ex_started_rel
  have run: "threads_on (ks ex_started) (RunHead q) = Some (if q = 3 then [48] else [])"
    "tdl_curruntd (thdlst (ks ex_started) q) = 0" if "q < 64" for q
    using threads_on_rel(1) [OF a(1) that] sched_relD(3) [OF a(1)] that
    by (auto simp: cur_ok_def ex_abs_def as_add_def as_sems_def as_init_def)
  have "\<exists>s'. nschedul [4096] (ks ex_started) = Some s' \<and> sda_currtd (schdap s') = [48] ! 0"
    by (rule round_robin [OF a(1) _ a(3), of 3]) (simp_all add: a(2) run)
  then show ?thesis using ex_started_step run [of 3] by simp
qed

text \<open>C5. Rescheduling refines its specification: from a state related to \<open>a\<close> it returns, the
  thread given the processor is the first one of the first priority that has any (the idle
  thread when there is none), its queue turns by one, and the new state is related to the new
  abstract state.\<close>

theorem krlschedul_refines:
  assumes "sched_rel s a" and "sda_currtd (schdap s) \<noteq> 0"
    and "sda_schdflgs (schdap s) \<noteq> NEED_START_CPUILDE_SCHED_FLGS"
  shows "\<exists>s'. krlschedul rsp s = Some s' \<and> sched_rel s' (snd (as_select a)) \<and>
    sda_currtd (schdap s') = (case fst (as_select a) of None \<Rightarrow> sda_cpuidle (schdap s) | Some t \<Rightarrow> t) \<and>
    sems s' = sems s \<and> td_prity s' = td_prity s"
  using krlschedul_rel [OF assms, of rsp] unfolding chosen_def by blast

theorem krlschedul_refines_witness:
  "\<exists>s'. krlschedul 4096 (boot [] 32 ex_sched) = Some s' \<and> sda_currtd (schdap s') = 32"
proof -
  let ?s = "boot [] 32 ex_sched"
  have r: "sched_rel ?s (as_init 32)" using init_krlsched_rel(1) [of 32 ex_sched] by (simp add: boot_def)
  have c: "sda_currtd (schdap ?s) = 32" "sda_cpuidle (schdap ?s) = 32"
    "sda_schdflgs (schdap ?s) \<noteq> NEED_START_CPUILDE_SCHED_FLGS"
    by (simp_all add: boot_def set_cpuidle_def init_krlsched_def schedclass_t_init_def schdata_t_init_def sched_consts)
  have "find (\<lambda>p. False) xs = None" for xs :: "nat list" by (simp add: find_None_iff)
  then have "fst (as_select (as_init 32)) = None" by (simp add: as_select_def as_select_in_def as_init_def)
  with krlschedul_refines [OF r _ c(3), of 4096] c show ?thesis by auto
qed



end
