(* ===== verification/PageAlloc.thy ===== *)
theory PageAlloc
  imports Cosmos_Prelude
begin

text \<open>
  The physical page allocator: \<open>hal/x86/memdivmer.c\<close> on the structures of
  \<open>include/halinc/msadsc_t.h\<close>, \<open>memarea_t.h\<close> and \<open>memmgrinit_t.h\<close>.

  A page descriptor \<open>msadsc_t\<close> is an element of the array \<open>mo_msadscstat\<close> and a pointer to it
  is its index, so the pointer arithmetic of the code is arithmetic on indices. \<open>md_odlink\<close>
  points to another descriptor or to a list header \<open>bafhlst_t\<close>, which is named by its
  memory area and its place there. The free list \<open>af_frelst\<close>, a \<open>list_h_t\<close> list, is the
  sequence of its elements: \<open>Klist\<close> shows that the pointer operations on such lists are
  adding at the front, removing an element and walking from the front. \<open>system_error\<close> is
  the value \<open>None\<close>. Fields of the structures that no operation of the allocator reads are
  left out.
\<close>

section \<open>Data\<close>

datatype mf_olkty_t = MF_OLKTY_INIT | MF_OLKTY_ODER | MF_OLKTY_BAFH | MF_OLKTY_TOBJ

datatype mf_mocty_t = MF_MOCTY_FREE | MF_MOCTY_KRNL | MF_MOCTY_USER

text \<open>A list header of an area: an element of \<open>dm_mdmlielst\<close> or \<open>dm_onemsalst\<close>.\<close>

datatype bafhref = Lie nat | One

text \<open>A null link, a link to a page descriptor, a link to a list header of an area.\<close>

datatype odlink = ONull | OMsa nat | OBafh nat bafhref

record msadsc_t =
  mf_olkty :: mf_olkty_t
  mf_mocty :: mf_mocty_t
  mf_marty :: nat
  mf_uindx :: "24 word"
  paf_alloc :: bool
  paf_padrs :: u64
  md_odlink :: odlink

record bafhlst_t =
  af_stus :: nat
  af_oder :: u64
  af_oderpnr :: u64
  af_fobjnr :: u64
  af_mobjnr :: u64
  af_alcindx :: u64
  af_freindx :: u64
  af_frelst :: "nat list"

record memdivmer_t =
  dm_mdmlielst :: "nat \<Rightarrow> bafhlst_t"
  dm_onemsalst :: bafhlst_t

record memarea_t =
  ma_type :: nat
  ma_maxpages :: u64
  ma_allocpages :: u64
  ma_freepages :: u64
  ma_logicstart :: adr
  ma_logicend :: adr
  ma_logicsz :: u64
  ma_allmsadscnr :: u64
  ma_mdmdata :: memdivmer_t

record memmgrob_t =
  mo_maxpages :: u64
  mo_freepages :: u64
  mo_alocpages :: u64
  mo_msadscstat :: "nat \<Rightarrow> msadsc_t"
  mo_msanr :: nat
  mo_mareastat :: "nat \<Rightarrow> memarea_t"
  mo_mareanr :: nat

type_synonym msas = "nat \<Rightarrow> msadsc_t"

definition MDIVMER_ARR_LMAX :: nat where "MDIVMER_ARR_LMAX = 52"
definition MF_UINDX_MAX :: "24 word" where "MF_UINDX_MAX = 0xffffff"
definition MA_TYPE_INIT :: nat where "MA_TYPE_INIT = 0"
definition MA_TYPE_HWAD :: nat where "MA_TYPE_HWAD = 1"
definition MA_TYPE_KRNL :: nat where "MA_TYPE_KRNL = 2"
definition MA_TYPE_PROC :: nat where "MA_TYPE_PROC = 3"
definition MA_TYPE_SHAR :: nat where "MA_TYPE_SHAR = 4"
definition DMF_RELDIV :: u64 where "DMF_RELDIV = 0"
definition DMF_MAXDIV :: u64 where "DMF_MAXDIV = 1"

lemmas ma_consts = MDIVMER_ARR_LMAX_def MA_TYPE_INIT_def MA_TYPE_HWAD_def MA_TYPE_KRNL_def
  MA_TYPE_PROC_def MA_TYPE_SHAR_def DMF_RELDIV_def DMF_MAXDIV_def

section \<open>Access\<close>

fun get_bafh :: "memarea_t \<Rightarrow> bafhref \<Rightarrow> bafhlst_t" where
  "get_bafh ma (Lie i) = dm_mdmlielst (ma_mdmdata ma) i"
| "get_bafh ma One = dm_onemsalst (ma_mdmdata ma)"

fun put_bafh :: "bafhref \<Rightarrow> bafhlst_t \<Rightarrow> memarea_t \<Rightarrow> memarea_t" where
  "put_bafh (Lie i) b ma =
     ma\<lparr>ma_mdmdata := (ma_mdmdata ma)\<lparr>dm_mdmlielst := (dm_mdmlielst (ma_mdmdata ma))(i := b)\<rparr>\<rparr>"
| "put_bafh One b ma = ma\<lparr>ma_mdmdata := (ma_mdmdata ma)\<lparr>dm_onemsalst := b\<rparr>\<rparr>"

definition upd_msa :: "nat \<Rightarrow> (msadsc_t \<Rightarrow> msadsc_t) \<Rightarrow> msas \<Rightarrow> msas" where
  "upd_msa i f msa = msa(i := f (msa i))"

text \<open>The cast \<open>(msadsc_t*)md_odlink\<close>; no descriptor for a null link.\<close>

fun as_msa :: "odlink \<Rightarrow> nat option" where
  "as_msa (OMsa i) = Some i"
| "as_msa _ = None"

text \<open>\<open>(uint_t)(e - s)\<close> for pointers into the array.\<close>

definition msadiff :: "nat \<Rightarrow> nat \<Rightarrow> u64" where
  "msadiff e s = word_of_int (int e - int s)"

section \<open>Counters and orders\<close>

definition mm_update_memmgrob :: "u64 \<Rightarrow> u64 \<Rightarrow> memmgrob_t \<Rightarrow> memmgrob_t" where
  "mm_update_memmgrob realpnr flgs mo =
     (if flgs = 0 then mo\<lparr>mo_alocpages := mo_alocpages mo + realpnr, mo_freepages := mo_freepages mo - realpnr\<rparr>
      else if flgs = 1 then mo\<lparr>mo_alocpages := mo_alocpages mo - realpnr, mo_freepages := mo_freepages mo + realpnr\<rparr>
      else mo)"

definition mm_update_memarea :: "memarea_t \<Rightarrow> u64 \<Rightarrow> u64 \<Rightarrow> memarea_t" where
  "mm_update_memarea malokp pgnr flgs =
     (if flgs = 0 then malokp\<lparr>ma_freepages := ma_freepages malokp - pgnr, ma_allocpages := ma_allocpages malokp + pgnr\<rparr>
      else if flgs = 1 then malokp\<lparr>ma_freepages := ma_freepages malokp + pgnr, ma_allocpages := ma_allocpages malokp - pgnr\<rparr>
      else malokp)"

text \<open>\<open>search_64rlbits\<close> of \<open>include/halinc/io.h\<close> is the instruction \<open>bsrq\<close>: the number of the
  highest bit that is set, plus one; 0 for 0.\<close>

fun bitlen :: "nat \<Rightarrow> nat" where
  "bitlen n = (if n = 0 then 0 else Suc (bitlen (n div 2)))"

declare bitlen.simps [simp del]

definition search_64rlbits :: "u64 \<Rightarrow> int" where
  "search_64rlbits val = int (bitlen (unat val))"

definition retn_divoder :: "u64 \<Rightarrow> int" where
  "retn_divoder pages =
     (let pbits = search_64rlbits pages - 1
      in if pages AND (pages - 1) \<noteq> 0 then pbits + 1 else pbits)"

definition onfrmsa_retn_fpagenr :: "msas \<Rightarrow> nat option \<Rightarrow> u64" where
  "onfrmsa_retn_fpagenr msa freemsa =
     (case freemsa of None \<Rightarrow> 0
      | Some s \<Rightarrow> (case as_msa (md_odlink (msa s)) of None \<Rightarrow> 0
          | Some fmend \<Rightarrow> (if s > fmend then 0 else msadiff fmend s + 1)))"

definition onmrtype_retn_marea :: "memmgrob_t \<Rightarrow> nat \<Rightarrow> nat option" where
  "onmrtype_retn_marea mmobjp mrtype =
     find (\<lambda>mi. ma_type (mo_mareastat mmobjp mi) = mrtype) [0..<mo_mareanr mmobjp]"

definition onfrmsa_retn_marea :: "memmgrob_t \<Rightarrow> nat \<Rightarrow> u64 \<Rightarrow> nat option" where
  "onfrmsa_retn_marea mmobjp freemsa freepgs =
     (let msa = mo_msadscstat mmobjp in
      if mf_olkty (msa freemsa) \<noteq> MF_OLKTY_ODER then None
      else (case as_msa (md_odlink (msa freemsa)) of None \<Rightarrow> None
        | Some fmend \<Rightarrow>
            if msadiff fmend freemsa + 1 \<noteq> freepgs then None
            else if mf_marty (msa freemsa) \<noteq> mf_marty (msa fmend) then None
            else find (\<lambda>mi. mf_marty (msa freemsa) = ma_type (mo_mareastat mmobjp mi)) [0..<mo_mareanr mmobjp]))"

definition retn_procmarea :: "memmgrob_t \<Rightarrow> nat option" where
  "retn_procmarea mmobjp = find (\<lambda>mi. MA_TYPE_PROC = ma_type (mo_mareastat mmobjp mi)) [0..<mo_mareanr mmobjp]"

definition onma_retn_maxbafhlst :: "memarea_t \<Rightarrow> nat option" where
  "onma_retn_maxbafhlst malckp = find (\<lambda>li. af_fobjnr (get_bafh malckp (Lie li)) > 0) (rev [0..<MDIVMER_ARR_LMAX])"

section \<open>Marking pages as allocated and as free\<close>

text \<open>No descriptor is returned for \<open>mnr = 0\<close>.\<close>

definition mm_divpages_opmsadsc :: "msas \<Rightarrow> nat \<Rightarrow> u64 \<Rightarrow> (nat option \<times> msas) option" where
  "mm_divpages_opmsadsc msa msastat mnr =
     (if mnr = 0 then Some (None, msa)
      else
        (let m = msa msastat in
         if (mf_olkty m \<noteq> MF_OLKTY_ODER \<and> mf_olkty m \<noteq> MF_OLKTY_BAFH) \<or> md_odlink m = ONull \<or> paf_alloc m
         then system_error ''mm_divpages_opmsadsc err1''
         else (case (if mf_olkty m = MF_OLKTY_BAFH then Some msastat else as_msa (md_odlink m)) of
             None \<Rightarrow> None
           | Some mend \<Rightarrow>
               if mend < msastat then system_error ''mm_divpages_opmsadsc err2''
               else if msadiff mend msastat + 1 \<noteq> mnr then system_error ''mm_divpages_opmsadsc err3''
               else if mf_uindx m > MF_UINDX_MAX - 1 \<or> mf_uindx (msa mend) > MF_UINDX_MAX - 1 \<or>
                       mf_uindx m \<noteq> mf_uindx (msa mend)
               then system_error ''mm_divpages_opmsadsc err4''
               else if msastat = mend then
                 Some (Some msastat,
                   upd_msa msastat (\<lambda>m. m\<lparr>mf_uindx := mf_uindx m + 1, paf_alloc := True,
                     mf_olkty := MF_OLKTY_ODER, md_odlink := OMsa mend\<rparr>) msa)
               else
                 (let msa = upd_msa msastat (\<lambda>m. m\<lparr>mf_uindx := mf_uindx m + 1, paf_alloc := True\<rparr>) msa;
                      msa = upd_msa mend (\<lambda>m. m\<lparr>mf_uindx := mf_uindx m + 1, paf_alloc := True\<rparr>) msa;
                      msa = upd_msa msastat (\<lambda>m. m\<lparr>mf_olkty := MF_OLKTY_ODER, md_odlink := OMsa mend\<rparr>) msa
                  in Some (Some msastat, msa)))))"

text \<open>The result is 0 (wrong arguments), 1 (still shared) or 2 (free now).\<close>

definition mm_merpages_opmsadsc ::
    "nat \<Rightarrow> bafhref \<Rightarrow> u64 \<Rightarrow> msas \<Rightarrow> nat \<Rightarrow> u64 \<Rightarrow> (nat \<times> msas) option" where
  "mm_merpages_opmsadsc mi bafh oderpnr msa freemsa freepgs =
     (if freepgs < 1 then Some (0, msa)
      else if mf_olkty (msa freemsa) \<noteq> MF_OLKTY_ODER \<or> md_odlink (msa freemsa) = ONull
      then system_error ''mm_merpages_opmsadsc err1''
      else (case as_msa (md_odlink (msa freemsa)) of
          None \<Rightarrow> None
        | Some fmend \<Rightarrow>
            if fmend < freemsa then system_error ''mm_merpages_opmsadsc err2''
            else if oderpnr \<noteq> freepgs \<or> msadiff fmend freemsa + 1 \<noteq> freepgs
            then system_error ''mm_merpages_opmsadsc err3''
            else if \<not> paf_alloc (msa freemsa) \<or> mf_uindx (msa freemsa) < 1
            then system_error ''mm_merpages_opmsadsc err4''
            else if \<not> paf_alloc (msa fmend) \<or> mf_uindx (msa fmend) < 1
            then system_error ''mm_merpages_opmsadsc err5''
            else if mf_uindx (msa freemsa) \<noteq> mf_uindx (msa fmend)
            then system_error ''mm_merpages_opmsadsc err6''
            else if freemsa = fmend then
              (let msa = upd_msa freemsa (\<lambda>m. m\<lparr>mf_uindx := mf_uindx m - 1\<rparr>) msa in
               if mf_uindx (msa freemsa) > 0 then Some (1, msa)
               else Some (2, upd_msa freemsa (\<lambda>m. m\<lparr>paf_alloc := False, mf_olkty := MF_OLKTY_BAFH,
                                                    md_odlink := OBafh mi bafh\<rparr>) msa))
            else
              (let msa = upd_msa freemsa (\<lambda>m. m\<lparr>mf_uindx := mf_uindx m - 1\<rparr>) msa;
                   msa = upd_msa fmend (\<lambda>m. m\<lparr>mf_uindx := mf_uindx m - 1\<rparr>) msa in
               if mf_uindx (msa freemsa) > 0 then Some (1, msa)
               else
                 (let msa = upd_msa freemsa (\<lambda>m. m\<lparr>paf_alloc := False\<rparr>) msa;
                      msa = upd_msa fmend (\<lambda>m. m\<lparr>paf_alloc := False\<rparr>) msa;
                      msa = upd_msa freemsa (\<lambda>m. m\<lparr>mf_olkty := MF_OLKTY_ODER, md_odlink := OMsa fmend\<rparr>) msa;
                      msa = upd_msa fmend (\<lambda>m. m\<lparr>mf_olkty := MF_OLKTY_BAFH, md_odlink := OBafh mi bafh\<rparr>) msa
                  in Some (2, msa)))))"

section \<open>Finding lists and taking blocks from them\<close>

text \<open>The list the request belongs to and the list a block is taken from.\<close>

definition onmpgs_retn_bafhlst :: "memarea_t \<Rightarrow> u64 \<Rightarrow> (nat \<times> nat) option" where
  "onmpgs_retn_bafhlst malckp pages =
     (if pages < 1 then None
      else
        (let dividx = retn_divoder pages in
         if dividx < 0 \<or> dividx \<ge> int MDIVMER_ARR_LMAX then None
         else if af_oderpnr (get_bafh malckp (Lie (nat dividx))) < pages then None
         else (case find (\<lambda>idx. af_oderpnr (get_bafh malckp (Lie idx)) \<ge> pages \<and>
                             af_fobjnr (get_bafh malckp (Lie idx)) > 0) [nat dividx..<MDIVMER_ARR_LMAX] of
             None \<Rightarrow> None
           | Some idx \<Rightarrow> Some (nat dividx, idx))))"

definition onfpgs_retn_bafhlst :: "memarea_t \<Rightarrow> u64 \<Rightarrow> (nat \<times> nat) option option" where
  "onfpgs_retn_bafhlst malckp freepgs =
     (if freepgs < 1 then Some None
      else
        (let dividx = retn_divoder freepgs in
         if dividx < 0 \<or> dividx \<ge> int MDIVMER_ARR_LMAX then Some None
         else
           (let b = get_bafh malckp (Lie (nat dividx)) in
            if af_mobjnr b \<ge> NOT 0 then system_error ''onfpgs_retn_bafhlst af_mobjnr max''
            else if af_fobjnr b \<ge> NOT 0 then system_error ''onfpgs_retn_bafhlst af_fobjnr max''
            else if af_oderpnr b \<noteq> freepgs then Some None
            else Some (Some (nat dividx, MDIVMER_ARR_LMAX - 1)))))"

text \<open>The first block of a list, with its last page.\<close>

definition mm_retnmsaob_onbafhlst :: "bafhref \<Rightarrow> msas \<Rightarrow> memarea_t \<Rightarrow> (nat \<times> nat option) option \<times> memarea_t" where
  "mm_retnmsaob_onbafhlst bafhp msa ma =
     (let b = get_bafh ma bafhp in
      if af_mobjnr b < 1 \<or> af_fobjnr b < 1 then (None, ma)
      else (case af_frelst b of
          [] \<Rightarrow> (None, ma)
        | tmp # rest \<Rightarrow>
            (Some (tmp, if mf_olkty (msa tmp) = MF_OLKTY_BAFH then Some tmp else as_msa (md_odlink (msa tmp))),
             put_bafh bafhp (b\<lparr>af_frelst := rest, af_mobjnr := af_mobjnr b - 1, af_fobjnr := af_fobjnr b - 1,
                               af_freindx := af_freindx b + 1\<rparr>) ma)))"

definition scan_mapgsalloc_ok :: "memarea_t \<Rightarrow> u64 \<Rightarrow> bool" where
  "scan_mapgsalloc_ok malckp pages \<longleftrightarrow> \<not> pages < 1 \<and> ma_freepages malckp \<ge> pages \<and> ma_maxpages malckp \<ge> pages"

text \<open>\<open>None\<close> for \<open>system_error\<close>; otherwise the first page of the block, the pages allocated
  (\<open>*retrelpnr\<close>) and the new state.\<close>

definition mm_maxdivpages_onmarea :: "msas \<Rightarrow> memarea_t \<Rightarrow> (nat option \<times> u64 \<times> msas \<times> memarea_t) option" where
  "mm_maxdivpages_onmarea msa malckp =
     (case onma_retn_maxbafhlst malckp of
        None \<Rightarrow> Some (None, 0, msa, malckp)
      | Some li \<Rightarrow>
          (case mm_retnmsaob_onbafhlst (Lie li) msa malckp of
             (None, ma) \<Rightarrow> Some (None, 0, msa, ma)
           | (Some (retmstat, None), ma) \<Rightarrow> Some (None, 0, msa, ma)
           | (Some (retmstat, Some retmend), ma) \<Rightarrow> do {
               (retmsa, msa) \<leftarrow> mm_divpages_opmsadsc msa retmstat (af_oderpnr (get_bafh ma (Lie li)));
               case retmsa of None \<Rightarrow> Some (None, 0, msa, ma)
               | Some r \<Rightarrow> Some (Some r, af_oderpnr (get_bafh ma (Lie li)), msa, ma)
             }))"

definition mrdmb_add_msa_bafh ::
    "nat \<Rightarrow> bafhref \<Rightarrow> nat \<Rightarrow> nat option \<Rightarrow> msas \<Rightarrow> memarea_t \<Rightarrow> bool \<times> msas \<times> memarea_t" where
  "mrdmb_add_msa_bafh mi bafhp msastat msaend msa ma =
     (case msaend of None \<Rightarrow> (False, msa, ma)
      | Some msaend \<Rightarrow>
        (let b = get_bafh ma bafhp; mnr = msadiff msaend msastat + 1 in
         if af_oderpnr b \<noteq> mnr then (False, msa, ma)
         else if mf_uindx (msa msastat) > 0 \<or> mf_uindx (msa msaend) > 0 then (False, msa, ma)
         else if paf_alloc (msa msastat) \<or> paf_alloc (msa msaend) then (False, msa, ma)
         else if msastat = msaend \<and> 1 \<noteq> mnr \<and> 1 \<noteq> af_oderpnr b then (False, msa, ma)
         else
           (let msa = upd_msa msastat (\<lambda>m. m\<lparr>mf_olkty := MF_OLKTY_ODER, md_odlink := OMsa msaend\<rparr>) msa;
                msa = upd_msa msaend (\<lambda>m. m\<lparr>mf_olkty := MF_OLKTY_BAFH, md_odlink := OBafh mi bafhp\<rparr>) msa
            in (True, msa, put_bafh bafhp (b\<lparr>af_frelst := msastat # af_frelst b, af_mobjnr := af_mobjnr b + 1,
                                            af_fobjnr := af_fobjnr b + 1\<rparr>) ma))))"

text \<open>The loop that splits the block at \<open>retmstat\<close>, from list \<open>relbfl + n - 1\<close> down to \<open>relbfl\<close>:
  the upper half goes to the list, the lower half stays in hand.\<close>

fun div_loop :: "nat \<Rightarrow> nat \<Rightarrow> nat \<Rightarrow> nat \<Rightarrow> u64 \<Rightarrow> msas \<Rightarrow> memarea_t \<Rightarrow> (u64 \<times> msas \<times> memarea_t) option" where
  "div_loop mi relbfl 0 retmstat divnr msa ma = Some (divnr, msa, ma)"
| "div_loop mi relbfl (Suc n) retmstat divnr msa ma =
     (let tmpbfl = relbfl + n;
          oderpnr = af_oderpnr (get_bafh ma (Lie tmpbfl)) in
      case mrdmb_add_msa_bafh mi (Lie tmpbfl) (retmstat + unat oderpnr) (as_msa (md_odlink (msa retmstat))) msa ma of
        (ok, msa, ma) \<Rightarrow>
          if \<not> ok then system_error ''mrdmb_add_msa_bafh fail''
          else (let msa = upd_msa retmstat (\<lambda>m. m\<lparr>md_odlink := OMsa (retmstat + unat oderpnr - 1)\<rparr>) msa
                in div_loop mi relbfl n retmstat (divnr - oderpnr) msa ma))"

definition mm_reldpgsdivmsa_bafhl ::
    "nat \<Rightarrow> u64 \<Rightarrow> nat \<Rightarrow> nat \<Rightarrow> msas \<Rightarrow> memarea_t \<Rightarrow> (nat option \<times> u64 \<times> msas \<times> memarea_t) option" where
  "mm_reldpgsdivmsa_bafhl mi pages relbfl divbfl msa malckp =
     (if pages < 1 then Some (None, 0, msa, malckp)
      else if relbfl > divbfl then Some (None, 0, msa, malckp)
      else if relbfl = divbfl then
        (case mm_retnmsaob_onbafhlst (Lie relbfl) msa malckp of
           (None, ma) \<Rightarrow> Some (None, 0, msa, ma)
         | (Some (retmstat, None), ma) \<Rightarrow> Some (None, 0, msa, ma)
         | (Some (retmstat, Some retmend), ma) \<Rightarrow>
             if msadiff retmend retmstat + 1 \<noteq> af_oderpnr (get_bafh ma (Lie relbfl)) then Some (None, 0, msa, ma)
             else do {
               (retmsa, msa) \<leftarrow> mm_divpages_opmsadsc msa retmstat (af_oderpnr (get_bafh ma (Lie relbfl)));
               case retmsa of None \<Rightarrow> Some (None, 0, msa, ma)
               | Some r \<Rightarrow> Some (Some r, af_oderpnr (get_bafh ma (Lie relbfl)), msa, ma)
             })
      else
        (case mm_retnmsaob_onbafhlst (Lie divbfl) msa malckp of
           (None, ma) \<Rightarrow> Some (None, 0, msa, ma)
         | (Some (retmstat, None), ma) \<Rightarrow> Some (None, 0, msa, ma)
         | (Some (retmstat, Some retmend), ma) \<Rightarrow>
             if msadiff retmend retmstat + 1 \<noteq> af_oderpnr (get_bafh ma (Lie divbfl)) then Some (None, 0, msa, ma)
             else do {
               (divnr, msa, ma) \<leftarrow> div_loop mi relbfl (divbfl - relbfl) retmstat
                                     (af_oderpnr (get_bafh ma (Lie divbfl))) msa ma;
               (retmsa, msa) \<leftarrow> mm_divpages_opmsadsc msa retmstat divnr;
               case retmsa of None \<Rightarrow> Some (None, 0, msa, ma)
               | Some r \<Rightarrow> Some (Some r, af_oderpnr (get_bafh ma (Lie relbfl)), msa, ma)
             }))"

definition mm_reldivpages_onmarea ::
    "nat \<Rightarrow> u64 \<Rightarrow> msas \<Rightarrow> memarea_t \<Rightarrow> (nat option \<times> u64 \<times> msas \<times> memarea_t) option" where
  "mm_reldivpages_onmarea mi pages msa malckp =
     (if pages < 1 then Some (None, 0, msa, malckp)
      else if \<not> scan_mapgsalloc_ok malckp pages then Some (None, 0, msa, malckp)
      else (case onmpgs_retn_bafhlst malckp pages of
          None \<Rightarrow> Some (None, 0, msa, malckp)
        | Some (retrelbhl, retdivbhl) \<Rightarrow> mm_reldpgsdivmsa_bafhl mi pages retrelbhl retdivbhl msa malckp))"

definition mm_prcdivpages_onmarea ::
    "u64 \<Rightarrow> msas \<Rightarrow> memarea_t \<Rightarrow> (nat option \<times> u64 \<times> msas \<times> memarea_t) option" where
  "mm_prcdivpages_onmarea pages msa malckp =
     (if pages \<noteq> 1 then Some (None, 0, msa, malckp)
      else if ma_type malckp \<noteq> MA_TYPE_PROC then Some (None, 0, msa, malckp)
      else if \<not> scan_mapgsalloc_ok malckp pages then Some (None, 0, msa, malckp)
      else (case mm_retnmsaob_onbafhlst One msa malckp of
           (None, ma) \<Rightarrow> Some (None, 0, msa, ma)
         | (Some (retmstat, None), ma) \<Rightarrow> Some (None, 0, msa, ma)
         | (Some (retmstat, Some retmend), ma) \<Rightarrow>
             if msadiff retmend retmstat + 1 \<noteq> af_oderpnr (get_bafh ma One) then Some (None, 0, msa, ma)
             else do {
               (retmsa, msa) \<leftarrow> mm_divpages_opmsadsc msa retmstat (af_oderpnr (get_bafh ma One));
               case retmsa of None \<Rightarrow> Some (None, 0, msa, ma)
               | Some r \<Rightarrow> Some (Some r, af_oderpnr (get_bafh ma One), msa, ma)
             }))"

section \<open>Allocating pages\<close>

text \<open>Writing back the area and the descriptors.\<close>

definition set_marea :: "nat \<Rightarrow> msas \<Rightarrow> memarea_t \<Rightarrow> memmgrob_t \<Rightarrow> memmgrob_t" where
  "set_marea mi msa ma mo = mo\<lparr>mo_msadscstat := msa, mo_mareastat := (mo_mareastat mo)(mi := ma)\<rparr>"

definition mm_divpages_core ::
    "nat \<Rightarrow> u64 \<Rightarrow> u64 \<Rightarrow> memmgrob_t \<Rightarrow> (nat option \<times> u64 \<times> memmgrob_t) option" where
  "mm_divpages_core mi pages flgs mo =
     (let mareap = mo_mareastat mo mi in
      if flgs \<noteq> DMF_RELDIV \<and> flgs \<noteq> DMF_MAXDIV then Some (None, 0, mo)
      else if ma_type mareap \<noteq> MA_TYPE_KRNL \<and> ma_type mareap \<noteq> MA_TYPE_HWAD then Some (None, 0, mo)
      else do {
        (retmsa, retpnr, msa, ma) \<leftarrow>
          (if flgs = DMF_MAXDIV then mm_maxdivpages_onmarea (mo_msadscstat mo) mareap
           else mm_reldivpages_onmarea mi pages (mo_msadscstat mo) mareap);
        if retmsa \<noteq> None \<and> retpnr \<noteq> 0
        then Some (retmsa, retpnr, mm_update_memmgrob retpnr 0
                     (set_marea mi msa (mm_update_memarea ma retpnr 0) mo))
        else Some (retmsa, retpnr, set_marea mi msa ma mo)
      })"

definition mm_divpages_fmwk ::
    "memmgrob_t \<Rightarrow> u64 \<Rightarrow> nat \<Rightarrow> u64 \<Rightarrow> (nat option \<times> u64 \<times> memmgrob_t) option" where
  "mm_divpages_fmwk mo pages mrtype flgs =
     (case onmrtype_retn_marea mo mrtype of
        None \<Rightarrow> Some (None, 0, mo)
      | Some mi \<Rightarrow> do {
          (retmsa, retpnr, mo) \<leftarrow> mm_divpages_core mi pages flgs mo;
          Some (retmsa, if retmsa = None then 0 else retpnr, mo)
        })"

definition mm_division_pages ::
    "memmgrob_t \<Rightarrow> u64 \<Rightarrow> nat \<Rightarrow> u64 \<Rightarrow> (nat option \<times> u64 \<times> memmgrob_t) option" where
  "mm_division_pages mo pages mrtype flgs =
     (if mrtype = 0 then Some (None, 0, mo)
      else do {
        (retmsa, retpnr, mo) \<leftarrow> mm_divpages_fmwk mo pages mrtype flgs;
        Some (retmsa, if retmsa = None then 0 else retpnr, mo)
      })"

definition divpages_procmarea_core :: "memmgrob_t \<Rightarrow> u64 \<Rightarrow> (nat option \<times> u64 \<times> memmgrob_t) option" where
  "divpages_procmarea_core mo pages =
     (if pages \<noteq> 1 then Some (None, 0, mo)
      else (case retn_procmarea mo of
          None \<Rightarrow> Some (None, 0, mo)
        | Some mi \<Rightarrow>
            if \<not> scan_mapgsalloc_ok (mo_mareastat mo mi) pages then Some (None, 0, mo)
            else do {
              (retmsa, retpnr, msa, ma) \<leftarrow> mm_prcdivpages_onmarea pages (mo_msadscstat mo) (mo_mareastat mo mi);
              if retmsa \<noteq> None \<and> retpnr \<noteq> 0
              then Some (retmsa, retpnr, mm_update_memmgrob retpnr 0
                           (set_marea mi msa (mm_update_memarea ma retpnr 0) mo))
              else Some (None, 0, set_marea mi msa ma mo)
            }))"

definition mm_divpages_procmarea :: "memmgrob_t \<Rightarrow> u64 \<Rightarrow> (nat option \<times> u64 \<times> memmgrob_t) option" where
  "mm_divpages_procmarea mo pages =
     (if pages \<noteq> 1 then Some (None, 0, mo)
      else do {
        (retmsa, retpnr, mo) \<leftarrow> divpages_procmarea_core mo pages;
        if retmsa \<noteq> None then Some (retmsa, retpnr, mo)
        else do {
          (retmsa, retpnr, mo) \<leftarrow> mm_division_pages mo pages MA_TYPE_KRNL DMF_RELDIV;
          Some (retmsa, if retmsa = None then 0 else retpnr, mo)
        }
      })"

section \<open>Freeing pages\<close>

definition scan_freemsa_isok :: "msas \<Rightarrow> nat \<Rightarrow> u64 \<Rightarrow> bool" where
  "scan_freemsa_isok msa freemsa freepgs \<longleftrightarrow> \<not> freepgs < 1 \<and>
     mf_olkty (msa freemsa) = MF_OLKTY_ODER \<and> \<not> mf_uindx (msa freemsa) < 1 \<and>
     (case as_msa (md_odlink (msa freemsa)) of None \<Rightarrow> False
      | Some fend \<Rightarrow> paf_alloc (msa freemsa) \<and> paf_alloc (msa fend) \<and> \<not> mf_uindx (msa fend) < 1 \<and>
          msadiff fend freemsa + 1 = freepgs)"

text \<open>Is the run from \<open>ms\<close> to \<open>me\<close> a free block of the list? 2 for yes, 0 for no.\<close>

definition mm_cmsa1blk_isok :: "nat \<Rightarrow> bafhref \<Rightarrow> msas \<Rightarrow> nat \<Rightarrow> nat \<Rightarrow> nat" where
  "mm_cmsa1blk_isok mi bafh msa ms me =
     (if me < ms then 0
      else if ms = me then
        (if mf_olkty (msa me) \<noteq> MF_OLKTY_BAFH \<or> md_odlink (msa me) \<noteq> OBafh mi bafh \<or> paf_alloc (msa me) \<or>
            mf_uindx (msa me) \<noteq> 0 \<or> paf_padrs (msa me) - paf_padrs (msa ms) \<noteq> msadiff me ms
         then 0 else 2)
      else if mf_olkty (msa ms) \<noteq> MF_OLKTY_ODER \<or> md_odlink (msa ms) \<noteq> OMsa me \<or> paf_alloc (msa ms) \<or>
              mf_uindx (msa ms) \<noteq> 0 \<or> mf_olkty (msa me) \<noteq> MF_OLKTY_BAFH \<or> md_odlink (msa me) \<noteq> OBafh mi bafh \<or>
              paf_alloc (msa me) \<or> mf_uindx (msa me) \<noteq> 0 \<or>
              paf_padrs (msa me) - paf_padrs (msa ms) \<noteq> msadiff me ms
      then 0 else 2)"

text \<open>Two blocks of one list: 2 when the second follows the first, 4 when it precedes it, 1 when
  they are not adjacent.\<close>

definition mm_cmsa2blk_isok :: "nat \<Rightarrow> bafhref \<Rightarrow> msas \<Rightarrow> nat \<Rightarrow> nat \<Rightarrow> nat \<Rightarrow> nat \<Rightarrow> nat option" where
  "mm_cmsa2blk_isok mi bafh msa ms1 me1 ms2 me2 =
     (if ms1 = ms2 \<or> me1 = me2 then Some 0
      else if mm_cmsa1blk_isok mi bafh msa ms1 me1 = 0 then system_error ''mm_cmsa1blk_isok ret1s == 0''
      else if mm_cmsa1blk_isok mi bafh msa ms2 me2 = 0 then system_error ''mm_cmsa1blk_isok ret2s == 0''
      else if ms1 < ms2 \<and> me1 < me2 then
        (if me1 + 1 \<noteq> ms2 then Some 1
         else if paf_padrs (msa me1) + 1 \<noteq> paf_padrs (msa ms2) then Some 1 else Some 2)
      else if ms1 > ms2 \<and> me1 > me2 then
        (if me2 + 1 \<noteq> ms1 then Some 1
         else if paf_padrs (msa me2) + 1 \<noteq> paf_padrs (msa ms1) then Some 1 else Some 4)
      else Some 0)"

definition chek_cl2molkflg :: "nat \<Rightarrow> bafhref \<Rightarrow> u64 \<Rightarrow> msas \<Rightarrow> nat \<Rightarrow> nat \<Rightarrow> nat \<Rightarrow> nat \<Rightarrow> bool" where
  "chek_cl2molkflg mi bafh oderpnr msa ms1 me1 ms2 me2 \<longleftrightarrow>
     ms1 \<noteq> ms2 \<and> me1 \<noteq> me2 \<and> msadiff me2 ms1 + 1 = oderpnr \<and>
     mf_olkty (msa ms1) = MF_OLKTY_ODER \<and> md_odlink (msa ms1) = OMsa me2 \<and>
     (ms1 = me1 \<and> ms2 = me2 \<or>
      mf_olkty (msa me1) = MF_OLKTY_INIT \<and> md_odlink (msa me1) = ONull \<and>
      mf_olkty (msa ms2) = MF_OLKTY_INIT \<and> md_odlink (msa ms2) = ONull) \<and>
     mf_olkty (msa me2) = MF_OLKTY_BAFH \<and> md_odlink (msa me2) = OBafh mi bafh"

definition mm_clear_2msaolflg :: "nat \<Rightarrow> bafhref \<Rightarrow> nat \<Rightarrow> nat \<Rightarrow> nat \<Rightarrow> nat \<Rightarrow> msas \<Rightarrow> bool \<times> msas" where
  "mm_clear_2msaolflg mi bafh ms1 me1 ms2 me2 msa =
     (if ms1 = ms2 \<or> me1 = me2 then (False, msa)
      else
        (let msa = upd_msa me1 (\<lambda>m. m\<lparr>mf_olkty := MF_OLKTY_INIT, md_odlink := ONull\<rparr>) msa;
             msa = upd_msa ms2 (\<lambda>m. m\<lparr>mf_olkty := MF_OLKTY_INIT, md_odlink := ONull\<rparr>) msa;
             msa = upd_msa ms1 (\<lambda>m. m\<lparr>mf_olkty := MF_OLKTY_ODER, md_odlink := OMsa me2\<rparr>) msa;
             msa = upd_msa me2 (\<lambda>m. m\<lparr>mf_olkty := MF_OLKTY_BAFH, md_odlink := OBafh mi bafh\<rparr>) msa
         in (True, msa)))"

text \<open>The search loop of \<open>mm_find_cmsa2blk\<close>: the value of \<open>rets\<close> when it ends, and the block it
  stopped at when that is 2 or 4.\<close>

fun find_adjacent :: "nat \<Rightarrow> bafhref \<Rightarrow> nat \<Rightarrow> msas \<Rightarrow> nat \<Rightarrow> nat \<Rightarrow> nat list \<Rightarrow> nat \<Rightarrow> (nat \<times> nat) option" where
  "find_adjacent mi bafh pnr msa ms me [] rets = Some (rets, 0)"
| "find_adjacent mi bafh pnr msa ms me (tmpmsa # lst) rets = do {
     rets \<leftarrow> mm_cmsa2blk_isok mi bafh msa ms me tmpmsa (tmpmsa + pnr - 1);
     if rets = 2 \<or> rets = 4 then Some (rets, tmpmsa)
     else find_adjacent mi bafh pnr msa ms me lst rets
   }"

text \<open>The result is 1 (nothing to merge with), 2 (merged; the block in hand has grown) or 0.\<close>

definition mm_find_cmsa2blk ::
    "nat \<Rightarrow> nat \<Rightarrow> nat \<Rightarrow> nat \<Rightarrow> msas \<Rightarrow> memarea_t \<Rightarrow> (nat \<times> nat \<times> nat \<times> msas \<times> memarea_t) option" where
  "mm_find_cmsa2blk mi fb ms me msa ma =
     (let b = get_bafh ma (Lie fb) in
      if af_fobjnr b < 1 then Some (1, ms, me, msa, ma)
      else do {
        (rets, blkms) \<leftarrow> find_adjacent mi (Lie fb) (unat (af_oderpnr b)) msa ms me (af_frelst b) 0;
        let blkme = blkms + unat (af_oderpnr b) - 1;
        let ma' = put_bafh (Lie fb) (b\<lparr>af_frelst := remove1 blkms (af_frelst b), af_fobjnr := af_fobjnr b - 1,
                                      af_mobjnr := af_mobjnr b - 1\<rparr>) ma;
        let oder' = af_oderpnr (get_bafh ma' (Lie (fb + 1)));
        if rets = 2 then
          (case mm_clear_2msaolflg mi (Lie (fb + 1)) ms me blkms blkme msa of
             (True, msa) \<Rightarrow>
               if \<not> chek_cl2molkflg mi (Lie (fb + 1)) oder' msa ms me blkms blkme then system_error ''chek_cl2molkflg err1''
               else Some (2, ms, blkme, msa, ma')
           | (False, msa) \<Rightarrow> Some (0, ms, me, msa, ma'))
        else if rets = 4 then
          (case mm_clear_2msaolflg mi (Lie (fb + 1)) blkms blkme ms me msa of
             (True, msa) \<Rightarrow>
               if \<not> chek_cl2molkflg mi (Lie (fb + 1)) oder' msa blkms blkme ms me then system_error ''chek_cl2molkflg err2''
               else Some (2, blkms, me, msa, ma')
           | (False, msa) \<Rightarrow> Some (0, ms, me, msa, ma'))
        else if rets = 0 \<or> rets = 1 then Some (1, ms, me, msa, ma)
        else Some (0, ms, me, msa, ma)
      })"

definition mpobf_add_msadsc ::
    "nat \<Rightarrow> bafhref \<Rightarrow> nat \<Rightarrow> nat \<Rightarrow> msas \<Rightarrow> memarea_t \<Rightarrow> (bool \<times> msas \<times> memarea_t) option" where
  "mpobf_add_msadsc mi bafhp freemstat freemend msa ma =
     (let b = get_bafh ma bafhp in
      if freemend < freemstat then Some (False, msa, ma)
      else if af_oderpnr b \<noteq> msadiff freemend freemstat + 1 then Some (False, msa, ma)
      else if af_fobjnr b \<ge> NOT 0 \<or> af_mobjnr b \<ge> NOT 0 then system_error ''(~0UL)<=bafhp->af_fobjnr''
      else
        (let msa = upd_msa freemstat (\<lambda>m. m\<lparr>mf_olkty := MF_OLKTY_ODER, md_odlink := OMsa freemend\<rparr>) msa;
             msa = upd_msa freemend (\<lambda>m. m\<lparr>mf_olkty := MF_OLKTY_BAFH, md_odlink := OBafh mi bafhp\<rparr>) msa
         in Some (True, msa, put_bafh bafhp (b\<lparr>af_frelst := freemstat # af_frelst b, af_fobjnr := af_fobjnr b + 1,
                                             af_mobjnr := af_mobjnr b + 1\<rparr>) ma)))"

text \<open>The merging loop, from list \<open>tmpbf\<close> with \<open>n\<close> lists left before \<open>merbf\<close>; its result is the
  list the block is put on and the block.\<close>

fun mer_loop :: "nat \<Rightarrow> nat \<Rightarrow> nat \<Rightarrow> nat \<Rightarrow> nat \<Rightarrow> msas \<Rightarrow> memarea_t \<Rightarrow> (nat \<times> nat \<times> nat \<times> msas \<times> memarea_t) option" where
  "mer_loop mi 0 tmpbf mnxs mnxe msa ma = Some (tmpbf, mnxs, mnxe, msa, ma)"
| "mer_loop mi (Suc n) tmpbf mnxs mnxe msa ma = do {
     (rets, mnxs, mnxe, msa, ma) \<leftarrow> mm_find_cmsa2blk mi tmpbf mnxs mnxe msa ma;
     if rets = 1 then Some (tmpbf, mnxs, mnxe, msa, ma)
     else if rets = 0 then system_error ''mm_find_cmsa2blk retn 0''
     else mer_loop mi n (tmpbf + 1) mnxs mnxe msa ma
   }"

definition mm_merpages_onbafhlst ::
    "nat \<Rightarrow> nat \<Rightarrow> u64 \<Rightarrow> nat \<Rightarrow> nat \<Rightarrow> msas \<Rightarrow> memarea_t \<Rightarrow> (bool \<times> msas \<times> memarea_t) option" where
  "mm_merpages_onbafhlst mi freemsa freepgs relbf merbf msa ma = do {
     (tmpbf, mnxs, mnxe, msa, ma) \<leftarrow> mer_loop mi (merbf - relbf) relbf freemsa (freemsa + unat freepgs - 1) msa ma;
     mpobf_add_msadsc mi (Lie tmpbf) mnxs mnxe msa ma
   }"

text \<open>The flag of the result says whether \<open>freepgs\<close> pages became free, when the counters of the
  area and of the manager are updated.\<close>

definition mm_merpages_onmarea ::
    "nat \<Rightarrow> nat \<Rightarrow> u64 \<Rightarrow> memmgrob_t \<Rightarrow> (bool \<times> memmgrob_t) option" where
  "mm_merpages_onmarea mi freemsa freepgs mo =
     (let ma = mo_mareastat mo mi; msa = mo_msadscstat mo in
      if freepgs < 1 then Some (False, mo)
      else if ma_type ma = MA_TYPE_PROC then do {
        (pocs, msa) \<leftarrow> mm_merpages_opmsadsc mi One (af_oderpnr (get_bafh ma One)) msa freemsa freepgs;
        if pocs = 2 then do {
          (ok, msa, ma) \<leftarrow> mpobf_add_msadsc mi One freemsa (freemsa + unat freepgs - 1) msa ma;
          if \<not> ok then system_error ''mm_merpages_onmarea proc memarea merge fail''
          else Some (True, mm_update_memmgrob freepgs 1 (set_marea mi msa (mm_update_memarea ma freepgs 1) mo))
        }
        else Some (pocs = 1, set_marea mi msa ma mo)
      }
      else do {
        r \<leftarrow> onfpgs_retn_bafhlst ma freepgs;
        case r of None \<Rightarrow> Some (False, mo)
        | Some (retrelbf, retmerbf) \<Rightarrow> do {
            (mopms, msa) \<leftarrow> mm_merpages_opmsadsc mi (Lie retrelbf) (af_oderpnr (get_bafh ma (Lie retrelbf)))
                               msa freemsa freepgs;
            if mopms = 2 then do {
              (rets, msa, ma) \<leftarrow> mm_merpages_onbafhlst mi freemsa freepgs retrelbf retmerbf msa ma;
              if rets then Some (True, mm_update_memmgrob freepgs 1
                                         (set_marea mi msa (mm_update_memarea ma freepgs 1) mo))
              else Some (False, set_marea mi msa ma mo)
            }
            else Some (mopms = 1, set_marea mi msa ma mo)
          }
      })"

definition mm_merpages_core :: "nat \<Rightarrow> nat \<Rightarrow> u64 \<Rightarrow> memmgrob_t \<Rightarrow> (bool \<times> memmgrob_t) option" where
  "mm_merpages_core mi freemsa freepgs mo =
     (if freepgs < 1 then Some (False, mo)
      else if \<not> scan_freemsa_isok (mo_msadscstat mo) freemsa freepgs then Some (False, mo)
      else mm_merpages_onmarea mi freemsa freepgs mo)"

definition mm_merpages_fmwk :: "memmgrob_t \<Rightarrow> nat \<Rightarrow> u64 \<Rightarrow> (bool \<times> memmgrob_t) option" where
  "mm_merpages_fmwk mo freemsa freepgs =
     (case onfrmsa_retn_marea mo freemsa freepgs of
        None \<Rightarrow> Some (False, mo)
      | Some mi \<Rightarrow> mm_merpages_core mi freemsa freepgs mo)"

definition mm_merge_pages :: "memmgrob_t \<Rightarrow> nat option \<Rightarrow> u64 \<Rightarrow> (bool \<times> memmgrob_t) option" where
  "mm_merge_pages mo freemsa freepgs =
     (case freemsa of None \<Rightarrow> Some (False, mo)
      | Some f \<Rightarrow> if freepgs < 1 then Some (False, mo) else mm_merpages_fmwk mo f freepgs)"

end
