(* ===== verification/PageAlloc_Inv.thy ===== *)
theory PageAlloc_Inv
  imports PageAlloc
begin

text \<open>
  Blocks of pages and the invariant of a memory area: every block on list \<open>k\<close> is a run of
  \<open>2 ^ k\<close> free pages with its links set, every allocated block has its first and last page
  marked, and no two blocks share a page. The lemmas follow one block through the steps of
  an allocation and of a release; a block that is on no list and not allocated meanwhile is
  \<open>in hand\<close>.
\<close>

section \<open>Orders\<close>

lemma bitlen_bounds: "0 < n \<Longrightarrow> 0 < bitlen n \<and> 2 ^ (bitlen n - 1) \<le> n \<and> n < 2 ^ bitlen n"
proof (induction n rule: bitlen.induct)
  case (1 n)
  show ?case
  proof (cases "n div 2 = 0")
    case True
    then have "n = 1" using 1(2) by linarith
    then show ?thesis by (simp add: bitlen.simps)
  next
    case False
    then obtain m where m: "bitlen (n div 2) = Suc m" "2 ^ m \<le> n div 2" "n div 2 < 2 ^ Suc m"
      using 1 by (cases "bitlen (n div 2)") auto
    then have "bitlen n = Suc (Suc m)" using 1(2) by (simp add: bitlen.simps [of n])
    moreover have "2 ^ Suc m \<le> n \<and> n < 2 ^ Suc (Suc m)" using m(2,3) by (simp, linarith)
    ultimately show ?thesis by simp
  qed
qed

lemma bitlen_unique: "2 ^ k \<le> n \<Longrightarrow> n < 2 ^ Suc k \<Longrightarrow> bitlen n = Suc k"
proof -
  assume a: "2 ^ k \<le> n" "n < 2 ^ Suc k"
  have "0 < n" using a(1) by (metis gr0I not_le zero_less_numeral zero_less_power)
  note b = bitlen_bounds [OF this]
  have "2 ^ (bitlen n - 1) < (2::nat) ^ Suc k" "(2::nat) ^ k < 2 ^ bitlen n"
    using a b by (meson le_less_trans)+
  then have "bitlen n - 1 < Suc k" "k < bitlen n" by (simp_all only: power_strict_increasing_iff)
  then show ?thesis by linarith
qed

lemma unat_2p [simp]: "k < 64 \<Longrightarrow> unat (2 ^ k :: u64) = 2 ^ k"
proof -
  assume "k < 64"
  then have "(2::nat) ^ k < 2 ^ 64" by (intro power_strict_increasing) simp_all
  then show ?thesis using unat_of_nat [of "2 ^ k", where 'a = 64] by simp
qed

lemma pow2_and:
  fixes w :: u64
  assumes "0 < unat w"
  shows "w AND (w - 1) = 0 \<longleftrightarrow> unat w = 2 ^ (bitlen (unat w) - 1)"
proof -
  define j where "j = bitlen (unat w) - 1"
  have b: "2 ^ j \<le> unat w" "unat w < 2 ^ Suc j" using bitlen_bounds [OF assms] by (auto simp: j_def)
  have j: "j < 64"
  proof (rule ccontr)
    assume "\<not> j < 64"
    then have "(2::nat) ^ 64 \<le> 2 ^ j" by (simp only: power_increasing_iff not_less)
    then show False using b(1) unsigned_less [of w, where 'a = nat] by simp
  qed
  show ?thesis
  proof
    assume p: "unat w = 2 ^ (bitlen (unat w) - 1)"
    then have w: "w = 2 ^ j" using j by (metis j_def unat_2p word_unat_eq_iff)
    have "2 ^ j AND mask j = (0 :: u64)" by (rule bit_eqI) (auto simp: bit_simps)
    then show "w AND (w - 1) = 0" by (simp add: w mask_eq_exp_minus_1)
  next
    assume z: "w AND (w - 1) = 0"
    show "unat w = 2 ^ (bitlen (unat w) - 1)"
    proof (rule ccontr)
      assume "unat w \<noteq> 2 ^ (bitlen (unat w) - 1)"
      then have gt: "2 ^ j < unat w" using b(1) by (simp add: j_def)
      have "unat (w - 1) = unat w - 1" using assms by (simp add: unat_minus_one word_greater_zero_iff unat_gt_0)
      then have "unat w div 2 ^ j = 1" "unat (w - 1) div 2 ^ j = 1"
        using gt b by (auto intro!: div_nat_eqI)
      then have "bit (unat w) j" "bit (unat (w - 1)) j" by (simp_all add: bit_iff_odd)
      then have "bit (w AND (w - 1)) j" by (simp add: bit_and_iff bit_unsigned_iff)
      with z show False by simp
    qed
  qed
qed

text \<open>\<open>retn_divoder\<close> is the logarithm rounded up.\<close>

lemma retn_divoder_bounds:
  assumes "0 < pages"
  obtains d where "retn_divoder pages = int d" and "unat pages \<le> 2 ^ d"
    and "d = 0 \<or> 2 ^ (d - 1) < unat pages"
proof -
  have pos: "0 < unat pages" using assms by (simp add: word_less_nat_alt)
  define j where "j = bitlen (unat pages) - 1"
  have b: "2 ^ j \<le> unat pages" "unat pages < 2 ^ Suc j" "bitlen (unat pages) = Suc j"
    using bitlen_bounds [OF pos] by (auto simp: j_def)
  show thesis
  proof (cases "pages AND (pages - 1) = 0")
    case True
    then have "unat pages = 2 ^ j" using pow2_and [OF pos] by (simp add: j_def)
    then show thesis using True b
      by (intro that [of j]) (auto simp: retn_divoder_def search_64rlbits_def)
  next
    case False
    then have "unat pages \<noteq> 2 ^ j" using pow2_and [OF pos] by (simp add: j_def)
    then show thesis using False b
      by (intro that [of "Suc j"]) (auto simp: retn_divoder_def search_64rlbits_def)
  qed
qed

lemma retn_divoder_pow2: "k < 64 \<Longrightarrow> retn_divoder (2 ^ k) = int k"
proof -
  assume k: "k < 64"
  have "bitlen (2 ^ k) = Suc k" by (rule bitlen_unique) simp_all
  then show ?thesis
    using k pow2_and [of "2 ^ k"] by (simp add: retn_divoder_def search_64rlbits_def)
qed

section \<open>Blocks\<close>

definition blk :: "nat \<Rightarrow> nat \<Rightarrow> nat set" where
  "blk s k = {s..<s + 2 ^ k}"

definition lastp :: "nat \<Rightarrow> nat \<Rightarrow> nat" where
  "lastp s k = s + (2 ^ k - 1)"

lemma pow2_pred: obtains m :: nat where "2 ^ k = Suc m" and "2 ^ k - Suc 0 = m" and "m = 0 \<longleftrightarrow> k = 0"
proof -
  obtain m :: nat where m: "2 ^ k = Suc m" by (metis not0_implies_Suc power_not_zero zero_neq_numeral)
  have "m = 0 \<longleftrightarrow> k = 0" using m by (cases k) (auto, presburger)
  with m show thesis by (intro that [of m]) simp_all
qed

lemma lastp_code: "s + 2 ^ k - 1 = lastp s k" "s + 2 ^ k - Suc 0 = lastp s k"
  by (rule pow2_pred [of k], simp add: lastp_def)+

lemma blk_mem [simp]: "s \<in> blk s k" "lastp s k \<in> blk s k"
  by (rule pow2_pred [of k], simp add: blk_def lastp_def)+

lemma blk_finite [simp]: "finite (blk s k)" "card (blk s k) = 2 ^ k"
  by (simp_all add: blk_def)

lemma blk_split: "blk s (Suc k) = blk s k \<union> blk (s + 2 ^ k) k" "blk s k \<inter> blk (s + 2 ^ k) k = {}"
  by (auto simp: blk_def)

lemma lastp_props: "s \<le> lastp s k" "lastp s k = s \<longleftrightarrow> k = 0" "s = lastp s k \<longleftrightarrow> k = 0" "lastp s 0 = s"
  by (rule pow2_pred [of k], simp add: lastp_def)+

lemma lastp_upper: "lastp (s + 2 ^ k) k = lastp s (Suc k)" "lastp s k + 1 = s + 2 ^ k"
  by (rule pow2_pred [of k], simp add: lastp_def)+

lemma lastp_inj: "lastp s k = lastp t k \<longleftrightarrow> s = t" "lastp s k < lastp t k \<longleftrightarrow> s < t"
  by (rule pow2_pred [of k], simp add: lastp_def)+

lemma msadiff_lastp': "msadiff (lastp s k) s = of_nat (2 ^ k - 1)"
  by (rule pow2_pred [of k]) (simp add: msadiff_def lastp_def)

lemma of_nat_pred: "(of_nat (2 ^ k - 1) :: 'a::len word) = 2 ^ k - 1"
  by (simp add: of_nat_diff)

lemma msadiff_lastp: "msadiff (lastp s k) s + 1 = 2 ^ k"
  unfolding msadiff_lastp' of_nat_pred by simp

text \<open>Blocks of equal size that share no page follow each other or not.\<close>

lemma blk_order:
  assumes "blk s k \<inter> blk t k = {}"
  shows "s \<noteq> t" and "s < t \<Longrightarrow> lastp s k + 1 \<le> t" and "t < s \<Longrightarrow> lastp t k + 1 \<le> s"
  using assms by (auto simp: blk_def lastp_def)

section \<open>Pages of a block\<close>

text \<open>All pages belong to the area, and their frame numbers follow each other.\<close>

definition pages_ok :: "nat \<Rightarrow> msas \<Rightarrow> nat \<Rightarrow> nat \<Rightarrow> bool" where
  "pages_ok ty msa s k \<longleftrightarrow> (\<forall>i < 2 ^ k. mf_marty (msa (s + i)) = ty \<and>
     paf_padrs (msa (s + i)) = paf_padrs (msa s) + of_nat i)"

definition clear_ok :: "msas \<Rightarrow> nat set \<Rightarrow> bool" where
  "clear_ok msa S \<longleftrightarrow> (\<forall>i \<in> S. mf_uindx (msa i) = 0 \<and> \<not> paf_alloc (msa i))"

definition free_link :: "nat \<Rightarrow> msas \<Rightarrow> nat \<Rightarrow> nat \<Rightarrow> bool" where
  "free_link mi msa s k \<longleftrightarrow>
     mf_olkty (msa (lastp s k)) = MF_OLKTY_BAFH \<and> md_odlink (msa (lastp s k)) = OBafh mi (Lie k) \<and>
     (0 < k \<longrightarrow> mf_olkty (msa s) = MF_OLKTY_ODER \<and> md_odlink (msa s) = OMsa (lastp s k))"

definition free_blk :: "nat \<Rightarrow> nat \<Rightarrow> msas \<Rightarrow> nat \<Rightarrow> nat \<Rightarrow> bool" where
  "free_blk ty mi msa s k \<longleftrightarrow> pages_ok ty msa s k \<and> clear_ok msa (blk s k) \<and> free_link mi msa s k"

definition used_blk :: "nat \<Rightarrow> msas \<Rightarrow> nat \<Rightarrow> nat \<Rightarrow> bool" where
  "used_blk ty msa s k \<longleftrightarrow> pages_ok ty msa s k \<and> clear_ok msa (blk s k - {s, lastp s k}) \<and>
     mf_olkty (msa s) = MF_OLKTY_ODER \<and> md_odlink (msa s) = OMsa (lastp s k) \<and>
     mf_uindx (msa s) = 1 \<and> mf_uindx (msa (lastp s k)) = 1 \<and> paf_alloc (msa s) \<and> paf_alloc (msa (lastp s k))"

text \<open>A block in hand while it is being allocated: free pages, and the first one points to the
  last.\<close>

definition hand_blk :: "nat \<Rightarrow> msas \<Rightarrow> nat \<Rightarrow> nat \<Rightarrow> bool" where
  "hand_blk ty msa s k \<longleftrightarrow> pages_ok ty msa s k \<and> clear_ok msa (blk s k) \<and>
     (mf_olkty (msa s) = MF_OLKTY_ODER \<and> md_odlink (msa s) = OMsa (lastp s k) \<or>
      k = 0 \<and> mf_olkty (msa s) = MF_OLKTY_BAFH \<and> md_odlink (msa s) \<noteq> ONull)"

lemma free_hand: "free_blk ty mi msa s k \<Longrightarrow> hand_blk ty msa s k"
  by (cases "k = 0") (auto simp: free_blk_def hand_blk_def free_link_def lastp_props)

text \<open>These predicates look at the pages of the block only.\<close>

lemma blk_local:
  assumes "\<And>i. i \<in> blk s k \<Longrightarrow> msa' i = msa i"
  shows "pages_ok ty msa' s k = pages_ok ty msa s k" "clear_ok msa' (blk s k) = clear_ok msa (blk s k)"
    "free_blk ty mi msa' s k = free_blk ty mi msa s k" "used_blk ty msa' s k = used_blk ty msa s k"
proof -
  have "msa' (s + i) = msa (s + i)" if "i < 2 ^ k" for i using assms that by (simp add: blk_def)
  moreover have "msa' s = msa s" "msa' (lastp s k) = msa (lastp s k)" using assms by simp_all
  ultimately show "pages_ok ty msa' s k = pages_ok ty msa s k" "clear_ok msa' (blk s k) = clear_ok msa (blk s k)"
    "free_blk ty mi msa' s k = free_blk ty mi msa s k" "used_blk ty msa' s k = used_blk ty msa s k"
    using assms by (auto simp: pages_ok_def clear_ok_def free_blk_def used_blk_def free_link_def)
qed

lemma pages_ok_upd:
  assumes "\<And>i. i \<in> blk s k \<Longrightarrow> mf_marty (msa' i) = mf_marty (msa i) \<and> paf_padrs (msa' i) = paf_padrs (msa i)"
  shows "pages_ok ty msa' s k = pages_ok ty msa s k"
proof -
  have "mf_marty (msa' (s + i)) = mf_marty (msa (s + i)) \<and> paf_padrs (msa' (s + i)) = paf_padrs (msa (s + i))"
    if "i < 2 ^ k" for i using assms that by (simp add: blk_def)
  moreover have "paf_padrs (msa' s) = paf_padrs (msa s)" using assms by simp
  ultimately show ?thesis by (simp add: pages_ok_def)
qed

lemma pages_ok_halves:
  "pages_ok ty msa s (Suc k) \<longleftrightarrow> pages_ok ty msa s k \<and> pages_ok ty msa (s + 2 ^ k) k \<and>
     paf_padrs (msa (lastp s k)) + 1 = paf_padrs (msa (s + 2 ^ k))" (is "?l = ?r")
proof
  assume l: ?l
  then have at: "i < 2 * 2 ^ k \<Longrightarrow> mf_marty (msa (s + i)) = ty \<and> paf_padrs (msa (s + i)) = paf_padrs (msa s) + of_nat i" for i
    by (simp add: pages_ok_def)
  have last: "paf_padrs (msa (lastp s k)) + 1 = paf_padrs (msa s) + of_nat (2 ^ k)"
    using at [of "2 ^ k - 1"] of_nat_pred [of k, where 'a = 64] by (simp add: lastp_def less_imp_diff_less)
  have "mf_marty (msa (s + 2 ^ k + i)) = ty \<and>
      paf_padrs (msa (s + 2 ^ k + i)) = paf_padrs (msa (s + 2 ^ k)) + of_nat i" if "i < 2 ^ k" for i
    using at [of "2 ^ k + i"] at [of "2 ^ k"] that by (simp add: add.assoc)
  then show ?r using at last at [of "2 ^ k"] by (simp add: pages_ok_def)
next
  assume r: ?r
  have last: "paf_padrs (msa (s + 2 ^ k)) = paf_padrs (msa s) + of_nat (2 ^ k)"
    using r spec [of "\<lambda>i. i < 2 ^ k \<longrightarrow> mf_marty (msa (s + i)) = ty \<and> paf_padrs (msa (s + i)) = paf_padrs (msa s) + of_nat i" "2 ^ k - 1"]
    by (simp add: pages_ok_def lastp_def of_nat_diff)
  show ?l unfolding pages_ok_def
  proof (intro allI impI)
    fix i :: nat assume i: "i < 2 ^ Suc k"
    show "mf_marty (msa (s + i)) = ty \<and> paf_padrs (msa (s + i)) = paf_padrs (msa s) + of_nat i"
    proof (cases "i < 2 ^ k")
      case True
      then show ?thesis using r by (simp add: pages_ok_def)
    next
      case False
      then obtain j where j: "i = 2 ^ k + j" by (metis le_Suc_ex not_le)
      then have "j < 2 ^ k" using i by simp
      then have "mf_marty (msa (s + 2 ^ k + j)) = ty \<and> paf_padrs (msa (s + 2 ^ k + j)) = paf_padrs (msa (s + 2 ^ k)) + of_nat j"
        using r by (simp add: pages_ok_def)
      then show ?thesis using j last by (simp add: add.assoc)
    qed
  qed
qed

section \<open>Sets of blocks\<close>

type_synonym block = "nat \<times> nat"

abbreviation bpages :: "block \<Rightarrow> nat set" where
  "bpages b \<equiv> blk (fst b) (snd b)"

definition bdisj :: "block set \<Rightarrow> bool" where
  "bdisj B \<longleftrightarrow> (\<forall>b \<in> B. \<forall>c \<in> B. b \<noteq> c \<longrightarrow> bpages b \<inter> bpages c = {})"

definition bunion :: "block set \<Rightarrow> nat set" where
  "bunion B = (\<Union>b \<in> B. bpages b)"

lemma bdisj_subset: "bdisj B \<Longrightarrow> C \<subseteq> B \<Longrightarrow> bdisj C"
  unfolding bdisj_def by blast

lemma bdisj_apart: "bdisj B \<Longrightarrow> C \<subseteq> B \<Longrightarrow> b \<in> B \<Longrightarrow> b \<notin> C \<Longrightarrow> bpages b \<inter> bunion C = {}"
  unfolding bdisj_def bunion_def by fastforce

lemma bunion_insert [simp]: "bunion (insert b B) = bpages b \<union> bunion B" "bunion {} = {}"
  by (auto simp: bunion_def)

lemma bdisj_insert:
  assumes "b \<notin> B"
  shows "bdisj (insert b B) \<longleftrightarrow> bdisj B \<and> bpages b \<inter> bunion B = {}"
proof
  assume d: "bdisj (insert b B)"
  then show "bdisj B \<and> bpages b \<inter> bunion B = {}"
    using assms by (auto intro: bdisj_subset dest: bdisj_apart [of _ B b])
next
  assume "bdisj B \<and> bpages b \<inter> bunion B = {}"
  then have "bdisj B" "c \<in> B \<Longrightarrow> bpages b \<inter> bpages c = {}" for c by (auto simp: bunion_def)
  then show "bdisj (insert b B)" unfolding bdisj_def by (metis Int_commute insert_iff)
qed

lemma bpages_ne: "bpages b \<noteq> {}"
  using blk_mem(1) [of "fst b" "snd b"] by blast

text \<open>A block can be replaced by its halves, and two halves by the block.\<close>

lemma bdisj_halves:
  assumes "(s, Suc k) \<notin> B"
  shows "bdisj (insert (s, Suc k) B) \<longleftrightarrow>
    (s, k) \<notin> B \<and> (s + 2 ^ k, k) \<notin> B \<and> bdisj (insert (s, k) (insert (s + 2 ^ k, k) B))" (is "?l \<longleftrightarrow> ?r")
proof -
  have out: "b \<notin> B" if "bpages b \<inter> bunion B = {}" for b
    using that bpages_ne [of b] by (auto simp: bunion_def)
  have up: "blk s (Suc k) \<inter> X = {} \<longleftrightarrow> blk s k \<inter> X = {} \<and> blk (s + 2 ^ k) k \<inter> X = {}" for X
    using blk_split(1) [of s k] by auto
  have ne: "(s, k) \<noteq> (s + 2 ^ k, k)" by simp
  show ?thesis
  proof
    assume ?l
    then have "bdisj B" "blk s k \<inter> bunion B = {}" "blk (s + 2 ^ k) k \<inter> bunion B = {}"
      using bdisj_insert [OF assms] up by auto
    then show ?r using out [of "(s, k)"] out [of "(s + 2 ^ k, k)"] ne blk_split(2) [of s k]
      by (simp add: bdisj_insert Int_Un_distrib)
  next
    assume r: ?r
    then have "bdisj B" "blk s k \<inter> bunion B = {}" "blk (s + 2 ^ k) k \<inter> bunion B = {}"
      using ne bdisj_insert [of "(s, k)" "insert (s + 2 ^ k, k) B"] bdisj_insert [of "(s + 2 ^ k, k)" B]
      by auto
    then show ?l using bdisj_insert [OF assms] up by simp
  qed
qed

section \<open>The invariant of an area\<close>

abbreviation frel :: "memarea_t \<Rightarrow> nat \<Rightarrow> nat list" where
  "frel ma k \<equiv> af_frelst (get_bafh ma (Lie k))"

definition blocks :: "memarea_t \<Rightarrow> block set" where
  "blocks ma = {(s, k). k < 52 \<and> s \<in> set (frel ma k)}"

definition bafh_ok :: "bafhlst_t \<Rightarrow> nat \<Rightarrow> bool" where
  "bafh_ok b k \<longleftrightarrow> af_oderpnr b = 2 ^ k \<and> af_fobjnr b = of_nat (length (af_frelst b)) \<and>
     af_mobjnr b = of_nat (length (af_frelst b)) \<and> distinct (af_frelst b)"

definition area_ok :: "nat \<Rightarrow> nat \<Rightarrow> nat \<Rightarrow> msas \<Rightarrow> memarea_t \<Rightarrow> block set \<Rightarrow> block set \<Rightarrow> bool" where
  "area_ok ty mi N msa ma A H \<longleftrightarrow>
     (\<forall>k < 52. bafh_ok (get_bafh ma (Lie k)) k) \<and>
     (\<forall>b \<in> blocks ma. free_blk ty mi msa (fst b) (snd b)) \<and>
     (\<forall>b \<in> A. snd b < 52 \<and> used_blk ty msa (fst b) (snd b)) \<and>
     bdisj (blocks ma \<union> A \<union> H) \<and> H \<inter> (blocks ma \<union> A) = {} \<and>
     bunion (blocks ma \<union> A \<union> H) \<subseteq> {..<N} \<and> N \<le> 2 ^ 52"

lemma area_okD:
  assumes "area_ok ty mi N msa ma A H"
  shows "k < 52 \<Longrightarrow> bafh_ok (get_bafh ma (Lie k)) k"
    and "b \<in> blocks ma \<Longrightarrow> free_blk ty mi msa (fst b) (snd b)"
    and "b \<in> A \<Longrightarrow> snd b < 52 \<and> used_blk ty msa (fst b) (snd b)"
    and "bdisj (blocks ma \<union> A \<union> H)" "H \<inter> (blocks ma \<union> A) = {}"
    and "bunion (blocks ma \<union> A \<union> H) \<subseteq> {..<N}" "N \<le> 2 ^ 52"
  using assms by (simp_all add: area_ok_def)

text \<open>A free block is not allocated.\<close>

lemma free_not_used: "free_blk ty mi msa s k \<Longrightarrow> \<not> used_blk ty' msa s k"
  using blk_mem(1) [of s k] by (auto simp: free_blk_def used_blk_def clear_ok_def)

text \<open>Changes outside the blocks that stay.\<close>

lemma area_change:
  assumes ok: "area_ok ty mi N msa ma A H"
    and lists: "\<And>k. k < 52 \<Longrightarrow> bafh_ok (get_bafh ma' (Lie k)) k"
    and same: "\<And>i. i \<notin> S \<Longrightarrow> msa' i = msa i"
    and free: "\<And>b. b \<in> blocks ma' \<Longrightarrow> b \<in> blocks ma \<and> bpages b \<inter> S = {} \<or> free_blk ty mi msa' (fst b) (snd b)"
    and used: "\<And>b. b \<in> A' \<Longrightarrow> b \<in> A \<and> bpages b \<inter> S = {} \<or> snd b < 52 \<and> used_blk ty msa' (fst b) (snd b)"
    and disj: "bdisj (blocks ma' \<union> A' \<union> H')" "H' \<inter> (blocks ma' \<union> A') = {}"
    and pages: "bunion (blocks ma' \<union> A' \<union> H') \<subseteq> bunion (blocks ma \<union> A \<union> H)"
  shows "area_ok ty mi N msa' ma' A' H'"
proof -
  have loc: "msa' i = msa i" if "bpages b \<inter> S = {}" "i \<in> bpages b" for b i
    using that same [of i] by blast
  have "free_blk ty mi msa' (fst b) (snd b)" if "b \<in> blocks ma'" for b
    using free [OF that] area_okD(2) [OF ok] blk_local(3) [of "fst b" "snd b" msa' msa] loc by metis
  moreover have "snd b < 52 \<and> used_blk ty msa' (fst b) (snd b)" if "b \<in> A'" for b
    using used [OF that] area_okD(3) [OF ok] blk_local(4) [of "fst b" "snd b" msa' msa] loc by metis
  ultimately show ?thesis
    unfolding area_ok_def using lists disj pages area_okD(6,7) [OF ok] by blast
qed

text \<open>Putting a header back.\<close>

lemma get_put_bafh [simp]: "get_bafh (put_bafh r b ma) r' = (if r' = r then b else get_bafh ma r')"
  by (cases r; cases r') auto

lemma put_bafh_sel [simp]:
  "ma_type (put_bafh r b ma) = ma_type ma" "ma_freepages (put_bafh r b ma) = ma_freepages ma"
  "ma_maxpages (put_bafh r b ma) = ma_maxpages ma" "ma_allocpages (put_bafh r b ma) = ma_allocpages ma"
  by (cases r; simp)+

declare get_bafh.simps [simp del] put_bafh.simps [simp del]

lemma blocks_put:
  "d < 52 \<Longrightarrow> blocks (put_bafh (Lie d) b ma) =
     {c \<in> blocks ma. snd c \<noteq> d} \<union> (\<lambda>s. (s, d)) ` set (af_frelst b)"
  by (auto simp: blocks_def split: if_splits)

lemma blocks_split_at:
  "d < 52 \<Longrightarrow> blocks ma = {c \<in> blocks ma. snd c \<noteq> d} \<union> (\<lambda>s. (s, d)) ` set (frel ma d)"
  by (auto simp: blocks_def)

lemma blocks_finite: "finite (blocks ma)"
proof -
  have "blocks ma = (\<Union>k \<in> {..<52}. (\<lambda>s. (s, k)) ` set (frel ma k))" by (auto simp: blocks_def)
  then show ?thesis by simp
qed

end
