(* ===== verification/PageAlloc_Steps.thy ===== *)
theory PageAlloc_Steps
  imports PageAlloc_Inv
begin

text \<open>
  The steps of an allocation (a block is taken from a list, split, marked) and of a release
  (a block is unmarked, merged with its neighbours, put on a list), each with its effect on
  the invariant, and the two loops.
\<close>

section \<open>Common facts\<close>

definition same_area :: "memarea_t \<Rightarrow> memarea_t \<Rightarrow> bool" where
  "same_area ma ma' \<longleftrightarrow> ma_type ma' = ma_type ma \<and> ma_freepages ma' = ma_freepages ma \<and>
     ma_maxpages ma' = ma_maxpages ma \<and> ma_allocpages ma' = ma_allocpages ma"

lemma same_area_trans: "same_area a b \<Longrightarrow> same_area b c \<Longrightarrow> same_area a c"
  by (simp add: same_area_def)

lemma same_area_put [simp]: "same_area ma (put_bafh r b ma)" "same_area ma ma"
  by (simp_all add: same_area_def)

lemma blocks_Lie: "(s, k) \<in> blocks ma \<longleftrightarrow> k < 52 \<and> s \<in> set (frel ma k)"
  by (simp add: blocks_def)

lemma frel_length:
  assumes ok: "area_ok ty mi N msa ma A H" and k: "k < 52"
  shows "length (frel ma k) \<le> 2 ^ 52"
proof -
  have "set (frel ma k) \<subseteq> {..<N}"
  proof
    fix s assume "s \<in> set (frel ma k)"
    then have "(s, k) \<in> blocks ma" using k by (simp add: blocks_Lie)
    then have "blk s k \<subseteq> {..<N}" using area_okD(6) [OF ok] by (force simp: bunion_def)
    then show "s \<in> {..<N}" using blk_mem(1) by blast
  qed
  then have "card (set (frel ma k)) \<le> N" using card_mono [of "{..<N}"] by simp
  moreover have "distinct (frel ma k)" using area_okD(1) [OF ok k] by (simp add: bafh_ok_def)
  ultimately show ?thesis using area_okD(7) [OF ok] by (simp add: distinct_card)
qed

lemma counter_unat:
  assumes ok: "area_ok ty mi N msa ma A H" and k: "k < 52"
  shows "unat (af_fobjnr (get_bafh ma (Lie k))) = length (frel ma k)"
    and "unat (af_mobjnr (get_bafh ma (Lie k))) = length (frel ma k)"
    and "af_fobjnr (get_bafh ma (Lie k)) < NOT 0" and "af_mobjnr (get_bafh ma (Lie k)) < NOT 0"
proof -
  have c: "af_fobjnr (get_bafh ma (Lie k)) = of_nat (length (frel ma k))"
    "af_mobjnr (get_bafh ma (Lie k)) = of_nat (length (frel ma k))"
    using area_okD(1) [OF ok k] by (simp_all add: bafh_ok_def)
  have l: "length (frel ma k) < 2 ^ 64" using frel_length [OF ok k] by simp
  show u: "unat (af_fobjnr (get_bafh ma (Lie k))) = length (frel ma k)"
    "unat (af_mobjnr (get_bafh ma (Lie k))) = length (frel ma k)"
    using l by (simp_all add: c unat_of_nat)
  have "unat (NOT 0 :: u64) = 2 ^ 64 - 1" by (simp add: unsigned_minus_1_eq_mask mask_eq_exp_minus_1)
  then show "af_fobjnr (get_bafh ma (Lie k)) < NOT 0" "af_mobjnr (get_bafh ma (Lie k)) < NOT 0"
    using u frel_length [OF ok k] by (simp_all add: word_less_nat_alt)
qed

lemma counter_zero:
  assumes "area_ok ty mi N msa ma A H" and "k < 52"
  shows "af_fobjnr (get_bafh ma (Lie k)) < 1 \<longleftrightarrow> frel ma k = []"
    and "af_mobjnr (get_bafh ma (Lie k)) < 1 \<longleftrightarrow> frel ma k = []"
    and "0 < af_fobjnr (get_bafh ma (Lie k)) \<longleftrightarrow> frel ma k \<noteq> []"
  using counter_unat(1,2) [OF assms] by (auto simp: word_less_nat_alt)

lemma oder_ok: "area_ok ty mi N msa ma A H \<Longrightarrow> k < 52 \<Longrightarrow> af_oderpnr (get_bafh ma (Lie k)) = 2 ^ k"
  using area_okD(1) by (simp add: bafh_ok_def)

lemma pow2_nz: "k < 64 \<Longrightarrow> (2 :: u64) ^ k \<noteq> 0"
  using unat_2p [of k] by force

lemma upd_msa_simps:
  "upd_msa i f msa i = f (msa i)" "j \<noteq> i \<Longrightarrow> upd_msa i f msa j = msa j"
  by (simp_all add: upd_msa_def)

text \<open>Only pages of the area are changed, and none leaves its area.\<close>

definition msa_frame :: "nat \<Rightarrow> msas \<Rightarrow> msas \<Rightarrow> bool" where
  "msa_frame ty msa msa' \<longleftrightarrow>
     (\<forall>i. mf_marty (msa' i) = mf_marty (msa i) \<and> (mf_marty (msa i) \<noteq> ty \<longrightarrow> msa' i = msa i))"

lemma msa_frame_trans: "msa_frame ty a b \<Longrightarrow> msa_frame ty b c \<Longrightarrow> msa_frame ty a c"
  by (simp add: msa_frame_def)

lemma msa_frame_refl [simp]: "msa_frame ty a a"
  by (simp add: msa_frame_def)

lemma pages_ok_marty: "pages_ok ty msa s k \<Longrightarrow> i \<in> blk s k \<Longrightarrow> mf_marty (msa i) = ty"
proof -
  assume a: "pages_ok ty msa s k" "i \<in> blk s k"
  then have "i - s < 2 ^ k" "s + (i - s) = i" by (auto simp: blk_def)
  then show ?thesis using a(1) unfolding pages_ok_def by metis
qed

lemma frame_blk:
  assumes "pages_ok ty msa s k" and "pages_ok ty msa' s k" and "\<And>i. i \<notin> blk s k \<Longrightarrow> msa' i = msa i"
  shows "msa_frame ty msa msa'"
  unfolding msa_frame_def using pages_ok_marty [OF assms(1)] pages_ok_marty [OF assms(2)] assms(3) by metis

lemma area_frame:
  assumes ok: "area_ok ty' mi' N msa ma A {}" and f: "msa_frame ty msa msa'" and ty: "ty' \<noteq> ty"
  shows "area_ok ty' mi' N msa' ma A {}"
proof (rule area_change [OF ok, where S = "{i. mf_marty (msa i) = ty}"])
  have pg: "pages_ok ty' msa (fst b) (snd b)" if "b \<in> blocks ma \<union> A" for b
    using that area_okD(2,3) [OF ok] by (auto simp: free_blk_def used_blk_def)
  have "bpages b \<inter> {i. mf_marty (msa i) = ty} = {}" if "b \<in> blocks ma \<union> A" for b
    using pages_ok_marty [OF pg [OF that]] ty by auto
  then show "b \<in> blocks ma \<Longrightarrow> b \<in> blocks ma \<and> bpages b \<inter> {i. mf_marty (msa i) = ty} = {} \<or> free_blk ty' mi' msa' (fst b) (snd b)"
    "b \<in> A \<Longrightarrow> b \<in> A \<and> bpages b \<inter> {i. mf_marty (msa i) = ty} = {} \<or> snd b < 52 \<and> used_blk ty' msa' (fst b) (snd b)" for b
    by blast+
qed (use f area_okD(1,4) [OF ok] in \<open>auto simp: msa_frame_def\<close>)

text \<open>The block in hand shares no page with the others.\<close>

lemma hand_apart:
  assumes ok: "area_ok ty mi N msa ma A {h}" and c: "c \<in> blocks ma \<union> A"
  shows "bpages c \<inter> bpages h = {}"
proof -
  have "h \<notin> blocks ma \<union> A" using area_okD(5) [OF ok] by simp
  then have "c \<noteq> h" using c by blast
  then show ?thesis using area_okD(4) [OF ok] c unfolding bdisj_def by blast
qed

section \<open>Taking a block from a list\<close>

lemma take_block:
  assumes ok: "area_ok ty mi N msa ma A {}" and d: "d < 52" and l: "frel ma d = st # rest"
  obtains ma' where "mm_retnmsaob_onbafhlst (Lie d) msa ma = (Some (st, Some (lastp st d)), ma')"
    and "area_ok ty mi N msa ma' A {(st, d)}" and "free_blk ty mi msa st d" and "same_area ma ma'"
    and "blocks ma = insert (st, d) (blocks ma')" and "(st, d) \<notin> blocks ma'"
proof -
  let ?b = "get_bafh ma (Lie d)"
  let ?ma = "put_bafh (Lie d) (?b\<lparr>af_frelst := rest, af_mobjnr := af_mobjnr ?b - 1, af_fobjnr := af_fobjnr ?b - 1,
      af_freindx := af_freindx ?b + 1\<rparr>) ma"
  have b: "bafh_ok ?b d" by (rule area_okD(1) [OF ok d])
  have free: "free_blk ty mi msa st d" using area_okD(2) [OF ok, of "(st, d)"] d l by (simp add: blocks_Lie)
  have bl: "blocks ?ma = {c \<in> blocks ma. snd c \<noteq> d} \<union> (\<lambda>s. (s, d)) ` set rest" using blocks_put [OF d] by simp
  have out: "(st, d) \<notin> blocks ?ma" unfolding bl using b l by (auto simp: bafh_ok_def)
  have ins: "blocks ma = insert (st, d) (blocks ?ma)"
    unfolding bl using blocks_split_at [OF d, of ma] l by auto
  have A: "(st, d) \<notin> A"
    using area_okD(3) [OF ok, of "(st, d)"] free_not_used [OF free] by auto
  have "mm_retnmsaob_onbafhlst (Lie d) msa ma = (Some (st, Some (lastp st d)), ?ma)"
    using counter_zero [OF ok d] l free
    by (cases "d = 0") (auto simp: mm_retnmsaob_onbafhlst_def Let_def free_blk_def free_link_def lastp_props)
  moreover have "area_ok ty mi N msa ?ma A {(st, d)}"
  proof (rule area_change [OF ok, where S = "{}"])
    fix k :: nat assume "k < 52"
    then show "bafh_ok (get_bafh ?ma (Lie k)) k"
      using area_okD(1) [OF ok] b l by (auto simp: bafh_ok_def)
  next
    have eq: "blocks ?ma \<union> A \<union> {(st, d)} = blocks ma \<union> A \<union> {}" using ins by auto
    show "bdisj (blocks ?ma \<union> A \<union> {(st, d)})" "bunion (blocks ?ma \<union> A \<union> {(st, d)}) \<subseteq> bunion (blocks ma \<union> A \<union> {})"
      unfolding eq using area_okD(4) [OF ok] by simp_all
    show "{(st, d)} \<inter> (blocks ?ma \<union> A) = {}" using out A by simp
  qed (use ins in auto)
  ultimately show thesis using that free ins out by simp
qed

section \<open>Splitting a block\<close>

lemma split_block:
  assumes ok: "area_ok ty mi N msa ma A {(st, Suc t)}" and t: "Suc t < 52" and h: "hand_blk ty msa st (Suc t)"
  obtains msa1 ma' where
    "mrdmb_add_msa_bafh mi (Lie t) (st + 2 ^ t) (as_msa (md_odlink (msa st))) msa ma = (True, msa1, ma')"
    and "area_ok ty mi N (upd_msa st (\<lambda>m. m\<lparr>md_odlink := OMsa (lastp st t)\<rparr>) msa1) ma' A {(st, t)}"
    and "hand_blk ty (upd_msa st (\<lambda>m. m\<lparr>md_odlink := OMsa (lastp st t)\<rparr>) msa1) st t"
    and "blocks ma' = insert (st + 2 ^ t, t) (blocks ma)" and "same_area ma ma'"
    and "msa_frame ty msa (upd_msa st (\<lambda>m. m\<lparr>md_odlink := OMsa (lastp st t)\<rparr>) msa1)"
proof -
  let ?u = "st + 2 ^ t" and ?e = "lastp st (Suc t)"
  have e: "lastp ?u t = ?e" by (rule lastp_upper)
  have ue: "?u \<in> blk st (Suc t)" "?e \<in> blk st (Suc t)" by (auto simp: blk_split(1) simp flip: e)
  have cl: "clear_ok msa (blk st (Suc t))" and pg: "pages_ok ty msa st (Suc t)"
    and lk: "mf_olkty (msa st) = MF_OLKTY_ODER" "md_odlink (msa st) = OMsa ?e"
    using h by (auto simp: hand_blk_def)
  have st: "st < ?u" "?u \<le> ?e" "st \<noteq> ?e" 
  proof -
    show "st < ?u" by simp
    show "?u \<le> ?e" using lastp_props(1) [of ?u t] e by simp
    then show "st \<noteq> ?e" using \<open>st < ?u\<close> by linarith
  qed
  let ?b = "get_bafh ma (Lie t)"
  let ?msa1 = "upd_msa ?e (\<lambda>m. m\<lparr>mf_olkty := MF_OLKTY_BAFH, md_odlink := OBafh mi (Lie t)\<rparr>)
      (upd_msa ?u (\<lambda>m. m\<lparr>mf_olkty := MF_OLKTY_ODER, md_odlink := OMsa ?e\<rparr>) msa)"
  let ?msa = "upd_msa st (\<lambda>m. m\<lparr>md_odlink := OMsa (lastp st t)\<rparr>) ?msa1"
  let ?ma = "put_bafh (Lie t) (?b\<lparr>af_frelst := ?u # af_frelst ?b, af_mobjnr := af_mobjnr ?b + 1,
      af_fobjnr := af_fobjnr ?b + 1\<rparr>) ma"
  have b: "bafh_ok ?b t" using area_okD(1) [OF ok] t by simp
  have nr: "msadiff ?e ?u + 1 = 2 ^ t" using msadiff_lastp [of ?u t] e by simp
  have "mrdmb_add_msa_bafh mi (Lie t) ?u (as_msa (md_odlink (msa st))) msa ma = (True, ?msa1, ?ma)"
    using lk b nr cl ue lastp_props(3) [of ?u t] e
    by (auto simp: mrdmb_add_msa_bafh_def Let_def bafh_ok_def clear_ok_def)
  moreover have "msa_frame ty msa ?msa"
  proof (rule frame_blk [OF pg])
    show "pages_ok ty ?msa st (Suc t)" using pg by (subst pages_ok_upd [of _ _ _ msa]) (auto simp: upd_msa_def)
    fix i assume "i \<notin> blk st (Suc t)"
    then have "i \<noteq> st" "i \<noteq> ?u" "i \<noteq> ?e" using ue by auto
    then show "?msa i = msa i" by (simp add: upd_msa_def)
  qed
  moreover have hand: "hand_blk ty ?msa st t"
  proof -
    have "pages_ok ty ?msa st t" using pg pages_ok_halves [of ty msa st t]
      by (subst pages_ok_upd [of _ _ _ msa]) (auto simp: upd_msa_def)
    moreover have "clear_ok ?msa (blk st t)"
      using cl by (auto simp: clear_ok_def upd_msa_def blk_split(1))
    ultimately show ?thesis using lk st by (simp add: hand_blk_def upd_msa_def)
  qed
  moreover have up: "free_blk ty mi ?msa ?u t"
  proof -
    have "pages_ok ty ?msa ?u t" using pg pages_ok_halves [of ty msa st t]
      by (subst pages_ok_upd [of _ _ _ msa]) (auto simp: upd_msa_def)
    moreover have "clear_ok ?msa (blk ?u t)"
      using cl by (auto simp: clear_ok_def upd_msa_def blk_split(1))
    moreover have "free_link mi ?msa ?u t"
      using st lastp_props(3) [of ?u t] e by (auto simp: free_link_def upd_msa_def)
    ultimately show ?thesis by (simp add: free_blk_def)
  qed
  have out: "(st, Suc t) \<notin> blocks ma \<union> A" using area_okD(5) [OF ok] by simp
  have disj: "(st, t) \<notin> blocks ma \<union> A" "(?u, t) \<notin> blocks ma \<union> A"
    "bdisj (insert (st, t) (insert (?u, t) (blocks ma \<union> A)))"
    using area_okD(4) [OF ok] bdisj_halves [OF out] by auto
  have bl: "blocks ?ma = insert (?u, t) (blocks ma)"
    using blocks_put [of t] blocks_split_at [of t ma] t by auto
  moreover have "area_ok ty mi N ?msa ?ma A {(st, t)}"
  proof (rule area_change [OF ok, where S = "blk st (Suc t)"])
    fix k :: nat assume "k < 52"
    then show "bafh_ok (get_bafh ?ma (Lie k)) k"
      using area_okD(1) [OF ok] b disj(2) t by (auto simp: bafh_ok_def blocks_Lie)
  next
    fix i assume "i \<notin> blk st (Suc t)"
    then have "i \<noteq> st" "i \<noteq> ?u" "i \<noteq> ?e" using ue by auto
    then show "?msa i = msa i" by (simp add: upd_msa_def)
  next
    have ap: "bpages c \<inter> blk st (Suc t) = {}" if "c \<in> blocks ma \<union> A" for c
      using hand_apart [OF ok that] by simp
    show "c \<in> blocks ?ma \<Longrightarrow> c \<in> blocks ma \<and> bpages c \<inter> blk st (Suc t) = {} \<or> free_blk ty mi ?msa (fst c) (snd c)" for c
      unfolding bl by (metis UnI1 ap fst_conv insertE snd_conv up)
    show "c \<in> A \<Longrightarrow> c \<in> A \<and> bpages c \<inter> blk st (Suc t) = {} \<or> snd c < 52 \<and> used_blk ty ?msa (fst c) (snd c)" for c
      using ap by blast
  next
    have "blocks ?ma \<union> A \<union> {(st, t)} = insert (st, t) (insert (?u, t) (blocks ma \<union> A))" unfolding bl by auto
    then show "bdisj (blocks ?ma \<union> A \<union> {(st, t)})" using disj(3) by simp
    show "{(st, t)} \<inter> (blocks ?ma \<union> A) = {}" unfolding bl using disj(1) by auto
    show "bunion (blocks ?ma \<union> A \<union> {(st, t)}) \<subseteq> bunion (blocks ma \<union> A \<union> {(st, Suc t)})"
      unfolding bl by (auto simp: bunion_def blk_split(1))
  qed
  ultimately show thesis using that by simp
qed

section \<open>Marking a block as allocated\<close>

lemma mark_block:
  assumes ok: "area_ok ty mi N msa ma A {(st, k)}" and k: "k < 52" and h: "hand_blk ty msa st k"
  obtains msa' where "mm_divpages_opmsadsc msa st (2 ^ k) = Some (Some st, msa')"
    and "area_ok ty mi N msa' ma (insert (st, k) A) {}" and "msa_frame ty msa msa'"
proof -
  let ?e = "lastp st k"
  have cl: "clear_ok msa (blk st k)" and pg: "pages_ok ty msa st k" using h by (auto simp: hand_blk_def)
  have u: "mf_uindx (msa st) = 0" "mf_uindx (msa ?e) = 0" "\<not> paf_alloc (msa st)" "\<not> paf_alloc (msa ?e)"
    using cl by (auto simp: clear_ok_def)
  have nz: "(2 :: u64) ^ k \<noteq> 0" using pow2_nz k by simp
  have le: "\<not> ?e < st" using lastp_props(1) [of st k] by simp
  define msa' where "msa' = (if st = ?e
     then upd_msa st (\<lambda>m. m\<lparr>mf_uindx := mf_uindx m + 1, paf_alloc := True,
                     mf_olkty := MF_OLKTY_ODER, md_odlink := OMsa ?e\<rparr>) msa
     else upd_msa st (\<lambda>m. m\<lparr>mf_olkty := MF_OLKTY_ODER, md_odlink := OMsa ?e\<rparr>)
       (upd_msa ?e (\<lambda>m. m\<lparr>mf_uindx := mf_uindx m + 1, paf_alloc := True\<rparr>)
         (upd_msa st (\<lambda>m. m\<lparr>mf_uindx := mf_uindx m + 1, paf_alloc := True\<rparr>) msa)))"
  have "mm_divpages_opmsadsc msa st (2 ^ k) = Some (Some st, msa')"
    using h u nz le msadiff_lastp [of st k] lastp_props(2,3) [of st k]
    by (auto simp: mm_divpages_opmsadsc_def Let_def hand_blk_def msa'_def MF_UINDX_MAX_def)
  moreover have same: "msa' i = msa i" if "i \<noteq> st" "i \<noteq> ?e" for i
    using that by (simp add: msa'_def upd_msa_def)
  have used: "used_blk ty msa' st k"
  proof -
    have "pages_ok ty msa' st k"
      using pg by (subst pages_ok_upd [of _ _ _ msa]) (auto simp: msa'_def upd_msa_def)
    moreover have "clear_ok msa' (blk st k - {st, ?e})"
      using cl by (auto simp: clear_ok_def same)
    ultimately show ?thesis using u by (auto simp: used_blk_def msa'_def upd_msa_def)
  qed
  moreover have "area_ok ty mi N msa' ma (insert (st, k) A) {}"
  proof (rule area_change [OF ok, where S = "blk st k"])
    fix i assume "i \<notin> blk st k"
    then show "msa' i = msa i" using same [of i] by fastforce
  next
    show "c \<in> blocks ma \<Longrightarrow> c \<in> blocks ma \<and> bpages c \<inter> blk st k = {} \<or> free_blk ty mi msa' (fst c) (snd c)" for c
      using hand_apart [OF ok, of c] by simp
    show "c \<in> insert (st, k) A \<Longrightarrow> c \<in> A \<and> bpages c \<inter> blk st k = {} \<or> snd c < 52 \<and> used_blk ty msa' (fst c) (snd c)" for c
      using hand_apart [OF ok, of c] used k by auto
  next
    have "blocks ma \<union> insert (st, k) A \<union> {} = blocks ma \<union> A \<union> {(st, k)}" by auto
    then show "bdisj (blocks ma \<union> insert (st, k) A \<union> {})"
      "bunion (blocks ma \<union> insert (st, k) A \<union> {}) \<subseteq> bunion (blocks ma \<union> A \<union> {(st, k)})"
      using area_okD(4) [OF ok] by simp_all
  qed (use area_okD(1) [OF ok] in auto)
  moreover have "msa_frame ty msa msa'"
    using pg used same by (intro frame_blk [of ty msa st k]) (simp_all add: used_blk_def, metis blk_mem)
  ultimately show thesis using that by blast
qed

section \<open>The splitting loop\<close>

lemma div_loop_ok:
  assumes "area_ok ty mi N msa ma A {(st, rel + n)}" and "rel + n < 52" and "hand_blk ty msa st (rel + n)"
  shows "\<exists>msa' ma'. div_loop mi rel n st (2 ^ (rel + n)) msa ma = Some (2 ^ rel, msa', ma') \<and>
    area_ok ty mi N msa' ma' A {(st, rel)} \<and> hand_blk ty msa' st rel \<and> same_area ma ma' \<and> msa_frame ty msa msa' \<and>
    bunion (blocks ma') \<union> blk st rel = bunion (blocks ma) \<union> blk st (rel + n)"
  using assms
proof (induction n arbitrary: msa ma)
  case 0
  then show ?case by auto
next
  case (Suc n)
  let ?t = "rel + n"
  have ok: "area_ok ty mi N msa ma A {(st, Suc ?t)}" and t: "Suc ?t < 52" and h: "hand_blk ty msa st (Suc ?t)"
    using Suc.prems by simp_all
  obtain msa1 ma' where s:
    "mrdmb_add_msa_bafh mi (Lie ?t) (st + 2 ^ ?t) (as_msa (md_odlink (msa st))) msa ma = (True, msa1, ma')"
    "area_ok ty mi N (upd_msa st (\<lambda>m. m\<lparr>md_odlink := OMsa (lastp st ?t)\<rparr>) msa1) ma' A {(st, ?t)}"
    "hand_blk ty (upd_msa st (\<lambda>m. m\<lparr>md_odlink := OMsa (lastp st ?t)\<rparr>) msa1) st ?t"
    "blocks ma' = insert (st + 2 ^ ?t, ?t) (blocks ma)" "same_area ma ma'"
    "msa_frame ty msa (upd_msa st (\<lambda>m. m\<lparr>md_odlink := OMsa (lastp st ?t)\<rparr>) msa1)"
    by (rule split_block [OF ok t h])
  from Suc.IH [OF s(2) _ s(3)] t obtain msa2 ma2 where r:
    "div_loop mi rel n st (2 ^ ?t) (upd_msa st (\<lambda>m. m\<lparr>md_odlink := OMsa (lastp st ?t)\<rparr>) msa1) ma' = Some (2 ^ rel, msa2, ma2)"
    "area_ok ty mi N msa2 ma2 A {(st, rel)}" "hand_blk ty msa2 st rel" "same_area ma' ma2"
    "msa_frame ty (upd_msa st (\<lambda>m. m\<lparr>md_odlink := OMsa (lastp st ?t)\<rparr>) msa1) msa2"
    "bunion (blocks ma2) \<union> blk st rel = bunion (blocks ma') \<union> blk st ?t" by auto
  have od: "af_oderpnr (get_bafh ma (Lie ?t)) = 2 ^ ?t" using oder_ok [OF ok] t by simp
  then have "unat (af_oderpnr (get_bafh ma (Lie ?t))) = 2 ^ ?t" using t by simp
  then have "div_loop mi rel (Suc n) st (2 ^ Suc ?t) msa ma = Some (2 ^ rel, msa2, ma2)"
    using s(1) r(1) od by (simp add: Let_def lastp_code)
  moreover have "bunion (blocks ma') \<union> blk st ?t = bunion (blocks ma) \<union> blk st (Suc ?t)"
    using s(4) blk_split(1) [of st ?t] by auto
  ultimately show ?case using r(2-6) same_area_trans [OF s(5) r(4)] msa_frame_trans [OF s(6) r(5)] by auto
qed

section \<open>Allocation in an area\<close>

definition free_pages :: "memarea_t \<Rightarrow> nat set" where
  "free_pages ma = bunion (blocks ma)"

text \<open>The order of a request and the first list from there that has a block.\<close>

definition fits :: "memarea_t \<Rightarrow> nat \<Rightarrow> nat \<Rightarrow> bool" where
  "fits ma d j \<longleftrightarrow> d \<le> j \<and> j < 52 \<and> frel ma j \<noteq> []"

lemma onmpgs_ok:
  assumes ok: "area_ok ty mi N msa ma A {}" and pg: "0 < pages" and d: "retn_divoder pages = int d" "unat pages \<le> 2 ^ d"
  shows "(\<exists>j. fits ma d j) \<Longrightarrow> \<exists>j. onmpgs_retn_bafhlst ma pages = Some (d, j) \<and> fits ma d j"
    and "\<not> (\<exists>j. fits ma d j) \<Longrightarrow> onmpgs_retn_bafhlst ma pages = None"
proof -
  let ?P = "\<lambda>idx. af_oderpnr (get_bafh ma (Lie idx)) \<ge> pages \<and> af_fobjnr (get_bafh ma (Lie idx)) > 0"
  have nl: "\<not> pages < 1" using pg by (metis word_less_1 word_not_simps(1))
  have le: "pages \<le> 2 ^ k" if "d \<le> k" "k < 52" for k
  proof -
    have "(2::nat) ^ d \<le> 2 ^ k" using that by simp
    then show ?thesis using order_trans [OF d(2)] that(2) by (simp add: word_le_nat_alt)
  qed
  have P: "?P idx \<longleftrightarrow> frel ma idx \<noteq> []" if "d \<le> idx" "idx < 52" for idx
    using oder_ok [OF ok that(2)] counter_zero(3) [OF ok that(2)] le [OF that] by simp
  have res: "onmpgs_retn_bafhlst ma pages =
      (if d \<ge> 52 then None else case find ?P [d..<52] of None \<Rightarrow> None | Some idx \<Rightarrow> Some (d, idx))"
    using nl d(1) oder_ok [OF ok, of d] le [of d]
    by (cases "d < 52") (auto simp: onmpgs_retn_bafhlst_def Let_def MDIVMER_ARR_LMAX_def not_less split: option.split)
  show "\<exists>j. onmpgs_retn_bafhlst ma pages = Some (d, j) \<and> fits ma d j" if ex: "\<exists>j. fits ma d j"
  proof -
    obtain j where j: "d \<le> j" "j < 52" "frel ma j \<noteq> []" using ex by (auto simp: fits_def)
    then have "find ?P [d..<52] \<noteq> None" using P by (auto simp: find_None_iff)
    then obtain i where i: "find ?P [d..<52] = Some i" by blast
    then have "i \<in> set [d..<52]" "?P i" by (auto simp: find_Some_iff)
    then show ?thesis using res i j P [of i] by (auto simp: fits_def)
  qed
  show "onmpgs_retn_bafhlst ma pages = None" if "\<not> (\<exists>j. fits ma d j)"
  proof (cases "d \<ge> 52")
    case False
    have "find ?P [d..<52] = None" using that P by (auto simp: find_None_iff fits_def)
    then show ?thesis using res by simp
  qed (use res in simp)
qed

text \<open>A block is taken from the list found, split down to the order asked for, and marked.\<close>

lemma reldpgsdivmsa_ok:
  assumes ok: "area_ok ty mi N msa ma A {}" and pg: "0 < pages" and j: "fits ma d j"
  shows "\<exists>st msa' ma'. mm_reldpgsdivmsa_bafhl mi pages d j msa ma = Some (Some st, 2 ^ d, msa', ma') \<and>
    area_ok ty mi N msa' ma' (insert (st, d) A) {} \<and> same_area ma ma' \<and> msa_frame ty msa msa' \<and>
    blk st d \<subseteq> free_pages ma \<and> free_pages ma' = free_pages ma - blk st d"
proof -
  have nl: "\<not> pages < 1" using pg by (metis word_less_1 word_not_simps(1))
  have jl: "d \<le> j" "j < 52" "d < 52" using j by (auto simp: fits_def)
  obtain st rest where l: "frel ma j = st # rest" using j by (cases "frel ma j") (auto simp: fits_def)
  obtain ma1 where t: "mm_retnmsaob_onbafhlst (Lie j) msa ma = (Some (st, Some (lastp st j)), ma1)"
    "area_ok ty mi N msa ma1 A {(st, j)}" "free_blk ty mi msa st j" "same_area ma ma1"
    "blocks ma = insert (st, j) (blocks ma1)" "(st, j) \<notin> blocks ma1"
    by (rule take_block [OF ok jl(2) l])
  have h: "hand_blk ty msa st j" by (rule free_hand [OF t(3)])
  have od: "af_oderpnr (get_bafh ma1 (Lie k)) = 2 ^ k" if "k < 52" for k by (rule oder_ok [OF t(2) that])
  from div_loop_ok [of ty mi N msa ma1 A st d "j - d"] t(2) h jl obtain msa2 ma2 where s:
    "div_loop mi d (j - d) st (2 ^ j) msa ma1 = Some (2 ^ d, msa2, ma2)" "area_ok ty mi N msa2 ma2 A {(st, d)}"
    "hand_blk ty msa2 st d" "same_area ma1 ma2" "msa_frame ty msa msa2" "bunion (blocks ma2) \<union> blk st d = bunion (blocks ma1) \<union> blk st j"
    by auto
  obtain msa3 where m: "mm_divpages_opmsadsc msa2 st (2 ^ d) = Some (Some st, msa3)"
    "area_ok ty mi N msa3 ma2 (insert (st, d) A) {}" "msa_frame ty msa2 msa3"
    by (rule mark_block [OF s(2) jl(3) s(3)])
  have od2: "af_oderpnr (get_bafh ma2 (Lie d)) = 2 ^ d" by (rule oder_ok [OF s(2) jl(3)])
  have nr: "msadiff (lastp st j) st + 1 = af_oderpnr (get_bafh ma1 (Lie j))"
    using msadiff_lastp [of st j] od [OF jl(2)] by simp
  have "mm_reldpgsdivmsa_bafhl mi pages d j msa ma = Some (Some st, 2 ^ d, msa3, ma2)"
  proof (cases "d = j")
    case True
    then have "msa2 = msa" "ma2 = ma1" using s(1) by simp_all
    then show ?thesis using True nl t(1) nr m(1) od [OF jl(2)] by (simp add: mm_reldpgsdivmsa_bafhl_def)
  next
    case False
    then show ?thesis using jl nl t(1) nr m(1) s(1) od [OF jl(2)] od2
      by (simp add: mm_reldpgsdivmsa_bafhl_def)
  qed
  moreover have pgs: "free_pages ma2 \<union> blk st d = free_pages ma" using s(6) t(5) by (auto simp: free_pages_def)
  moreover have "free_pages ma2 \<inter> blk st d = {}"
    using hand_apart [OF s(2)] by (fastforce simp: free_pages_def bunion_def)
  ultimately show ?thesis using m(2) same_area_trans [OF t(4) s(4)] msa_frame_trans [OF s(5) m(3)] by (intro exI conjI) auto
qed

lemma reldivpages_ok:
  assumes ok: "area_ok ty mi N msa ma A {}" and d: "retn_divoder pages = int d" "unat pages \<le> 2 ^ d"
    and sc: "scan_mapgsalloc_ok ma pages" and j: "\<exists>j. fits ma d j"
  shows "\<exists>st msa' ma'. mm_reldivpages_onmarea mi pages msa ma = Some (Some st, 2 ^ d, msa', ma') \<and>
    area_ok ty mi N msa' ma' (insert (st, d) A) {} \<and> same_area ma ma' \<and> msa_frame ty msa msa' \<and>
    blk st d \<subseteq> free_pages ma \<and> free_pages ma' = free_pages ma - blk st d"
proof -
  have nl: "\<not> pages < 1" using sc by (simp add: scan_mapgsalloc_ok_def)
  then have pg: "0 < pages" by (metis word_less_1 word_gt_0)
  obtain i where i: "onmpgs_retn_bafhlst ma pages = Some (d, i)" "fits ma d i"
    using onmpgs_ok(1) [OF ok pg d j] by blast
  then show ?thesis using nl sc reldpgsdivmsa_ok [OF ok pg i(2)] by (simp add: mm_reldivpages_onmarea_def)
qed

lemma reldivpages_none:
  assumes ok: "area_ok ty mi N msa ma A {}" and d: "retn_divoder pages = int d" "unat pages \<le> 2 ^ d"
    and no: "\<not> scan_mapgsalloc_ok ma pages \<or> \<not> (\<exists>j. fits ma d j)"
  shows "mm_reldivpages_onmarea mi pages msa ma = Some (None, 0, msa, ma)"
proof (cases "scan_mapgsalloc_ok ma pages")
  case True
  then have "\<not> pages < 1" by (simp add: scan_mapgsalloc_ok_def)
  then have "0 < pages" by (metis word_less_1 word_gt_0)
  then show ?thesis using onmpgs_ok(2) [OF ok _ d] no True by (simp add: mm_reldivpages_onmarea_def)
qed (simp add: mm_reldivpages_onmarea_def)

section \<open>Unmarking a block\<close>

lemma unmark_block:
  assumes ok: "area_ok ty mi N msa ma A {}" and A: "(s, k) \<in> A"
  obtains msa' where "mm_merpages_opmsadsc mi (Lie k) (2 ^ k) msa s (2 ^ k) = Some (2, msa')"
    and "area_ok ty mi N msa' ma (A - {(s, k)}) {(s, k)}" and "free_blk ty mi msa' s k"
    and "msa_frame ty msa msa'"
proof -
  let ?e = "lastp s k"
  have k: "k < 52" and u: "used_blk ty msa s k" using area_okD(3) [OF ok A] by simp_all
  have nz: "\<not> (2 :: u64) ^ k < 1" using pow2_nz [of k] k by simp
  have le: "\<not> ?e < s" using lastp_props(1) [of s k] by simp
  define msa' where "msa' = (if s = ?e
     then upd_msa s (\<lambda>m. m\<lparr>paf_alloc := False, mf_olkty := MF_OLKTY_BAFH, md_odlink := OBafh mi (Lie k)\<rparr>)
       (upd_msa s (\<lambda>m. m\<lparr>mf_uindx := mf_uindx m - 1\<rparr>) msa)
     else upd_msa ?e (\<lambda>m. m\<lparr>mf_olkty := MF_OLKTY_BAFH, md_odlink := OBafh mi (Lie k)\<rparr>)
       (upd_msa s (\<lambda>m. m\<lparr>mf_olkty := MF_OLKTY_ODER, md_odlink := OMsa ?e\<rparr>)
         (upd_msa ?e (\<lambda>m. m\<lparr>paf_alloc := False\<rparr>) (upd_msa s (\<lambda>m. m\<lparr>paf_alloc := False\<rparr>)
           (upd_msa ?e (\<lambda>m. m\<lparr>mf_uindx := mf_uindx m - 1\<rparr>) (upd_msa s (\<lambda>m. m\<lparr>mf_uindx := mf_uindx m - 1\<rparr>) msa))))))"
  have "mm_merpages_opmsadsc mi (Lie k) (2 ^ k) msa s (2 ^ k) = Some (2, msa')"
    using u nz le msadiff_lastp [of s k]
    by (auto simp: mm_merpages_opmsadsc_def Let_def used_blk_def msa'_def upd_msa_simps)
  moreover have same: "msa' i = msa i" if "i \<noteq> s" "i \<noteq> ?e" for i
    using that by (simp add: msa'_def upd_msa_def)
  have fr: "free_blk ty mi msa' s k"
  proof -
    have "pages_ok ty msa' s k"
      using u by (subst pages_ok_upd [of _ _ _ msa]) (auto simp: msa'_def upd_msa_def used_blk_def)
    moreover have "clear_ok msa' (blk s k)" unfolding clear_ok_def
    proof
      fix i assume i: "i \<in> blk s k"
      show "mf_uindx (msa' i) = 0 \<and> \<not> paf_alloc (msa' i)"
        using u i same [of i] by (cases "i = s \<or> i = ?e") (auto simp: msa'_def upd_msa_def used_blk_def clear_ok_def)
    qed
    moreover have "free_link mi msa' s k"
      using lastp_props(3) [of s k] by (auto simp: free_link_def msa'_def upd_msa_def)
    ultimately show ?thesis by (simp add: free_blk_def)
  qed
  have nf: "(s, k) \<notin> blocks ma"
    using area_okD(2) [OF ok, of "(s, k)"] u free_not_used by auto
  have ap: "bpages c \<inter> blk s k = {}" if "c \<in> blocks ma \<union> (A - {(s, k)})" for c
    using area_okD(4) [OF ok] A that nf unfolding bdisj_def by (metis DiffE UnE UnI1 UnI2 fst_conv insertI1 snd_conv)
  have "area_ok ty mi N msa' ma (A - {(s, k)}) {(s, k)}"
  proof (rule area_change [OF ok, where S = "blk s k"])
    fix i assume "i \<notin> blk s k"
    then show "msa' i = msa i" using same [of i] by fastforce
  next
    have "blocks ma \<union> (A - {(s, k)}) \<union> {(s, k)} = blocks ma \<union> A \<union> {}" using A by auto
    then show "bdisj (blocks ma \<union> (A - {(s, k)}) \<union> {(s, k)})"
      "bunion (blocks ma \<union> (A - {(s, k)}) \<union> {(s, k)}) \<subseteq> bunion (blocks ma \<union> A \<union> {})"
      using area_okD(4) [OF ok] by simp_all
    show "{(s, k)} \<inter> (blocks ma \<union> (A - {(s, k)})) = {}" using nf by simp
  qed (use area_okD(1) [OF ok] ap in auto)
  moreover have "msa_frame ty msa msa'"
    using u fr same by (intro frame_blk [of ty msa s k]) (simp_all add: used_blk_def free_blk_def, metis blk_mem)
  ultimately show thesis using that [OF _ _ fr] by blast
qed

end
