(* ===== verification/PageAlloc_Free.thy ===== *)
theory PageAlloc_Free
  imports PageAlloc_Steps
begin

text \<open>
  Releasing a block: it is merged with an adjacent block of the same size as long as there
  is one, and put on the list of its final size.
\<close>

section \<open>Adjacent blocks\<close>

lemma cmsa1_ok:
  assumes "free_blk ty mi msa s k"
  shows "mm_cmsa1blk_isok mi (Lie k) msa s (lastp s k) = 2"
proof -
  have l: "free_link mi msa s k" and c: "clear_ok msa (blk s k)" and p: "pages_ok ty msa s k"
    using assms by (simp_all add: free_blk_def)
  have less: "2 ^ k - 1 < (2 :: nat) ^ k" by simp
  have "paf_padrs (msa (lastp s k)) = paf_padrs (msa s) + of_nat (2 ^ k - 1)"
    using p less unfolding pages_ok_def lastp_def by blast
  then have "paf_padrs (msa (lastp s k)) - paf_padrs (msa s) = msadiff (lastp s k) s"
    by (simp add: msadiff_lastp')
  then show ?thesis using l c lastp_props(1-3) [of s k]
    by (cases "k = 0") (auto simp: mm_cmsa1blk_isok_def free_link_def clear_ok_def)
qed

text \<open>The block at \<open>t\<close> follows the block at \<open>s\<close>, with frame numbers that follow too.\<close>

definition follows :: "msas \<Rightarrow> nat \<Rightarrow> nat \<Rightarrow> nat \<Rightarrow> bool" where
  "follows msa k s t \<longleftrightarrow> t = s + 2 ^ k \<and> paf_padrs (msa (lastp s k)) + 1 = paf_padrs (msa t)"

lemma cmsa2_ok:
  assumes s: "free_blk ty mi msa s k" and t: "free_blk ty mi msa t k" and d: "blk s k \<inter> blk t k = {}"
  shows "mm_cmsa2blk_isok mi (Lie k) msa s (lastp s k) t (lastp t k) =
    Some (if follows msa k s t then 2 else if follows msa k t s then 4 else 1)"
proof -
  note ne = blk_order(1) [OF d] and l = lastp_inj [of s k t] lastp_inj [of t k s]
  have "lastp s k + 1 = t \<longleftrightarrow> t = s + 2 ^ k" "lastp t k + 1 = s \<longleftrightarrow> s = t + 2 ^ k"
    using lastp_upper(2) [of s k] lastp_upper(2) [of t k] by auto
  then show ?thesis using ne l cmsa1_ok [OF s] cmsa1_ok [OF t]
    by (cases "s < t") (auto simp: mm_cmsa2blk_isok_def follows_def)
qed

text \<open>What the search loop finds.\<close>

definition search_result :: "msas \<Rightarrow> nat \<Rightarrow> nat \<Rightarrow> nat list \<Rightarrow> nat \<Rightarrow> nat \<Rightarrow> bool" where
  "search_result msa k s l r t \<longleftrightarrow>
     r = 2 \<and> t \<in> set l \<and> follows msa k s t \<or> r = 4 \<and> t \<in> set l \<and> follows msa k t s \<or>
     r \<le> 1 \<and> (\<forall>t \<in> set l. \<not> follows msa k s t \<and> \<not> follows msa k t s)"

lemma find_adjacent_ok:
  assumes s: "free_blk ty mi msa s k"
    and l: "\<And>t. t \<in> set l \<Longrightarrow> free_blk ty mi msa t k \<and> blk s k \<inter> blk t k = {}" and r: "r0 \<le> 1"
  shows "\<exists>r t. find_adjacent mi (Lie k) (2 ^ k) msa s (lastp s k) l r0 = Some (r, t) \<and> search_result msa k s l r t"
  using l r
proof (induction l arbitrary: r0)
  case Nil
  then show ?case by (auto simp: search_result_def)
next
  case (Cons t l)
  have c: "mm_cmsa2blk_isok mi (Lie k) msa s (lastp s k) t (t + 2 ^ k - 1) =
      Some (if follows msa k s t then 2 else if follows msa k t s then 4 else 1)"
    using cmsa2_ok [OF s] Cons.prems(1) by (simp add: lastp_code)
  show ?case
  proof (cases "follows msa k s t \<or> follows msa k t s")
    case True
    then show ?thesis using c by (auto simp: search_result_def)
  next
    case False
    obtain r u where "find_adjacent mi (Lie k) (2 ^ k) msa s (lastp s k) l 1 = Some (r, u)" "search_result msa k s l r u"
      using Cons.IH [of 1] Cons.prems(1) by auto
    then show ?thesis using False c by (auto simp: search_result_def)
  qed
qed

section \<open>Joining two blocks\<close>

lemma join_blocks:
  assumes lo: "free_blk ty mi msa s k" and hi: "free_blk ty mi msa (s + 2 ^ k) k" and f: "follows msa k s (s + 2 ^ k)"
  obtains msa' where "mm_clear_2msaolflg mi (Lie (Suc k)) s (lastp s k) (s + 2 ^ k) (lastp s (Suc k)) msa = (True, msa')"
    and "chek_cl2molkflg mi (Lie (Suc k)) (2 ^ Suc k) msa' s (lastp s k) (s + 2 ^ k) (lastp s (Suc k))"
    and "free_blk ty mi msa' s (Suc k)" and "\<And>i. i \<notin> blk s (Suc k) \<Longrightarrow> msa' i = msa i"
proof -
  let ?u = "s + 2 ^ k" and ?e = "lastp s (Suc k)" and ?m = "lastp s k"
  let ?msa = "upd_msa ?e (\<lambda>m. m\<lparr>mf_olkty := MF_OLKTY_BAFH, md_odlink := OBafh mi (Lie (Suc k))\<rparr>)
      (upd_msa s (\<lambda>m. m\<lparr>mf_olkty := MF_OLKTY_ODER, md_odlink := OMsa ?e\<rparr>)
        (upd_msa ?u (\<lambda>m. m\<lparr>mf_olkty := MF_OLKTY_INIT, md_odlink := ONull\<rparr>)
          (upd_msa ?m (\<lambda>m. m\<lparr>mf_olkty := MF_OLKTY_INIT, md_odlink := ONull\<rparr>) msa)))"
  have e: "lastp ?u k = ?e" by (rule lastp_upper)
  have mem: "s \<in> blk s (Suc k)" "?u \<in> blk s (Suc k)" "?m \<in> blk s (Suc k)" "?e \<in> blk s (Suc k)"
    by (auto simp: blk_split(1) simp flip: e)
  have ord: "s \<le> ?m" "?m < ?u" "?u \<le> ?e" "s = ?m \<longleftrightarrow> k = 0" "?u = ?e \<longleftrightarrow> k = 0"
    using lastp_props(1-3) [of s k] lastp_upper(2) [of s k] lastp_props(1-3) [of ?u k] e by auto
  have "mm_clear_2msaolflg mi (Lie (Suc k)) s ?m ?u ?e msa = (True, ?msa)"
    using ord by (auto simp: mm_clear_2msaolflg_def Let_def)
  moreover have "chek_cl2molkflg mi (Lie (Suc k)) (2 ^ Suc k) ?msa s ?m ?u ?e"
    using ord msadiff_lastp [of s "Suc k"] by (cases "k = 0") (auto simp: chek_cl2molkflg_def upd_msa_def)
  moreover have "free_blk ty mi ?msa s (Suc k)"
  proof -
    have "pages_ok ty msa s (Suc k)" using lo hi f by (simp add: pages_ok_halves free_blk_def follows_def)
    then have "pages_ok ty ?msa s (Suc k)" by (subst pages_ok_upd [of _ _ _ msa]) (auto simp: upd_msa_def)
    moreover have "clear_ok ?msa (blk s (Suc k))"
      using lo hi by (auto simp: clear_ok_def upd_msa_def blk_split(1) free_blk_def)
    moreover have "free_link mi ?msa s (Suc k)" using ord by (auto simp: free_link_def upd_msa_def)
    ultimately show ?thesis by (simp add: free_blk_def)
  qed
  moreover have "?msa i = msa i" if "i \<notin> blk s (Suc k)" for i
  proof -
    have "i \<noteq> s" "i \<noteq> ?u" "i \<noteq> ?m" "i \<noteq> ?e" using that mem by auto
    then show ?thesis by (simp add: upd_msa_def)
  qed
  ultimately show thesis using that by blast
qed

text \<open>Two free blocks, one in hand and one on its list, become one block in hand.\<close>

lemma join_area:
  assumes ok: "area_ok ty mi N msa ma A {(h, k)}" and k: "Suc k < 52" and t: "t \<in> set (frel ma k)"
    and st: "s = h \<and> s + 2 ^ k = t \<or> s = t \<and> s + 2 ^ k = h"
    and fr: "free_blk ty mi msa' s (Suc k)" and same: "\<And>i. i \<notin> blk s (Suc k) \<Longrightarrow> msa' i = msa i"
    and b: "b = get_bafh ma (Lie k)"
    and ma': "ma' = put_bafh (Lie k) (b\<lparr>af_frelst := remove1 t (af_frelst b), af_fobjnr := af_fobjnr b - 1,
                                      af_mobjnr := af_mobjnr b - 1\<rparr>) ma"
  shows "area_ok ty mi N msa' ma' A {(s, Suc k)}"
    and "bunion (blocks ma') \<union> blk s (Suc k) = bunion (blocks ma) \<union> blk h k"
proof -
  have bo: "bafh_ok b k" using area_okD(1) [OF ok] k b by simp
  have kl: "k < 52" using k by simp
  have bl: "blocks ma' = blocks ma - {(t, k)}"
    unfolding ma' blocks_put [OF kl] using bo b blocks_split_at [OF kl, of ma]
    by (auto simp: bafh_ok_def)
  have tb: "(t, k) \<in> blocks ma" using t kl by (simp add: blocks_Lie)
  have hn: "(h, k) \<notin> blocks ma \<union> A" using area_okD(5) [OF ok] by simp
  have tA: "(t, k) \<notin> A"
    using area_okD(2) [OF ok tb] area_okD(3) [OF ok, of "(t, k)"] free_not_used by auto
  obtain n where n: "length (frel ma k) = Suc n" using t by (cases "frel ma k") auto
  then have n': "length (remove1 t (frel ma k)) = n" using t by (simp add: length_remove1)
  let ?B = "blocks ma' \<union> A"
  have eq: "insert (s, k) (insert (s + 2 ^ k, k) ?B) = blocks ma \<union> A \<union> {(h, k)}"
    unfolding bl using st tb by auto
  have nin: "(s, k) \<notin> ?B" "(s + 2 ^ k, k) \<notin> ?B" unfolding bl using st hn tA by auto
  have dj: "bdisj (insert (s, k) (insert (s + 2 ^ k, k) ?B))" unfolding eq by (rule area_okD(4) [OF ok])
  have out: "(s, Suc k) \<notin> ?B"
  proof
    assume i: "(s, Suc k) \<in> ?B"
    have "bpages (s, Suc k) \<inter> bpages (s, k) = {}"
      using dj i unfolding bdisj_def by (metis insertCI n_not_Suc_n prod.inject)
    then show False using blk_mem(1) by (metis IntI empty_iff fst_conv snd_conv)
  qed
  have un: "blk s (Suc k) \<union> bunion ?B = bunion (blocks ma \<union> A \<union> {(h, k)})"
    unfolding eq [symmetric] by (auto simp: blk_split(1))
  have dis: "bdisj (insert (s, Suc k) ?B)" using bdisj_halves [OF out] nin dj by simp
  then have ap: "bpages c \<inter> blk s (Suc k) = {}" if "c \<in> ?B" for c
    using that bdisj_insert [OF out] by (fastforce simp: bunion_def)
  show "area_ok ty mi N msa' ma' A {(s, Suc k)}"
  proof (rule area_change [OF ok, where S = "blk s (Suc k)"])
    fix j :: nat assume "j < 52"
    then show "bafh_ok (get_bafh ma' (Lie j)) j"
      using area_okD(1) [OF ok] bo b n n' by (auto simp: bafh_ok_def ma')
  next
    show "bdisj (blocks ma' \<union> A \<union> {(s, Suc k)})" using dis by simp
    show "bunion (blocks ma' \<union> A \<union> {(s, Suc k)}) \<subseteq> bunion (blocks ma \<union> A \<union> {(h, k)})" using un by auto
    show "{(s, Suc k)} \<inter> (blocks ma' \<union> A) = {}" using out by simp
    show "c \<in> blocks ma' \<Longrightarrow> c \<in> blocks ma \<and> bpages c \<inter> blk s (Suc k) = {} \<or> free_blk ty mi msa' (fst c) (snd c)" for c
      using ap [of c] bl by blast
    show "c \<in> A \<Longrightarrow> c \<in> A \<and> bpages c \<inter> blk s (Suc k) = {} \<or> snd c < 52 \<and> used_blk ty msa' (fst c) (snd c)" for c
      using ap [of c] by blast
  qed (use same in blast)
  have "blocks ma = insert (t, k) (blocks ma')" unfolding bl using tb by auto
  then show "bunion (blocks ma') \<union> blk s (Suc k) = bunion (blocks ma) \<union> blk h k"
    using st by (auto simp: blk_split(1))
qed

text \<open>One step of the merging loop.\<close>

lemma merge_step:
  assumes ok: "area_ok ty mi N msa ma A {(h, k)}" and k: "Suc k < 52" and h: "free_blk ty mi msa h k"
  shows "mm_find_cmsa2blk mi k h (lastp h k) msa ma = Some (1, h, lastp h k, msa, ma) \<and>
      (\<forall>t \<in> set (frel ma k). \<not> follows msa k h t \<and> \<not> follows msa k t h) \<or>
    (\<exists>s msa' ma'. mm_find_cmsa2blk mi k h (lastp h k) msa ma = Some (2, s, lastp s (Suc k), msa', ma') \<and>
      area_ok ty mi N msa' ma' A {(s, Suc k)} \<and> free_blk ty mi msa' s (Suc k) \<and> same_area ma ma' \<and> msa_frame ty msa msa' \<and>
      bunion (blocks ma') \<union> blk s (Suc k) = bunion (blocks ma) \<union> blk h k)"
proof (cases "frel ma k = []")
  case True
  then show ?thesis using counter_zero(1) [OF ok, of k] k by (simp add: mm_find_cmsa2blk_def Let_def)
next
  case False
  have kl: "k < 52" using k by simp
  have nz: "\<not> af_fobjnr (get_bafh ma (Lie k)) < 1" using counter_zero(1) [OF ok kl] False by simp
  have od: "unat (af_oderpnr (get_bafh ma (Lie k))) = 2 ^ k" using oder_ok [OF ok kl] k by simp
  have od': "af_oderpnr (get_bafh ma (Lie (Suc k))) = 2 ^ Suc k" using oder_ok [OF ok k] by simp
  have fr: "free_blk ty mi msa t k" "blk h k \<inter> blk t k = {}" if "t \<in> set (frel ma k)" for t
    using that kl area_okD(2) [OF ok, of "(t, k)"] hand_apart [OF ok, of "(t, k)"] by (auto simp: blocks_Lie)
  obtain r t where r: "find_adjacent mi (Lie k) (2 ^ k) msa h (lastp h k) (frel ma k) 0 = Some (r, t)"
    "search_result msa k h (frel ma k) r t"
    using find_adjacent_ok [OF h, of "frel ma k" 0] fr by auto
  define ma' where "ma' = put_bafh (Lie k) ((get_bafh ma (Lie k))\<lparr>af_frelst := remove1 t (frel ma k),
      af_fobjnr := af_fobjnr (get_bafh ma (Lie k)) - 1, af_mobjnr := af_mobjnr (get_bafh ma (Lie k)) - 1\<rparr>) ma"
  have sm: "same_area ma ma'" by (simp add: ma'_def)
  have od2: "af_oderpnr (get_bafh ma' (Lie (Suc k))) = 2 ^ Suc k" using od' by (simp add: ma'_def)
  have frm: "msa_frame ty msa msa'" if "free_blk ty mi msa u k" "free_blk ty mi msa (u + 2 ^ k) k" "follows msa k u (u + 2 ^ k)"
      "free_blk ty mi msa' u (Suc k)" "\<And>i. i \<notin> blk u (Suc k) \<Longrightarrow> msa' i = msa i" for u msa'
    using that by (intro frame_blk [of ty msa u "Suc k"]) (simp_all add: free_blk_def follows_def pages_ok_halves)
  from r(2) consider (up) "r = 2" "t \<in> set (frel ma k)" "follows msa k h t"
    | (down) "r = 4" "t \<in> set (frel ma k)" "follows msa k t h"
    | (none) "r \<le> 1" "\<forall>t \<in> set (frel ma k). \<not> follows msa k h t \<and> \<not> follows msa k t h"
    unfolding search_result_def by blast
  then show ?thesis
  proof cases
    case up
    then have t: "t = h + 2 ^ k" by (simp add: follows_def)
    have e: "lastp t k = lastp h (Suc k)" unfolding t by (rule lastp_upper)
    obtain msa' where j: "mm_clear_2msaolflg mi (Lie (Suc k)) h (lastp h k) (h + 2 ^ k) (lastp h (Suc k)) msa = (True, msa')"
      "chek_cl2molkflg mi (Lie (Suc k)) (2 ^ Suc k) msa' h (lastp h k) (h + 2 ^ k) (lastp h (Suc k))"
      "free_blk ty mi msa' h (Suc k)" "\<And>i. i \<notin> blk h (Suc k) \<Longrightarrow> msa' i = msa i"
      by (rule join_blocks [OF h, of]) (use fr(1) [OF up(2)] up(3) t in auto)
    have "mm_find_cmsa2blk mi k h (lastp h k) msa ma = Some (2, h, lastp h (Suc k), msa', ma')"
      using nz od r(1) up(1) j(1,2) t e od2 by (simp add: mm_find_cmsa2blk_def Let_def lastp_code ma'_def)
    moreover note join_area [OF ok k up(2) _ j(3,4) refl ma'_def]
    ultimately show ?thesis using t j(3) sm frm [OF h _ _ j(3,4)] fr(1) [OF up(2)] up(3) by auto
  next
    case down
    then have t: "h = t + 2 ^ k" by (simp add: follows_def)
    have e: "lastp h k = lastp t (Suc k)" unfolding t by (rule lastp_upper)
    obtain msa' where j: "mm_clear_2msaolflg mi (Lie (Suc k)) t (lastp t k) (t + 2 ^ k) (lastp t (Suc k)) msa = (True, msa')"
      "chek_cl2molkflg mi (Lie (Suc k)) (2 ^ Suc k) msa' t (lastp t k) (t + 2 ^ k) (lastp t (Suc k))"
      "free_blk ty mi msa' t (Suc k)" "\<And>i. i \<notin> blk t (Suc k) \<Longrightarrow> msa' i = msa i"
      by (rule join_blocks [OF fr(1) [OF down(2)]]) (use h down(3) t in auto)
    have "mm_find_cmsa2blk mi k h (lastp h k) msa ma = Some (2, t, lastp t (Suc k), msa', ma')"
      using nz od r(1) down(1) j(1,2) t e od2 by (simp add: mm_find_cmsa2blk_def Let_def lastp_code ma'_def)
    moreover note join_area [OF ok k down(2) _ j(3,4) refl ma'_def]
    ultimately show ?thesis using t j(3) sm frm [OF fr(1) [OF down(2)] _ _ j(3,4)] h down(3) by auto
  next
    case none
    then show ?thesis using nz od r(1) by (auto simp: mm_find_cmsa2blk_def Let_def)
  qed
qed

section \<open>The merging loop and the list at its end\<close>

lemma mer_loop_ok:
  assumes "area_ok ty mi N msa ma A {(h, k)}" and "k + n < 52" and "free_blk ty mi msa h k"
  shows "\<exists>k' s msa' ma'. mer_loop mi n k h (lastp h k) msa ma = Some (k', s, lastp s k', msa', ma') \<and>
    k' \<le> k + n \<and> area_ok ty mi N msa' ma' A {(s, k')} \<and> free_blk ty mi msa' s k' \<and> same_area ma ma' \<and> msa_frame ty msa msa' \<and>
    bunion (blocks ma') \<union> blk s k' = bunion (blocks ma) \<union> blk h k"
  using assms
proof (induction n arbitrary: h k msa ma)
  case 0
  then show ?case by auto
next
  case (Suc n)
  have k: "Suc k < 52" using Suc.prems(2) by simp
  from merge_step [OF Suc.prems(1) k Suc.prems(3)] show ?case
  proof
    assume "mm_find_cmsa2blk mi k h (lastp h k) msa ma = Some (1, h, lastp h k, msa, ma) \<and>
      (\<forall>t \<in> set (frel ma k). \<not> follows msa k h t \<and> \<not> follows msa k t h)"
    then show ?thesis using Suc.prems by auto
  next
    assume "\<exists>s msa' ma'. mm_find_cmsa2blk mi k h (lastp h k) msa ma = Some (2, s, lastp s (Suc k), msa', ma') \<and>
      area_ok ty mi N msa' ma' A {(s, Suc k)} \<and> free_blk ty mi msa' s (Suc k) \<and> same_area ma ma' \<and> msa_frame ty msa msa' \<and>
      bunion (blocks ma') \<union> blk s (Suc k) = bunion (blocks ma) \<union> blk h k"
    then obtain s msa' ma' where m: "mm_find_cmsa2blk mi k h (lastp h k) msa ma = Some (2, s, lastp s (Suc k), msa', ma')"
      "area_ok ty mi N msa' ma' A {(s, Suc k)}" "free_blk ty mi msa' s (Suc k)" "same_area ma ma'" "msa_frame ty msa msa'"
      "bunion (blocks ma') \<union> blk s (Suc k) = bunion (blocks ma) \<union> blk h k" by blast
    from Suc.IH [OF m(2) _ m(3)] Suc.prems(2) obtain k' s' msa2 ma2 where i:
      "mer_loop mi n (Suc k) s (lastp s (Suc k)) msa' ma' = Some (k', s', lastp s' k', msa2, ma2)" "k' \<le> Suc k + n"
      "area_ok ty mi N msa2 ma2 A {(s', k')}" "free_blk ty mi msa2 s' k'" "same_area ma' ma2" "msa_frame ty msa' msa2"
      "bunion (blocks ma2) \<union> blk s' k' = bunion (blocks ma') \<union> blk s (Suc k)" by auto
    then have "mer_loop mi (Suc n) k h (lastp h k) msa ma = Some (k', s', lastp s' k', msa2, ma2)"
      using m(1) by simp
    then show ?thesis
      using i m(6) same_area_trans [OF m(4) i(5)] msa_frame_trans [OF m(5) i(6)] by auto
  qed
qed

text \<open>The block in hand goes to list \<open>k\<close> with its links set.\<close>

definition linked :: "nat \<Rightarrow> nat \<Rightarrow> nat \<Rightarrow> msas \<Rightarrow> msas" where
  "linked mi s k msa = upd_msa (lastp s k) (\<lambda>m. m\<lparr>mf_olkty := MF_OLKTY_BAFH, md_odlink := OBafh mi (Lie k)\<rparr>)
      (upd_msa s (\<lambda>m. m\<lparr>mf_olkty := MF_OLKTY_ODER, md_odlink := OMsa (lastp s k)\<rparr>) msa)"

lemma linked_same: "i \<notin> blk s k \<Longrightarrow> linked mi s k msa i = msa i"
proof -
  assume "i \<notin> blk s k"
  then have "i \<noteq> s" "i \<noteq> lastp s k" by auto
  then show ?thesis by (simp add: linked_def upd_msa_def)
qed

lemma linked_free:
  assumes "pages_ok ty msa s k" and "clear_ok msa (blk s k)"
  shows "free_blk ty mi (linked mi s k msa) s k"
proof -
  have "pages_ok ty (linked mi s k msa) s k"
    using assms(1) by (subst pages_ok_upd [of _ _ _ msa]) (auto simp: upd_msa_def linked_def)
  moreover have "clear_ok (linked mi s k msa) (blk s k)" using assms(2) by (auto simp: clear_ok_def upd_msa_def linked_def)
  moreover have "free_link mi (linked mi s k msa) s k"
    using lastp_props(3) [of s k] by (auto simp: free_link_def upd_msa_def linked_def)
  ultimately show ?thesis by (simp add: free_blk_def)
qed

lemma put_block:
  assumes ok: "area_ok ty mi N msa ma A {(s, k)}" and k: "k < 52"
    and pg: "pages_ok ty msa s k" and cl: "clear_ok msa (blk s k)"
    and b: "bafh_ok (get_bafh ma' (Lie k)) k" "frel ma' k = s # frel ma k"
    and oth: "\<And>j. j \<noteq> k \<Longrightarrow> get_bafh ma' (Lie j) = get_bafh ma (Lie j)"
  shows "area_ok ty mi N (linked mi s k msa) ma' A {}" and "blocks ma' = insert (s, k) (blocks ma)"
proof -
  let ?msa = "linked mi s k msa"
  have out: "(s, k) \<notin> blocks ma \<union> A" using area_okD(5) [OF ok] by simp
  show bl: "blocks ma' = insert (s, k) (blocks ma)"
  proof -
    have "(t, j) \<in> blocks ma' \<longleftrightarrow> (t, j) \<in> insert (s, k) (blocks ma)" for t j
      using b(2) oth [of j] k by (cases "j = k") (auto simp: blocks_Lie)
    then show ?thesis by auto
  qed
  have f: "free_blk ty mi ?msa s k" by (rule linked_free [OF pg cl])
  show "area_ok ty mi N ?msa ma' A {}"
  proof (rule area_change [OF ok, where S = "blk s k"])
    fix j :: nat assume "j < 52"
    then show "bafh_ok (get_bafh ma' (Lie j)) j"
      using area_okD(1) [OF ok] b oth by (cases "j = k") auto
  next
    have eq: "blocks ma' \<union> A \<union> {} = blocks ma \<union> A \<union> {(s, k)}" unfolding bl by auto
    show "bdisj (blocks ma' \<union> A \<union> {})" "bunion (blocks ma' \<union> A \<union> {}) \<subseteq> bunion (blocks ma \<union> A \<union> {(s, k)})"
      unfolding eq using area_okD(4) [OF ok] by simp_all
    show "c \<in> blocks ma' \<Longrightarrow> c \<in> blocks ma \<and> bpages c \<inter> blk s k = {} \<or> free_blk ty mi ?msa (fst c) (snd c)" for c
      unfolding bl using hand_apart [OF ok, of c] f by (metis UnI1 fst_conv insertE snd_conv)
    show "c \<in> A \<Longrightarrow> c \<in> A \<and> bpages c \<inter> blk s k = {} \<or> snd c < 52 \<and> used_blk ty ?msa (fst c) (snd c)" for c
      using hand_apart [OF ok, of c] by simp
  qed (use linked_same in auto)
qed

lemma put_back:
  assumes ok: "area_ok ty mi N msa ma A {(s, k)}" and k: "k < 52" and fr: "free_blk ty mi msa s k"
  shows "\<exists>msa' ma'. mpobf_add_msadsc mi (Lie k) s (lastp s k) msa ma = Some (True, msa', ma') \<and>
    area_ok ty mi N msa' ma' A {} \<and> blocks ma' = insert (s, k) (blocks ma) \<and> same_area ma ma' \<and> msa_frame ty msa msa'"
proof -
  let ?b = "get_bafh ma (Lie k)" and ?e = "lastp s k"
  let ?ma = "put_bafh (Lie k) (?b\<lparr>af_frelst := s # af_frelst ?b, af_fobjnr := af_fobjnr ?b + 1,
      af_mobjnr := af_mobjnr ?b + 1\<rparr>) ma"
  have pc: "pages_ok ty msa s k" "clear_ok msa (blk s k)" using fr by (simp_all add: free_blk_def)
  have out: "(s, k) \<notin> blocks ma \<union> A" using area_okD(5) [OF ok] by simp
  have "bafh_ok (get_bafh ?ma (Lie k)) k" "frel ?ma k = s # frel ma k"
    using area_okD(1) [OF ok k] out k by (auto simp: bafh_ok_def blocks_Lie)
  note p = put_block [OF ok k pc this]
  have "\<not> ?e < s" using lastp_props(1) [of s k] by simp
  then have "mpobf_add_msadsc mi (Lie k) s ?e msa ma = Some (True, linked mi s k msa, ?ma)"
    using counter_unat(3,4) [OF ok k] oder_ok [OF ok k] msadiff_lastp [of s k]
    by (simp add: mpobf_add_msadsc_def Let_def not_le linked_def)
  moreover have "msa_frame ty msa (linked mi s k msa)"
    using pc linked_free [OF pc] linked_same by (intro frame_blk [of ty msa s k]) (simp_all add: free_blk_def)
  ultimately show ?thesis using p by auto
qed

end
