(* ===== verification/PageAlloc_Props.thy ===== *)
theory PageAlloc_Props
  imports PageAlloc_Free
begin

text \<open>
  The allocator as a whole: the invariant of all memory areas with their counters, what
  \<open>mm_division_pages\<close>, \<open>mm_divpages_procmarea\<close> and \<open>mm_merge_pages\<close> do to it, and every
  sequence of such calls.
\<close>

section \<open>Releasing a block in an area\<close>

lemma onfpgs_ok:
  assumes ok: "area_ok ty mi N msa ma A H" and k: "k < 52"
  shows "onfpgs_retn_bafhlst ma (2 ^ k) = Some (Some (k, 51))"
proof -
  have "\<not> (2 :: u64) ^ k < 1" using pow2_nz [of k] k by simp
  then show ?thesis
    using counter_unat(3,4) [OF ok k] oder_ok [OF ok k] retn_divoder_pow2 [of k] k
    by (simp add: onfpgs_retn_bafhlst_def Let_def MDIVMER_ARR_LMAX_def not_le)
qed

lemma merpages_ok:
  assumes ok: "area_ok ty mi N msa ma A {(s, k)}" and k: "k < 52" and fr: "free_blk ty mi msa s k"
  shows "\<exists>msa' ma'. mm_merpages_onbafhlst mi s (2 ^ k) k 51 msa ma = Some (True, msa', ma') \<and>
    area_ok ty mi N msa' ma' A {} \<and> same_area ma ma' \<and> msa_frame ty msa msa' \<and>
    free_pages ma' = free_pages ma \<union> blk s k"
proof -
  have "k + (51 - k) < 52" using k by simp
  from mer_loop_ok [OF ok this fr] k obtain k' t msa1 ma1 where m:
    "mer_loop mi (51 - k) k s (lastp s k) msa ma = Some (k', t, lastp t k', msa1, ma1)" "k' < 52"
    "area_ok ty mi N msa1 ma1 A {(t, k')}" "free_blk ty mi msa1 t k'" "same_area ma ma1" "msa_frame ty msa msa1"
    "bunion (blocks ma1) \<union> blk t k' = bunion (blocks ma) \<union> blk s k" by auto
  from put_back [OF m(3,2,4)] obtain msa2 ma2 where p:
    "mpobf_add_msadsc mi (Lie k') t (lastp t k') msa1 ma1 = Some (True, msa2, ma2)"
    "area_ok ty mi N msa2 ma2 A {}" "blocks ma2 = insert (t, k') (blocks ma1)" "same_area ma1 ma2" "msa_frame ty msa1 msa2"
    by auto
  have "mm_merpages_onbafhlst mi s (2 ^ k) k 51 msa ma = Some (True, msa2, ma2)"
    using m(1) p(1) k by (simp add: mm_merpages_onbafhlst_def lastp_code)
  moreover have "free_pages ma2 = free_pages ma \<union> blk s k" using m(7) p(3) by (auto simp: free_pages_def)
  ultimately show ?thesis
    using p(2) same_area_trans [OF m(5) p(4)] msa_frame_trans [OF m(6) p(5)] by auto
qed

section \<open>The area of the user pages\<close>

text \<open>Its free pages are single pages on \<open>dm_onemsalst\<close>; \<open>U\<close> are the pages in use.\<close>

abbreviation onel :: "memarea_t \<Rightarrow> nat list" where
  "onel ma \<equiv> af_frelst (get_bafh ma One)"

definition one_free :: "nat \<Rightarrow> nat \<Rightarrow> msadsc_t \<Rightarrow> bool" where
  "one_free ty mi m \<longleftrightarrow> mf_marty m = ty \<and> mf_uindx m = 0 \<and> \<not> paf_alloc m \<and>
     mf_olkty m = MF_OLKTY_BAFH \<and> md_odlink m = OBafh mi One"

definition one_used :: "nat \<Rightarrow> nat \<Rightarrow> msadsc_t \<Rightarrow> bool" where
  "one_used ty s m \<longleftrightarrow> mf_marty m = ty \<and> mf_uindx m = 1 \<and> paf_alloc m \<and>
     mf_olkty m = MF_OLKTY_ODER \<and> md_odlink m = OMsa s"

definition one_ok :: "nat \<Rightarrow> nat \<Rightarrow> nat \<Rightarrow> msas \<Rightarrow> memarea_t \<Rightarrow> nat set \<Rightarrow> bool" where
  "one_ok ty mi N msa ma U \<longleftrightarrow> bafh_ok (get_bafh ma One) 0 \<and> (\<forall>s \<in> set (onel ma). one_free ty mi (msa s)) \<and>
     (\<forall>s \<in> U. one_used ty s (msa s)) \<and> set (onel ma) \<union> U \<subseteq> {..<N} \<and> N \<le> 2 ^ 52"

lemma one_frame: "one_ok ty' mi N msa ma U \<Longrightarrow> msa_frame ty msa msa' \<Longrightarrow> ty' \<noteq> ty \<Longrightarrow> one_ok ty' mi N msa' ma U"
  unfolding one_ok_def one_free_def one_used_def msa_frame_def by metis

lemma one_counters:
  assumes ok: "one_ok ty mi N msa ma U"
  shows "af_fobjnr (get_bafh ma One) < 1 \<longleftrightarrow> onel ma = []" "af_mobjnr (get_bafh ma One) < 1 \<longleftrightarrow> onel ma = []"
    "af_fobjnr (get_bafh ma One) < NOT 0" "af_mobjnr (get_bafh ma One) < NOT 0"
    "af_oderpnr (get_bafh ma One) = 1"
proof -
  let ?b = "get_bafh ma One"
  have b: "af_fobjnr ?b = of_nat (length (onel ma))" "af_mobjnr ?b = of_nat (length (onel ma))" "distinct (onel ma)"
    "af_oderpnr ?b = 1" using ok by (simp_all add: one_ok_def bafh_ok_def)
  have "card (set (onel ma)) \<le> N" using ok card_mono [of "{..<N}" "set (onel ma)"] by (simp add: one_ok_def)
  then have l: "length (onel ma) \<le> 2 ^ 52" using ok b(3) by (simp add: one_ok_def distinct_card)
  then have u: "unat (af_fobjnr ?b) = length (onel ma)" "unat (af_mobjnr ?b) = length (onel ma)"
    by (simp_all add: b unat_of_nat)
  have "unat (NOT 0 :: u64) = 2 ^ 64 - 1" by (simp add: unsigned_minus_1_eq_mask mask_eq_exp_minus_1)
  then show "af_fobjnr ?b < NOT 0" "af_mobjnr ?b < NOT 0"
    using u l by (simp_all add: word_less_nat_alt)
  show "af_fobjnr ?b < 1 \<longleftrightarrow> onel ma = []" "af_mobjnr ?b < 1 \<longleftrightarrow> onel ma = []"
    using u by (auto simp: word_less_nat_alt)
  show "af_oderpnr ?b = 1" by (rule b)
qed

lemma one_apart: "one_ok ty mi N msa ma U \<Longrightarrow> set (onel ma) \<inter> U = {}"
  by (auto simp: one_ok_def one_free_def one_used_def)

lemma msadiff_self [simp]: "msadiff s s = 0"
  by (simp add: msadiff_def)

lemma one_alloc:
  assumes ok: "one_ok ty mi N msa ma U" and ty: "ma_type ma = MA_TYPE_PROC" and sc: "scan_mapgsalloc_ok ma 1"
  shows "onel ma = [] \<Longrightarrow> mm_prcdivpages_onmarea 1 msa ma = Some (None, 0, msa, ma)"
    and "onel ma = s # rest \<Longrightarrow> \<exists>msa' ma'. mm_prcdivpages_onmarea 1 msa ma = Some (Some s, 1, msa', ma') \<and>
      one_ok ty mi N msa' ma' (insert s U) \<and> onel ma' = rest \<and> same_area ma ma' \<and> msa_frame ty msa msa'"
proof -
  note c = one_counters [OF ok]
  show "mm_prcdivpages_onmarea 1 msa ma = Some (None, 0, msa, ma)" if "onel ma = []"
    using that ty sc c by (simp add: mm_prcdivpages_onmarea_def mm_retnmsaob_onbafhlst_def)
  assume l: "onel ma = s # rest"
  let ?b = "get_bafh ma One"
  let ?ma = "put_bafh One (?b\<lparr>af_frelst := rest, af_mobjnr := af_mobjnr ?b - 1, af_fobjnr := af_fobjnr ?b - 1,
      af_freindx := af_freindx ?b + 1\<rparr>) ma"
  let ?msa = "upd_msa s (\<lambda>m. m\<lparr>mf_uindx := mf_uindx m + 1, paf_alloc := True,
                     mf_olkty := MF_OLKTY_ODER, md_odlink := OMsa s\<rparr>) msa"
  have f: "one_free ty mi (msa s)" using ok l by (simp add: one_ok_def)
  have t: "mm_retnmsaob_onbafhlst One msa ma = (Some (s, Some s), ?ma)"
    using c l f by (simp add: mm_retnmsaob_onbafhlst_def Let_def one_free_def)
  have m: "mm_divpages_opmsadsc msa s 1 = Some (Some s, ?msa)"
    using f by (simp add: mm_divpages_opmsadsc_def Let_def one_free_def MF_UINDX_MAX_def)
  have "mm_prcdivpages_onmarea 1 msa ma = Some (Some s, 1, ?msa, ?ma)"
    using ty sc t m c by (simp add: mm_prcdivpages_onmarea_def)
  moreover have "one_ok ty mi N ?msa ?ma (insert s U)"
    using ok l f by (auto simp: one_ok_def bafh_ok_def upd_msa_def one_free_def one_used_def)
  moreover have "msa_frame ty msa ?msa" using f by (auto simp: msa_frame_def upd_msa_def one_free_def)
  ultimately show "\<exists>msa' ma'. mm_prcdivpages_onmarea 1 msa ma = Some (Some s, 1, msa', ma') \<and>
      one_ok ty mi N msa' ma' (insert s U) \<and> onel ma' = rest \<and> same_area ma ma' \<and> msa_frame ty msa msa'"
    by auto
qed

lemma one_release:
  assumes ok: "one_ok ty mi N msa ma U" and s: "s \<in> U"
  shows "\<exists>msa1 msa' ma'. mm_merpages_opmsadsc mi One (af_oderpnr (get_bafh ma One)) msa s 1 = Some (2, msa1) \<and>
      mpobf_add_msadsc mi One s s msa1 ma = Some (True, msa', ma') \<and>
      one_ok ty mi N msa' ma' (U - {s}) \<and> onel ma' = s # onel ma \<and> same_area ma ma' \<and> msa_frame ty msa msa'"
proof -
  note c = one_counters [OF ok] and ap = one_apart [OF ok]
  let ?b = "get_bafh ma One"
  let ?msa1 = "upd_msa s (\<lambda>m. m\<lparr>paf_alloc := False, mf_olkty := MF_OLKTY_BAFH, md_odlink := OBafh mi One\<rparr>)
    (upd_msa s (\<lambda>m. m\<lparr>mf_uindx := mf_uindx m - 1\<rparr>) msa)"
  let ?msa = "upd_msa s (\<lambda>m. m\<lparr>mf_olkty := MF_OLKTY_BAFH, md_odlink := OBafh mi One\<rparr>)
    (upd_msa s (\<lambda>m. m\<lparr>mf_olkty := MF_OLKTY_ODER, md_odlink := OMsa s\<rparr>) ?msa1)"
  let ?ma = "put_bafh One (?b\<lparr>af_frelst := s # af_frelst ?b, af_fobjnr := af_fobjnr ?b + 1,
                                             af_mobjnr := af_mobjnr ?b + 1\<rparr>) ma"
  have u: "one_used ty s (msa s)" using ok s by (simp add: one_ok_def)
  have "mm_merpages_opmsadsc mi One (af_oderpnr ?b) msa s 1 = Some (2, ?msa1)"
    using u c by (simp add: mm_merpages_opmsadsc_def Let_def one_used_def upd_msa_def)
  moreover have "mpobf_add_msadsc mi One s s ?msa1 ma = Some (True, ?msa, ?ma)"
    using c by (simp add: mpobf_add_msadsc_def Let_def not_le)
  moreover have "one_ok ty mi N ?msa ?ma (U - {s})"
    using ok s u ap by (auto simp: one_ok_def bafh_ok_def upd_msa_def one_free_def one_used_def)
  moreover have "msa_frame ty msa ?msa" using u by (auto simp: msa_frame_def upd_msa_def one_used_def)
  ultimately show ?thesis by (intro exI conjI) auto
qed

section \<open>All areas\<close>

definition free_of :: "memarea_t \<Rightarrow> nat set" where
  "free_of ma = (if ma_type ma = MA_TYPE_PROC then set (onel ma) else free_pages ma)"

text \<open>One area with its counters; \<open>A\<close> are the blocks in use.\<close>

definition area_lists_ok :: "nat \<Rightarrow> msas \<Rightarrow> nat \<Rightarrow> memarea_t \<Rightarrow> block set \<Rightarrow> bool" where
  "area_lists_ok N msa mi ma A \<longleftrightarrow>
     (if ma_type ma = MA_TYPE_PROC then (\<forall>b \<in> A. snd b = 0) \<and> one_ok (ma_type ma) mi N msa ma (fst ` A)
      else area_ok (ma_type ma) mi N msa ma A {})"

definition area_inv :: "nat \<Rightarrow> msas \<Rightarrow> nat \<Rightarrow> memarea_t \<Rightarrow> block set \<Rightarrow> bool" where
  "area_inv N msa mi ma A \<longleftrightarrow> area_lists_ok N msa mi ma A \<and>
     ma_freepages ma = of_nat (card (free_of ma)) \<and> ma_allocpages ma = of_nat (card (bunion A)) \<and>
     card (free_of ma) + card (bunion A) \<le> unat (ma_maxpages ma)"

abbreviation area_at :: "memmgrob_t \<Rightarrow> nat \<Rightarrow> memarea_t" where
  "area_at mo mi \<equiv> mo_mareastat mo mi"

definition mgr_ok :: "memmgrob_t \<Rightarrow> (nat \<Rightarrow> block set) \<Rightarrow> bool" where
  "mgr_ok mo Al \<longleftrightarrow>
     (\<forall>mi < mo_mareanr mo. area_inv (mo_msanr mo) (mo_msadscstat mo) mi (area_at mo mi) (Al mi)) \<and>
     (\<forall>mi < mo_mareanr mo. ma_type (area_at mo mi) \<noteq> 0) \<and>
     inj_on (\<lambda>mi. ma_type (area_at mo mi)) {..<mo_mareanr mo} \<and>
     mo_freepages mo = of_nat (\<Sum>mi < mo_mareanr mo. card (free_of (area_at mo mi))) \<and>
     mo_alocpages mo + mo_freepages mo = mo_maxpages mo"

lemma mgr_okD:
  assumes "mgr_ok mo Al" and "mi < mo_mareanr mo"
  shows "area_inv (mo_msanr mo) (mo_msadscstat mo) mi (area_at mo mi) (Al mi)"
    and "area_lists_ok (mo_msanr mo) (mo_msadscstat mo) mi (area_at mo mi) (Al mi)"
    and "ma_type (area_at mo mi) \<noteq> 0"
    and "mj < mo_mareanr mo \<Longrightarrow> ma_type (area_at mo mi) = ma_type (area_at mo mj) \<longleftrightarrow> mi = mj"
  using assms by (auto simp: mgr_ok_def area_inv_def dest: inj_onD)

lemma blk_0: "blk s 0 = {s}"
  by (auto simp: blk_def)

lemma bunion_single: "(\<forall>b \<in> A. snd b = 0) \<Longrightarrow> bunion A = fst ` A"
  unfolding bunion_def by (auto simp: blk_0)

text \<open>Pages of an area are inside the array and carry its type.\<close>

lemma area_pages:
  assumes "area_lists_ok N msa mi ma A"
  shows "free_of ma \<union> bunion A \<subseteq> {..<N}" and "free_of ma \<inter> bunion A = {}"
    and "i \<in> free_of ma \<union> bunion A \<Longrightarrow> mf_marty (msa i) = ma_type ma"
    and "finite (free_of ma)" and "finite (bunion A)" and "N \<le> 2 ^ 52"
proof -
  show sub: "free_of ma \<union> bunion A \<subseteq> {..<N}"
    using assms bunion_single [of A]
    by (auto simp: area_lists_ok_def free_of_def one_ok_def area_ok_def free_pages_def bunion_def split: if_splits)
  then show "finite (free_of ma)" "finite (bunion A)" by (auto intro: finite_subset)
  show "N \<le> 2 ^ 52" using assms by (auto simp: area_lists_ok_def one_ok_def area_ok_def split: if_splits)
  show "free_of ma \<inter> bunion A = {}"
  proof (cases "ma_type ma = MA_TYPE_PROC")
    case True
    then show ?thesis using assms bunion_single [of A] one_apart [of MA_TYPE_PROC mi N msa ma "fst ` A"]
      by (simp add: area_lists_ok_def free_of_def)
  next
    case False
    then have ok: "area_ok (ma_type ma) mi N msa ma A {}" using assms by (simp add: area_lists_ok_def)
    have "b \<noteq> c" if "b \<in> blocks ma" "c \<in> A" for b c
      using area_okD(2) [OF ok that(1)] area_okD(3) [OF ok that(2)] free_not_used by metis
    then have "bpages b \<inter> bpages c = {}" if "b \<in> blocks ma" "c \<in> A" for b c
      using that area_okD(4) [OF ok] unfolding bdisj_def by blast
    then show ?thesis using False by (fastforce simp: free_of_def free_pages_def bunion_def)
  qed
  show "mf_marty (msa i) = ma_type ma" if i: "i \<in> free_of ma \<union> bunion A"
  proof (cases "ma_type ma = MA_TYPE_PROC")
    case True
    then show ?thesis using assms bunion_single [of A] i
      by (auto simp: area_lists_ok_def free_of_def one_ok_def one_free_def one_used_def)
  next
    case False
    then have ok: "area_ok (ma_type ma) mi N msa ma A {}" using assms by (simp add: area_lists_ok_def)
    from i False obtain b where b: "b \<in> blocks ma \<or> b \<in> A" "i \<in> bpages b"
      by (auto simp: free_of_def free_pages_def bunion_def)
    then have "pages_ok (ma_type ma) msa (fst b) (snd b)"
      using area_okD(2,3) [OF ok] by (auto simp: free_blk_def used_blk_def)
    then show ?thesis using b(2) by (rule pages_ok_marty)
  qed
qed

lemma area_inv_frame:
  "area_inv N msa mi ma A \<Longrightarrow> msa_frame ty msa msa' \<Longrightarrow> ma_type ma \<noteq> ty \<Longrightarrow> area_inv N msa' mi ma A"
  by (auto simp: area_inv_def area_lists_ok_def intro: area_frame one_frame split: if_splits)

lemma sum_upd:
  fixes f g :: "nat \<Rightarrow> nat"
  assumes "m < n" and "\<And>i. i < n \<Longrightarrow> i \<noteq> m \<Longrightarrow> g i = f i"
  shows "(\<Sum>i < n. g i) + f m = (\<Sum>i < n. f i) + g m"
proof -
  have "(\<Sum>i \<in> {..<n} - {m}. g i) = (\<Sum>i \<in> {..<n} - {m}. f i)" using assms(2) by (intro sum.cong) auto
  then show ?thesis using assms(1) sum.remove [of "{..<n}" m f] sum.remove [of "{..<n}" m g] by simp
qed

lemma of_nat_balance: "t + x = s + y \<Longrightarrow> f + of_nat x = of_nat s + of_nat y \<Longrightarrow> f = (of_nat t :: u64)"
  by (metis add_right_cancel of_nat_add)

text \<open>An operation on one area.\<close>

lemma mgr_upd:
  assumes ok: "mgr_ok mo Al" and mi: "mi < mo_mareanr mo"
    and inv: "area_inv (mo_msanr mo) msa' mi ma' A'" and ty: "ma_type ma' = ma_type (area_at mo mi)"
    and fr: "msa_frame (ma_type (area_at mo mi)) (mo_msadscstat mo) msa'"
    and fp: "f + of_nat (card (free_of (area_at mo mi))) = mo_freepages mo + of_nat (card (free_of ma'))"
    and ap: "a + f = mo_alocpages mo + mo_freepages mo"
  shows "mgr_ok (mo\<lparr>mo_msadscstat := msa', mo_mareastat := (mo_mareastat mo)(mi := ma'),
    mo_freepages := f, mo_alocpages := a\<rparr>) (Al(mi := A'))" (is "mgr_ok ?mo ?Al")
proof -
  let ?n = "mo_mareanr mo"
  have "area_inv (mo_msanr mo) msa' j (area_at ?mo j) (?Al j)" if j: "j < ?n" for j
  proof (cases "j = mi")
    case False
    then have "ma_type (area_at mo j) \<noteq> ma_type (area_at mo mi)" using mgr_okD(4) [OF ok j mi] by simp
    then show ?thesis using area_inv_frame [OF mgr_okD(1) [OF ok j] fr] False by simp
  qed (use inv in simp)
  moreover have "f = of_nat (\<Sum>j < ?n. card (free_of (area_at ?mo j)))"
  proof -
    let ?S = "\<Sum>j < ?n. card (free_of (area_at mo j))" and ?T = "\<Sum>j < ?n. card (free_of (area_at ?mo j))"
    have "?T + card (free_of (area_at mo mi)) = ?S + card (free_of ma')"
      using sum_upd [OF mi, of "\<lambda>j. card (free_of (area_at ?mo j))" "\<lambda>j. card (free_of (area_at mo j))"] by simp
    then show ?thesis
    proof (rule of_nat_balance)
      have g: "mo_freepages mo = of_nat ?S" using ok unfolding mgr_ok_def by blast
      show "f + of_nat (card (free_of (area_at mo mi))) = of_nat ?S + of_nat (card (free_of ma'))" using fp unfolding g .
    qed
  qed
  moreover have "ma_type (area_at ?mo j) = ma_type (area_at mo j)" for j using ty by simp
  moreover have "a + f = mo_maxpages mo"
  proof (rule trans [OF ap])
    show "mo_alocpages mo + mo_freepages mo = mo_maxpages mo" using ok unfolding mgr_ok_def by (elim conjE)
  qed
  ultimately show ?thesis using ok unfolding mgr_ok_def inj_on_def by (simp del: of_nat_sum)
qed

end
