(* ===== verification/PageAlloc_Run.thy ===== *)
theory PageAlloc_Run
  imports PageAlloc_Props
begin

text \<open>
  The calls of the page allocator on the invariant of all areas, and their sequences.
\<close>

section \<open>Counters of one area\<close>

lemma update_bafh [simp]: "get_bafh (mm_update_memarea ma n f) r = get_bafh ma r"
  by (cases r) (simp_all add: mm_update_memarea_def get_bafh.simps)

lemma update_type [simp]:
  "ma_type (mm_update_memarea ma n f) = ma_type ma" "ma_maxpages (mm_update_memarea ma n f) = ma_maxpages ma"
  by (simp_all add: mm_update_memarea_def)

lemma update_counters:
  "ma_freepages (mm_update_memarea ma n 0) = ma_freepages ma - n" "ma_allocpages (mm_update_memarea ma n 0) = ma_allocpages ma + n"
  "ma_freepages (mm_update_memarea ma n 1) = ma_freepages ma + n" "ma_allocpages (mm_update_memarea ma n 1) = ma_allocpages ma - n"
  by (simp_all add: mm_update_memarea_def)

lemma update_lists [simp]:
  "blocks (mm_update_memarea ma n f) = blocks ma" "free_pages (mm_update_memarea ma n f) = free_pages ma"
  "free_of (mm_update_memarea ma n f) = free_of ma"
  "area_ok ty mi N msa (mm_update_memarea ma n f) A H = area_ok ty mi N msa ma A H"
  "one_ok ty mi N msa (mm_update_memarea ma n f) U = one_ok ty mi N msa ma U"
  by (simp_all add: blocks_def free_pages_def free_of_def area_ok_def one_ok_def)

lemma update_area_lists [simp]:
  "area_lists_ok N msa mi (mm_update_memarea ma n f) A = area_lists_ok N msa mi ma A"
  by (simp add: area_lists_ok_def)

lemma card_part: "finite F \<Longrightarrow> P \<subseteq> F \<Longrightarrow> card P = n \<Longrightarrow> card F = card (F - P) + n"
  by (metis Diff_disjoint Diff_partition add.commute card_Un_disjoint finite_Diff finite_subset)

lemma of_nat_2p: "(of_nat (2 ^ k) :: u64) = 2 ^ k"
  by simp

text \<open>A block moves from the free pages to the pages in use, and back.\<close>

lemma take_inv:
  fixes mo_f :: u64
  assumes inv: "area_inv N msa mi ma A" and ls: "area_lists_ok N msa' mi ma' A'" and A': "A' = insert (st, d) A"
    and same: "same_area ma ma'" and sub: "blk st d \<subseteq> free_of ma" and fr: "free_of ma' = free_of ma - blk st d"
  shows "area_inv N msa' mi (mm_update_memarea ma' (2 ^ d) 0) A'"
    and "mo_f - 2 ^ d + of_nat (card (free_of ma)) = mo_f + of_nat (card (free_of ma'))"
proof -
  have al: "area_lists_ok N msa mi ma A" using inv by (simp add: area_inv_def)
  note pg = area_pages [OF al]
  have f: "card (free_of ma) = card (free_of ma') + 2 ^ d"
    unfolding fr by (rule card_part) (use pg sub in auto)
  have "bunion A' = bunion A \<union> blk st d" unfolding A' by auto
  moreover have "bunion A \<inter> blk st d = {}" using pg(2) sub by blast
  ultimately have a: "card (bunion A') = card (bunion A) + 2 ^ d" using pg(5) by (simp add: card_Un_disjoint)
  show "mo_f - 2 ^ d + of_nat (card (free_of ma)) = mo_f + of_nat (card (free_of ma'))"
    using f by (simp add: ac_simps)
  show "area_inv N msa' mi (mm_update_memarea ma' (2 ^ d) 0) A'"
    using inv ls f a same by (simp add: area_inv_def same_area_def update_counters)
qed

lemma give_inv:
  fixes mo_f :: u64
  assumes inv: "area_inv N msa mi ma A" and ls: "area_lists_ok N msa' mi ma' A'" and A: "A = insert (s, k) A'" "(s, k) \<notin> A'"
    and ap: "bunion A' \<inter> blk s k = {}"
    and same: "same_area ma ma'" and fr: "free_of ma' = free_of ma \<union> blk s k"
  shows "area_inv N msa' mi (mm_update_memarea ma' (2 ^ k) 1) A'"
    and "mo_f + 2 ^ k + of_nat (card (free_of ma)) = mo_f + of_nat (card (free_of ma'))"
proof -
  have al: "area_lists_ok N msa mi ma A" using inv by (simp add: area_inv_def)
  note pg = area_pages [OF al]
  have un: "bunion A = bunion A' \<union> blk s k" unfolding A(1) by auto
  then have "free_of ma \<inter> blk s k = {}" using pg(2) by auto
  then have f: "card (free_of ma') = card (free_of ma) + 2 ^ k" unfolding fr using pg(4) by (simp add: card_Un_disjoint)
  have "finite (bunion A')" using pg(5) un by simp
  then have a: "card (bunion A) = card (bunion A') + 2 ^ k" unfolding un using ap by (simp add: card_Un_disjoint)
  show "mo_f + 2 ^ k + of_nat (card (free_of ma)) = mo_f + of_nat (card (free_of ma'))"
    using f by (simp add: ac_simps)
  show "area_inv N msa' mi (mm_update_memarea ma' (2 ^ k) 1) A'"
    using inv ls f a same by (simp add: area_inv_def same_area_def update_counters)
qed

section \<open>Finding the area\<close>

lemma find_upt_unique: "m < n \<Longrightarrow> P m \<Longrightarrow> (\<And>i. i < n \<Longrightarrow> P i \<Longrightarrow> i = m) \<Longrightarrow> find P [0..<n] = Some m"
  unfolding find_Some_iff by (metis add.left_neutral diff_zero length_upt nth_upt less_trans less_irrefl)

lemma find_marea:
  assumes "mgr_ok mo Al" and "mi < mo_mareanr mo" and "ty = ma_type (area_at mo mi)"
  shows "onmrtype_retn_marea mo ty = Some mi"
    and "find (\<lambda>mi. ty = ma_type (area_at mo mi)) [0..<mo_mareanr mo] = Some mi"
proof -
  have u: "i = mi" if "i < mo_mareanr mo" "ma_type (area_at mo i) = ty" for i
    using mgr_okD(4) [OF assms(1,2) that(1)] that(2) assms(3) by simp
  show "onmrtype_retn_marea mo ty = Some mi"
    unfolding onmrtype_retn_marea_def
    by (rule find_upt_unique, rule assms(2), rule assms(3) [symmetric], rule u)
  show "find (\<lambda>mi. ty = ma_type (area_at mo mi)) [0..<mo_mareanr mo] = Some mi"
    by (rule find_upt_unique, rule assms(2), rule assms(3), rule u, assumption, rule sym)
qed

section \<open>Allocating\<close>

text \<open>A list with a block makes the checks on the counters pass.\<close>

lemma fits_scan:
  assumes inv: "area_inv N msa mi ma A" and np: "ma_type ma \<noteq> MA_TYPE_PROC" and f: "fits ma d j"
    and pg: "0 < pages" and le: "unat pages \<le> 2 ^ d"
  shows "scan_mapgsalloc_ok ma pages"
proof -
  have al: "area_lists_ok N msa mi ma A" using inv by (simp add: area_inv_def)
  note ap = area_pages [OF al]
  obtain s where "(s, j) \<in> blocks ma" using f by (cases "frel ma j") (auto simp: fits_def blocks_Lie)
  then have "blk s j \<subseteq> free_of ma" using np by (force simp: free_of_def free_pages_def bunion_def)
  then have "2 ^ j \<le> card (free_of ma)" using card_mono [OF ap(4), of "blk s j"] by simp
  moreover have "(2 :: nat) ^ d \<le> 2 ^ j" using f by (simp add: fits_def)
  ultimately have c: "unat pages \<le> card (free_of ma)" using le by linarith
  have "card (free_of ma) \<le> N" using ap(1) card_mono [of "{..<N}" "free_of ma"] by simp
  then have "unat (of_nat (card (free_of ma)) :: u64) = card (free_of ma)" using ap(6) by (simp add: unat_of_nat)
  then have "pages \<le> ma_freepages ma" "pages \<le> ma_maxpages ma"
    using c inv by (simp_all add: area_inv_def word_le_nat_alt)
  then show ?thesis using pg by (simp add: scan_mapgsalloc_ok_def)
qed

lemma set_marea_same [simp]: "set_marea mi (mo_msadscstat mo) (area_at mo mi) mo = mo"
  by (simp add: set_marea_def)

lemma set_marea_take:
  "mm_update_memmgrob n 0 (set_marea mi msa ma mo) =
     mo\<lparr>mo_msadscstat := msa, mo_mareastat := (mo_mareastat mo)(mi := ma),
        mo_freepages := mo_freepages mo - n, mo_alocpages := mo_alocpages mo + n\<rparr>"
  by (simp add: mm_update_memmgrob_def set_marea_def)

lemma set_marea_give:
  "mm_update_memmgrob n 1 (set_marea mi msa ma mo) =
     mo\<lparr>mo_msadscstat := msa, mo_mareastat := (mo_mareastat mo)(mi := ma),
        mo_freepages := mo_freepages mo + n, mo_alocpages := mo_alocpages mo - n\<rparr>"
  by (simp add: mm_update_memmgrob_def set_marea_def)

text \<open>What a successful allocation of the block \<open>(st, d)\<close> in area \<open>mi\<close> has done.\<close>

definition taken :: "memmgrob_t \<Rightarrow> (nat \<Rightarrow> block set) \<Rightarrow> nat \<Rightarrow> nat \<Rightarrow> nat \<Rightarrow> memmgrob_t \<Rightarrow> bool" where
  "taken mo Al mi st d mo' \<longleftrightarrow> mgr_ok mo' (Al(mi := insert (st, d) (Al mi))) \<and>
     blk st d \<subseteq> free_of (area_at mo mi) \<and> free_of (area_at mo' mi) = free_of (area_at mo mi) - blk st d \<and>
     (\<forall>mj. mj \<noteq> mi \<longrightarrow> area_at mo' mj = area_at mo mj) \<and>
     mo_mareanr mo' = mo_mareanr mo \<and> mo_msanr mo' = mo_msanr mo \<and> ma_type (area_at mo' mi) = ma_type (area_at mo mi) \<and>
     mo_freepages mo' = mo_freepages mo - 2 ^ d \<and> mo_alocpages mo' = mo_alocpages mo + 2 ^ d"

lemma takenI:
  assumes ok: "mgr_ok mo Al" and mi: "mi < mo_mareanr mo"
    and ls: "area_lists_ok (mo_msanr mo) msa' mi ma' (insert (st, d) (Al mi))"
    and same: "same_area (area_at mo mi) ma'" and fr: "msa_frame (ma_type (area_at mo mi)) (mo_msadscstat mo) msa'"
    and pg: "blk st d \<subseteq> free_of (area_at mo mi)" "free_of ma' = free_of (area_at mo mi) - blk st d"
  shows "taken mo Al mi st d (mm_update_memmgrob (2 ^ d) 0 (set_marea mi msa' (mm_update_memarea ma' (2 ^ d) 0) mo))"
proof -
  note t = take_inv [OF mgr_okD(1) [OF ok mi] ls refl same pg]
  have "mgr_ok (mo\<lparr>mo_msadscstat := msa', mo_mareastat := (mo_mareastat mo)(mi := mm_update_memarea ma' (2 ^ d) 0),
      mo_freepages := mo_freepages mo - 2 ^ d, mo_alocpages := mo_alocpages mo + 2 ^ d\<rparr>)
      (Al(mi := insert (st, d) (Al mi)))"
    by (rule mgr_upd [OF ok mi t(1)]) (use same fr t(2) in \<open>simp_all add: same_area_def\<close>)
  then show ?thesis unfolding set_marea_take using pg same by (simp add: taken_def same_area_def)
qed

lemma area_lists_np [simp]:
  "ma_type ma \<noteq> MA_TYPE_PROC \<Longrightarrow> area_lists_ok N msa mi ma A \<longleftrightarrow> area_ok (ma_type ma) mi N msa ma A {}"
  "ma_type ma \<noteq> MA_TYPE_PROC \<Longrightarrow> free_of ma = free_pages ma"
  by (simp_all add: area_lists_ok_def free_of_def)

lemma division_take:
  assumes ok: "mgr_ok mo Al" and mi: "mi < mo_mareanr mo"
    and ty: "ma_type (area_at mo mi) = MA_TYPE_KRNL \<or> ma_type (area_at mo mi) = MA_TYPE_HWAD"
    and pg: "0 < pages" and d: "retn_divoder pages = int d" "unat pages \<le> 2 ^ d" and f: "\<exists>j. fits (area_at mo mi) d j"
  shows "\<exists>st mo'. mm_division_pages mo pages (ma_type (area_at mo mi)) DMF_RELDIV = Some (Some st, 2 ^ d, mo') \<and>
    taken mo Al mi st d mo'"
proof -
  let ?ma = "area_at mo mi" and ?N = "mo_msanr mo" and ?msa = "mo_msadscstat mo"
  have np: "ma_type ?ma \<noteq> MA_TYPE_PROC" using ty by (auto simp: ma_consts)
  have ar: "area_ok (ma_type ?ma) mi ?N ?msa ?ma (Al mi) {}" using mgr_okD(2) [OF ok mi] np by simp
  obtain j where j: "fits ?ma d j" using f by blast
  have sc: "scan_mapgsalloc_ok ?ma pages" by (rule fits_scan [OF mgr_okD(1) [OF ok mi] np j pg d(2)])
  from reldivpages_ok [OF ar d sc f] obtain st msa' ma' where r:
    "mm_reldivpages_onmarea mi pages ?msa ?ma = Some (Some st, 2 ^ d, msa', ma')"
    "area_ok (ma_type ?ma) mi ?N msa' ma' (insert (st, d) (Al mi)) {}" "same_area ?ma ma'"
    "msa_frame (ma_type ?ma) ?msa msa'" "blk st d \<subseteq> free_pages ?ma" "free_pages ma' = free_pages ?ma - blk st d"
    by auto
  have np': "ma_type ma' \<noteq> MA_TYPE_PROC" "ma_type ma' = ma_type ?ma" using r(3) np by (simp_all add: same_area_def)
  have d64: "d < 64" using j by (simp add: fits_def)
  have "mm_divpages_core mi pages DMF_RELDIV mo = Some (Some st, 2 ^ d,
      mm_update_memmgrob (2 ^ d) 0 (set_marea mi msa' (mm_update_memarea ma' (2 ^ d) 0) mo))"
    using r(1) ty pow2_nz [OF d64] by (simp add: mm_divpages_core_def Let_def DMF_RELDIV_def DMF_MAXDIV_def)
  then have "mm_division_pages mo pages (ma_type ?ma) DMF_RELDIV = Some (Some st, 2 ^ d,
      mm_update_memmgrob (2 ^ d) 0 (set_marea mi msa' (mm_update_memarea ma' (2 ^ d) 0) mo))"
    using find_marea(1) [OF ok mi refl] mgr_okD(3) [OF ok mi]
    by (simp add: mm_division_pages_def mm_divpages_fmwk_def)
  moreover have "taken mo Al mi st d (mm_update_memmgrob (2 ^ d) 0 (set_marea mi msa' (mm_update_memarea ma' (2 ^ d) 0) mo))"
    by (rule takenI [OF ok mi]) (use r np np' in simp_all)
  ultimately show ?thesis by blast
qed

lemma division_none:
  assumes ok: "mgr_ok mo Al" and mi: "mi < mo_mareanr mo"
    and ty: "ma_type (area_at mo mi) = MA_TYPE_KRNL \<or> ma_type (area_at mo mi) = MA_TYPE_HWAD"
    and d: "retn_divoder pages = int d" "unat pages \<le> 2 ^ d" and f: "\<not> (\<exists>j. fits (area_at mo mi) d j)"
  shows "mm_division_pages mo pages (ma_type (area_at mo mi)) DMF_RELDIV = Some (None, 0, mo)"
proof -
  let ?ma = "area_at mo mi" and ?msa = "mo_msadscstat mo"
  have np: "ma_type ?ma \<noteq> MA_TYPE_PROC" using ty by (auto simp: ma_consts)
  have ar: "area_ok (ma_type ?ma) mi (mo_msanr mo) ?msa ?ma (Al mi) {}" using mgr_okD(2) [OF ok mi] np by simp
  have "mm_divpages_core mi pages DMF_RELDIV mo = Some (None, 0, mo)"
    using reldivpages_none [OF ar d] f ty by (simp add: mm_divpages_core_def Let_def DMF_RELDIV_def DMF_MAXDIV_def)
  then show ?thesis
    using find_marea(1) [OF ok mi refl] mgr_okD(3) [OF ok mi] by (simp add: mm_division_pages_def mm_divpages_fmwk_def)
qed

text \<open>The largest block.\<close>

lemma maxdiv_ok:
  assumes ok: "area_ok ty mi N msa ma A {}" and mx: "onma_retn_maxbafhlst ma = Some d"
  shows "d < 52" and "\<And>j. fits ma j j \<Longrightarrow> j \<le> d"
    and "\<exists>st msa' ma'. mm_maxdivpages_onmarea msa ma = Some (Some st, 2 ^ d, msa', ma') \<and>
      area_ok ty mi N msa' ma' (insert (st, d) A) {} \<and> same_area ma ma' \<and> msa_frame ty msa msa' \<and>
      blk st d \<subseteq> free_pages ma \<and> free_pages ma' = free_pages ma - blk st d"
proof -
  from mx obtain i where i: "i < 52" "d = rev [0..<52] ! i" "af_fobjnr (get_bafh ma (Lie d)) > 0"
    "\<And>l. l < i \<Longrightarrow> \<not> af_fobjnr (get_bafh ma (Lie (rev [0..<52] ! l))) > 0"
    by (auto simp: onma_retn_maxbafhlst_def find_Some_iff MDIVMER_ARR_LMAX_def)
  have rv: "rev [0..<52] ! l = 51 - l" if "l < 52" for l using that by (simp add: rev_nth)
  then have di: "d = 51 - i" using i by simp
  then show d: "d < 52" by simp
  show "j \<le> d" if "fits ma j j" for j
  proof (rule ccontr)
    assume "\<not> j \<le> d"
    moreover have "j < 52" "frel ma j \<noteq> []" using that by (simp_all add: fits_def)
    ultimately have "51 - j < i" "rev [0..<52] ! (51 - j) = j" using di i(1) rv [of "51 - j"] by simp_all
    then show False using i(4) [of "51 - j"] counter_zero(3) [OF ok \<open>j < 52\<close>] \<open>frel ma j \<noteq> []\<close> by simp
  qed
  obtain st rest where l: "frel ma d = st # rest" using i(3) counter_zero(3) [OF ok d] by (cases "frel ma d") auto
  obtain ma1 where t: "mm_retnmsaob_onbafhlst (Lie d) msa ma = (Some (st, Some (lastp st d)), ma1)"
    "area_ok ty mi N msa ma1 A {(st, d)}" "free_blk ty mi msa st d" "same_area ma ma1"
    "blocks ma = insert (st, d) (blocks ma1)" "(st, d) \<notin> blocks ma1"
    by (rule take_block [OF ok d l])
  obtain msa' where m: "mm_divpages_opmsadsc msa st (2 ^ d) = Some (Some st, msa')"
    "area_ok ty mi N msa' ma1 (insert (st, d) A) {}" "msa_frame ty msa msa'"
    by (rule mark_block [OF t(2) d free_hand [OF t(3)]])
  have "mm_maxdivpages_onmarea msa ma = Some (Some st, 2 ^ d, msa', ma1)"
    using mx t(1) m(1) oder_ok [OF t(2) d] by (simp add: mm_maxdivpages_onmarea_def)
  moreover have "free_pages ma = free_pages ma1 \<union> blk st d" using t(5) by (auto simp: free_pages_def)
  moreover have "free_pages ma1 \<inter> blk st d = {}"
    using hand_apart [OF t(2)] by (fastforce simp: free_pages_def bunion_def)
  ultimately show "\<exists>st msa' ma'. mm_maxdivpages_onmarea msa ma = Some (Some st, 2 ^ d, msa', ma') \<and>
      area_ok ty mi N msa' ma' (insert (st, d) A) {} \<and> same_area ma ma' \<and> msa_frame ty msa msa' \<and>
      blk st d \<subseteq> free_pages ma \<and> free_pages ma' = free_pages ma - blk st d"
    using m(2,3) t(4) by (intro exI conjI) auto
qed

lemma division_max:
  assumes ok: "mgr_ok mo Al" and mi: "mi < mo_mareanr mo"
    and ty: "ma_type (area_at mo mi) = MA_TYPE_KRNL \<or> ma_type (area_at mo mi) = MA_TYPE_HWAD"
  shows "onma_retn_maxbafhlst (area_at mo mi) = Some d \<Longrightarrow>
      \<exists>st mo'. mm_division_pages mo pages (ma_type (area_at mo mi)) DMF_MAXDIV = Some (Some st, 2 ^ d, mo') \<and>
        taken mo Al mi st d mo' \<and> (\<forall>j. fits (area_at mo mi) j j \<longrightarrow> j \<le> d)"
    and "onma_retn_maxbafhlst (area_at mo mi) = None \<Longrightarrow>
      mm_division_pages mo pages (ma_type (area_at mo mi)) DMF_MAXDIV = Some (None, 0, mo)"
proof -
  let ?ma = "area_at mo mi" and ?N = "mo_msanr mo" and ?msa = "mo_msadscstat mo"
  have np: "ma_type ?ma \<noteq> MA_TYPE_PROC" using ty by (auto simp: ma_consts)
  have ar: "area_ok (ma_type ?ma) mi ?N ?msa ?ma (Al mi) {}" using mgr_okD(2) [OF ok mi] np by simp
  note un = mm_division_pages_def mm_divpages_fmwk_def mm_divpages_core_def Let_def DMF_MAXDIV_def DMF_RELDIV_def
    find_marea(1) [OF ok mi refl] mgr_okD(3) [OF ok mi]
  show "mm_division_pages mo pages (ma_type ?ma) DMF_MAXDIV = Some (None, 0, mo)" if "onma_retn_maxbafhlst ?ma = None"
    using that ty by (simp add: un mm_maxdivpages_onmarea_def)
  assume mx: "onma_retn_maxbafhlst ?ma = Some d"
  note m = maxdiv_ok [OF ar mx]
  from m(3) obtain st msa' ma' where r: "mm_maxdivpages_onmarea ?msa ?ma = Some (Some st, 2 ^ d, msa', ma')"
    "area_ok (ma_type ?ma) mi ?N msa' ma' (insert (st, d) (Al mi)) {}" "same_area ?ma ma'"
    "msa_frame (ma_type ?ma) ?msa msa'" "blk st d \<subseteq> free_pages ?ma" "free_pages ma' = free_pages ?ma - blk st d"
    by auto
  have np': "ma_type ma' \<noteq> MA_TYPE_PROC" "ma_type ma' = ma_type ?ma" using r(3) np by (simp_all add: same_area_def)
  have "mm_division_pages mo pages (ma_type ?ma) DMF_MAXDIV = Some (Some st, 2 ^ d,
      mm_update_memmgrob (2 ^ d) 0 (set_marea mi msa' (mm_update_memarea ma' (2 ^ d) 0) mo))"
    using r(1) ty pow2_nz [of d] m(1) by (simp add: un)
  moreover have "taken mo Al mi st d (mm_update_memmgrob (2 ^ d) 0 (set_marea mi msa' (mm_update_memarea ma' (2 ^ d) 0) mo))"
    by (rule takenI [OF ok mi]) (use r np np' in simp_all)
  ultimately show "\<exists>st mo'. mm_division_pages mo pages (ma_type ?ma) DMF_MAXDIV = Some (Some st, 2 ^ d, mo') \<and>
        taken mo Al mi st d mo' \<and> (\<forall>j. fits ?ma j j \<longrightarrow> j \<le> d)" using m(2) by blast
qed

section \<open>User pages\<close>

lemma retn_procmarea_eq:
  "mgr_ok mo Al \<Longrightarrow> mi < mo_mareanr mo \<Longrightarrow> ma_type (area_at mo mi) = MA_TYPE_PROC \<Longrightarrow> retn_procmarea mo = Some mi"
  using find_marea(2) [of mo Al mi MA_TYPE_PROC] by (simp add: retn_procmarea_def)

lemma procmarea_take:
  assumes ok: "mgr_ok mo Al" and mi: "mi < mo_mareanr mo" and ty: "ma_type (area_at mo mi) = MA_TYPE_PROC"
    and l: "onel (area_at mo mi) = s # rest"
  shows "\<exists>mo'. mm_divpages_procmarea mo 1 = Some (Some s, 1, mo') \<and> taken mo Al mi s 0 mo'"
proof -
  let ?ma = "area_at mo mi" and ?N = "mo_msanr mo" and ?msa = "mo_msadscstat mo"
  note inv = mgr_okD(1) [OF ok mi] and ls = mgr_okD(2) [OF ok mi]
  note pg = area_pages [OF ls]
  have one: "one_ok (ma_type ?ma) mi ?N ?msa ?ma (fst ` Al mi)" and z: "\<forall>b \<in> Al mi. snd b = 0"
    using ls ty by (simp_all add: area_lists_ok_def)
  have "card (free_of ?ma) \<le> ?N" using pg(1) card_mono [of "{..<?N}" "free_of ?ma"] by simp
  then have u: "unat (of_nat (card (free_of ?ma)) :: u64) = card (free_of ?ma)" using pg(6) by (simp add: unat_of_nat)
  have "0 < card (free_of ?ma)" using ty l pg(4) by (auto simp: free_of_def card_gt_0_iff)
  then have sc: "scan_mapgsalloc_ok ?ma 1"
    using inv u by (simp add: scan_mapgsalloc_ok_def area_inv_def word_le_nat_alt)
  from one_alloc(2) [OF one ty sc l] obtain msa' ma' where r:
    "mm_prcdivpages_onmarea 1 ?msa ?ma = Some (Some s, 1, msa', ma')"
    "one_ok (ma_type ?ma) mi ?N msa' ma' (insert s (fst ` Al mi))" "onel ma' = rest" "same_area ?ma ma'"
    "msa_frame (ma_type ?ma) ?msa msa'" by auto
  let ?mo = "mm_update_memmgrob (2 ^ 0) 0 (set_marea mi msa' (mm_update_memarea ma' (2 ^ 0) 0) mo)"
  have "mm_divpages_procmarea mo 1 = Some (Some s, 1, ?mo)"
    using retn_procmarea_eq [OF ok mi ty] sc r(1)
    by (simp add: mm_divpages_procmarea_def divpages_procmarea_core_def)
  moreover have "taken mo Al mi s 0 ?mo"
  proof (rule takenI [OF ok mi])
    have ty': "ma_type ma' = MA_TYPE_PROC" using r(4) ty by (simp add: same_area_def)
    then show "area_lists_ok ?N msa' mi ma' (insert (s, 0) (Al mi))"
      using r(2) z ty by (simp add: area_lists_ok_def)
    show "blk s 0 \<subseteq> free_of ?ma" using l ty by (simp add: free_of_def blk_0)
    have "distinct (s # rest)" using one l by (simp add: one_ok_def bafh_ok_def)
    then show "free_of ma' = free_of ?ma - blk s 0" using ty ty' l r(3) by (auto simp: free_of_def blk_0)
  qed (use r in simp_all)
  ultimately show ?thesis by blast
qed

text \<open>Without a free user page, a kernel page is given.\<close>

lemma procmarea_fallback:
  assumes ok: "mgr_ok mo Al" and mi: "mi < mo_mareanr mo" and ty: "ma_type (area_at mo mi) = MA_TYPE_PROC"
    and l: "onel (area_at mo mi) = []" and k: "mm_division_pages mo 1 MA_TYPE_KRNL DMF_RELDIV = Some (r, n, mo')"
  shows "mm_divpages_procmarea mo 1 = Some (r, if r = None then 0 else n, mo')"
proof -
  have "divpages_procmarea_core mo 1 = Some (None, 0, mo)"
  proof (cases "scan_mapgsalloc_ok (area_at mo mi) 1")
    case True
    have "one_ok (ma_type (area_at mo mi)) mi (mo_msanr mo) (mo_msadscstat mo) (area_at mo mi) (fst ` Al mi)"
      using mgr_okD(2) [OF ok mi] ty by (simp add: area_lists_ok_def)
    from one_alloc(1) [OF this ty True l] True show ?thesis
      using retn_procmarea_eq [OF ok mi ty] by (simp add: divpages_procmarea_core_def)
  qed (use retn_procmarea_eq [OF ok mi ty] in \<open>simp add: divpages_procmarea_core_def\<close>)
  then show ?thesis using k by (simp add: mm_divpages_procmarea_def)
qed

section \<open>Freeing\<close>

definition given :: "memmgrob_t \<Rightarrow> (nat \<Rightarrow> block set) \<Rightarrow> nat \<Rightarrow> nat \<Rightarrow> nat \<Rightarrow> memmgrob_t \<Rightarrow> bool" where
  "given mo Al mi s k mo' \<longleftrightarrow> mgr_ok mo' (Al(mi := Al mi - {(s, k)})) \<and>
     free_of (area_at mo' mi) = free_of (area_at mo mi) \<union> blk s k \<and>
     (\<forall>mj. mj \<noteq> mi \<longrightarrow> area_at mo' mj = area_at mo mj) \<and>
     mo_mareanr mo' = mo_mareanr mo \<and> mo_msanr mo' = mo_msanr mo \<and> ma_type (area_at mo' mi) = ma_type (area_at mo mi) \<and>
     mo_freepages mo' = mo_freepages mo + 2 ^ k \<and> mo_alocpages mo' = mo_alocpages mo - 2 ^ k"

lemma in_use_facts:
  assumes ok: "mgr_ok mo Al" and mi: "mi < mo_mareanr mo" and b: "(s, k) \<in> Al mi"
  shows "k < 52" and "mf_olkty (mo_msadscstat mo s) = MF_OLKTY_ODER" and "md_odlink (mo_msadscstat mo s) = OMsa (lastp s k)"
    and "mf_uindx (mo_msadscstat mo s) = 1" and "mf_uindx (mo_msadscstat mo (lastp s k)) = 1"
    and "paf_alloc (mo_msadscstat mo s)" and "paf_alloc (mo_msadscstat mo (lastp s k))"
    and "mf_marty (mo_msadscstat mo s) = ma_type (area_at mo mi)"
    and "mf_marty (mo_msadscstat mo (lastp s k)) = ma_type (area_at mo mi)"
    and "bunion (Al mi - {(s, k)}) \<inter> blk s k = {}"
proof -
  note ls = mgr_okD(2) [OF ok mi]
  have mem: "s \<in> bunion (Al mi)" "lastp s k \<in> bunion (Al mi)" using b blk_mem [of s k] by (force simp: bunion_def)+
  show "mf_marty (mo_msadscstat mo s) = ma_type (area_at mo mi)"
    "mf_marty (mo_msadscstat mo (lastp s k)) = ma_type (area_at mo mi)"
    using area_pages(3) [OF ls] mem by auto
  have e: "k = 0 \<and> lastp s k = s \<and> one_used (ma_type (area_at mo mi)) s (mo_msadscstat mo s) \<or>
      k < 52 \<and> used_blk (ma_type (area_at mo mi)) (mo_msadscstat mo) s k"
  proof (cases "ma_type (area_at mo mi) = MA_TYPE_PROC")
    case True
    then have "k = 0" "one_used (ma_type (area_at mo mi)) s (mo_msadscstat mo s)"
      using ls b by (auto simp: area_lists_ok_def one_ok_def)
    then show ?thesis by (simp add: lastp_props)
  next
    case False
    then show ?thesis using ls b area_okD(3) [of _ _ _ _ _ "Al mi" "{}" "(s, k)"] by auto
  qed
  then show "k < 52" "mf_olkty (mo_msadscstat mo s) = MF_OLKTY_ODER" "md_odlink (mo_msadscstat mo s) = OMsa (lastp s k)"
    "mf_uindx (mo_msadscstat mo s) = 1" "mf_uindx (mo_msadscstat mo (lastp s k)) = 1"
    "paf_alloc (mo_msadscstat mo s)" "paf_alloc (mo_msadscstat mo (lastp s k))"
    by (auto simp: one_used_def used_blk_def)
  show "bunion (Al mi - {(s, k)}) \<inter> blk s k = {}"
  proof (cases "ma_type (area_at mo mi) = MA_TYPE_PROC")
    case True
    then have z: "\<forall>b \<in> Al mi. snd b = 0" using ls by (simp add: area_lists_ok_def)
    then have "k = 0" using b by auto
    then show ?thesis using z by (fastforce simp: bunion_def blk_0)
  next
    case False
    then have "area_ok (ma_type (area_at mo mi)) mi (mo_msanr mo) (mo_msadscstat mo) (area_at mo mi) (Al mi) {}"
      using ls by simp
    from area_okD(4) [OF this] show ?thesis using b unfolding bdisj_def by (fastforce simp: bunion_def)
  qed
qed

lemma givenI:
  assumes ok: "mgr_ok mo Al" and mi: "mi < mo_mareanr mo" and b: "(s, k) \<in> Al mi"
    and ls: "area_lists_ok (mo_msanr mo) msa' mi ma' (Al mi - {(s, k)})"
    and same: "same_area (area_at mo mi) ma'" and fr: "msa_frame (ma_type (area_at mo mi)) (mo_msadscstat mo) msa'"
    and pg: "free_of ma' = free_of (area_at mo mi) \<union> blk s k"
  shows "given mo Al mi s k (mm_update_memmgrob (2 ^ k) 1 (set_marea mi msa' (mm_update_memarea ma' (2 ^ k) 1) mo))"
proof -
  have e: "Al mi = insert (s, k) (Al mi - {(s, k)})" "(s, k) \<notin> Al mi - {(s, k)}" using b by auto
  note t = give_inv [OF mgr_okD(1) [OF ok mi] ls e in_use_facts(10) [OF ok mi b] same pg]
  have "mgr_ok (mo\<lparr>mo_msadscstat := msa', mo_mareastat := (mo_mareastat mo)(mi := mm_update_memarea ma' (2 ^ k) 1),
      mo_freepages := mo_freepages mo + 2 ^ k, mo_alocpages := mo_alocpages mo - 2 ^ k\<rparr>)
      (Al(mi := Al mi - {(s, k)}))"
    by (rule mgr_upd [OF ok mi t(1)]) (use same fr t(2) in \<open>simp_all add: same_area_def\<close>)
  then show ?thesis unfolding set_marea_give using pg same by (simp add: given_def same_area_def)
qed

lemma merge_core:
  assumes ok: "mgr_ok mo Al" and mi: "mi < mo_mareanr mo" and b: "(s, k) \<in> Al mi"
  shows "mm_merge_pages mo (Some s) (2 ^ k) = mm_merpages_onmarea mi s (2 ^ k) mo"
proof -
  note u = in_use_facts [OF ok mi b]
  have nz: "\<not> (2 :: u64) ^ k < 1" using pow2_nz [of k] u(1) by simp
  have "onfrmsa_retn_marea mo s (2 ^ k) = Some mi"
    using u msadiff_lastp [of s k] find_marea(2) [OF ok mi, of "mf_marty (mo_msadscstat mo s)"]
    by (simp add: onfrmsa_retn_marea_def Let_def)
  moreover have "scan_freemsa_isok (mo_msadscstat mo) s (2 ^ k)"
    using u nz msadiff_lastp [of s k] by (simp add: scan_freemsa_isok_def)
  ultimately show ?thesis using nz by (simp add: mm_merge_pages_def mm_merpages_fmwk_def mm_merpages_core_def)
qed

lemma merge_give:
  assumes ok: "mgr_ok mo Al" and mi: "mi < mo_mareanr mo" and b: "(s, k) \<in> Al mi"
  shows "\<exists>mo'. mm_merge_pages mo (Some s) (2 ^ k) = Some (True, mo') \<and> given mo Al mi s k mo'"
proof -
  let ?ma = "area_at mo mi" and ?N = "mo_msanr mo" and ?msa = "mo_msadscstat mo" and ?A' = "Al mi - {(s, k)}"
  note ls = mgr_okD(2) [OF ok mi]
  have k: "k < 52" by (rule in_use_facts(1) [OF ok mi b])
  have nz: "\<not> (2 :: u64) ^ k < 1" using pow2_nz [of k] k by simp
  have "\<exists>msa' ma'. mm_merpages_onmarea mi s (2 ^ k) mo = Some (True,
        mm_update_memmgrob (2 ^ k) 1 (set_marea mi msa' (mm_update_memarea ma' (2 ^ k) 1) mo)) \<and>
      area_lists_ok ?N msa' mi ma' ?A' \<and> same_area ?ma ma' \<and> msa_frame (ma_type ?ma) ?msa msa' \<and>
      free_of ma' = free_of ?ma \<union> blk s k"
  proof (cases "ma_type ?ma = MA_TYPE_PROC")
    case True
    then have one: "one_ok (ma_type ?ma) mi ?N ?msa ?ma (fst ` Al mi)" and z: "\<forall>b \<in> Al mi. snd b = 0"
      using ls by (simp_all add: area_lists_ok_def)
    have k0: "k = 0" using z b by auto
    have "s \<in> fst ` Al mi" using b by force
    from one_release [OF one this] obtain msa1 msa' ma' where r:
      "mm_merpages_opmsadsc mi One (af_oderpnr (get_bafh ?ma One)) ?msa s 1 = Some (2, msa1)"
      "mpobf_add_msadsc mi One s s msa1 ?ma = Some (True, msa', ma')"
      "one_ok (ma_type ?ma) mi ?N msa' ma' (fst ` Al mi - {s})" "onel ma' = s # onel ?ma" "same_area ?ma ma'"
      "msa_frame (ma_type ?ma) ?msa msa'" by auto
    have "fst ` Al mi - {s} = fst ` ?A'" using z k0 by force
    then have "area_lists_ok ?N msa' mi ma' ?A'"
      using r(3,5) z True by (simp add: area_lists_ok_def same_area_def)
    moreover have "free_of ma' = free_of ?ma \<union> blk s k"
      using r(4,5) True k0 by (auto simp: free_of_def same_area_def blk_0)
    moreover have "mm_merpages_onmarea mi s (2 ^ k) mo = Some (True,
        mm_update_memmgrob (2 ^ k) 1 (set_marea mi msa' (mm_update_memarea ma' (2 ^ k) 1) mo))"
      using r(1,2) True k0 by (simp add: mm_merpages_onmarea_def Let_def)
    ultimately show ?thesis using r(5,6) by blast
  next
    case False
    then have ar: "area_ok (ma_type ?ma) mi ?N ?msa ?ma (Al mi) {}" using ls by simp
    obtain msa1 where u: "mm_merpages_opmsadsc mi (Lie k) (2 ^ k) ?msa s (2 ^ k) = Some (2, msa1)"
      "area_ok (ma_type ?ma) mi ?N msa1 ?ma ?A' {(s, k)}" "free_blk (ma_type ?ma) mi msa1 s k"
      "msa_frame (ma_type ?ma) ?msa msa1" by (rule unmark_block [OF ar b])
    from merpages_ok [OF u(2) k u(3)] obtain msa2 ma2 where m:
      "mm_merpages_onbafhlst mi s (2 ^ k) k 51 msa1 ?ma = Some (True, msa2, ma2)"
      "area_ok (ma_type ?ma) mi ?N msa2 ma2 ?A' {}" "same_area ?ma ma2" "msa_frame (ma_type ?ma) msa1 msa2"
      "free_pages ma2 = free_pages ?ma \<union> blk s k" by auto
    have "mm_merpages_onmarea mi s (2 ^ k) mo = Some (True,
        mm_update_memmgrob (2 ^ k) 1 (set_marea mi msa2 (mm_update_memarea ma2 (2 ^ k) 1) mo))"
      using u(1) m(1) False nz onfpgs_ok [OF ar k] oder_ok [OF ar k] by (simp add: mm_merpages_onmarea_def Let_def)
    moreover have "ma_type ma2 = ma_type ?ma" using m(3) by (simp add: same_area_def)
    ultimately show ?thesis using m False msa_frame_trans [OF u(4) m(4)]
      by (intro exI [of _ msa2] exI [of _ ma2]) simp
  qed
  then show ?thesis using merge_core [OF ok mi b] givenI [OF ok mi b] by auto
qed

text \<open>A page that is not in use is not freed again.\<close>

lemma merge_refused:
  assumes "mf_uindx (mo_msadscstat mo s) = 0"
  shows "mm_merge_pages mo (Some s) n = Some (False, mo)"
  using assms by (simp add: mm_merge_pages_def mm_merpages_fmwk_def mm_merpages_core_def scan_freemsa_isok_def split: option.split)

lemma free_unused:
  assumes "mgr_ok mo Al" and "mi < mo_mareanr mo" and "s \<in> free_of (area_at mo mi)"
  shows "mf_uindx (mo_msadscstat mo s) = 0"
proof (cases "ma_type (area_at mo mi) = MA_TYPE_PROC")
  case True
  then show ?thesis using mgr_okD(2) [OF assms(1,2)] assms(3)
    by (auto simp: area_lists_ok_def free_of_def one_ok_def one_free_def)
next
  case False
  then have "area_ok (ma_type (area_at mo mi)) mi (mo_msanr mo) (mo_msadscstat mo) (area_at mo mi) (Al mi) {}"
    using mgr_okD(2) [OF assms(1,2)] by simp
  note fr = area_okD(2) [OF this]
  from assms(3) False obtain b where "b \<in> blocks (area_at mo mi)" "s \<in> bpages b"
    by (auto simp: free_pages_def bunion_def)
  then show ?thesis using fr [of b] by (simp add: free_blk_def clear_ok_def)
qed

end
