(* ===== verification/PageAlloc_Claims.thy ===== *)
theory PageAlloc_Claims
  imports PageAlloc_Run
begin

text \<open>
  What the page allocator promises its callers: the contract \<open>page_alloc\<close> that the object
  pool, the page pool and the page tables rely on, its interpretation on the kernel area,
  and all sequences of calls.
\<close>

section \<open>The contract of the page allocator\<close>

text \<open>\<open>inv s A\<close>: the allocator is sound and the blocks in use are \<open>A\<close>.\<close>

locale page_alloc =
  fixes inv :: "'s \<Rightarrow> block set \<Rightarrow> bool" and frees :: "'s \<Rightarrow> nat set"
    and alloc :: "u64 \<Rightarrow> 's \<Rightarrow> (nat option \<times> u64 \<times> 's) option"
    and release :: "nat \<Rightarrow> u64 \<Rightarrow> 's \<Rightarrow> (bool \<times> 's) option"
  assumes returns: "inv s A \<Longrightarrow> 0 < n \<Longrightarrow> alloc n s \<noteq> None"
    and gives: "inv s A \<Longrightarrow> 0 < n \<Longrightarrow> alloc n s = Some (Some st, m, s') \<Longrightarrow>
      \<exists>d < 52. m = 2 ^ d \<and> unat n \<le> 2 ^ d \<and> (d = 0 \<or> 2 ^ (d - 1) < unat n) \<and> inv s' (insert (st, d) A) \<and>
        blk st d \<subseteq> frees s \<and> frees s' = frees s - blk st d"
    and fails: "inv s A \<Longrightarrow> 0 < n \<Longrightarrow> alloc n s = Some (None, m, s') \<Longrightarrow> s' = s"
    and takes: "inv s A \<Longrightarrow> (st, d) \<in> A \<Longrightarrow> \<exists>s'. release st (2 ^ d) s = Some (True, s') \<and>
        inv s' (A - {(st, d)}) \<and> frees s' = frees s \<union> blk st d"
    and apart: "inv s A \<Longrightarrow> bdisj A \<and> frees s \<inter> bunion A = {}"
begin

lemma fresh:
  assumes i: "inv s A" and n: "0 < n" and a: "alloc n s = Some (Some st, m, s')" and b: "b \<in> A"
  shows "\<exists>d. m = 2 ^ d \<and> blk st d \<inter> bpages b = {}"
proof -
  obtain d where "m = 2 ^ d" "blk st d \<subseteq> frees s" using gives [OF i n a] by blast
  moreover have "bpages b \<subseteq> bunion A" using b by (auto simp: bunion_def)
  ultimately show ?thesis using apart [OF i] by blast
qed

lemma roundtrip:
  assumes i: "inv s A" and n: "0 < n" and a: "alloc n s = Some (Some st, m, s')"
  shows "\<exists>s''. release st m s' = Some (True, s'') \<and> inv s'' A \<and> frees s'' = frees s"
proof -
  obtain d where d: "m = 2 ^ d" "inv s' (insert (st, d) A)" "blk st d \<subseteq> frees s" "frees s' = frees s - blk st d"
    using gives [OF i n a] by blast
  have "(st, d) \<notin> A" using apart [OF i] d(3) blk_mem(1) [of st d] by (fastforce simp: bunion_def)
  then show ?thesis using takes [OF d(2), of st d] d by auto
qed

text \<open>Blocks allocated one after the other.\<close>

fun allocs :: "u64 list \<Rightarrow> 's \<Rightarrow> ((nat \<times> u64) list \<times> 's) option" where
  "allocs [] s = Some ([], s)"
| "allocs (n # ns) s = (case alloc n s of
     Some (Some st, m, s') \<Rightarrow> map_option (\<lambda>(l, s''). ((st, m) # l, s'')) (allocs ns s')
   | _ \<Rightarrow> None)"

lemma allocs_inv:
  assumes "inv s A" and "\<forall>n \<in> set ns. 0 < n" and "allocs ns s = Some (l, s')"
  shows "\<exists>ds. length ds = length l \<and> map snd l = map (\<lambda>d. 2 ^ d) ds \<and> inv s' (set (zip (map fst l) ds) \<union> A)"
  using assms
proof (induction ns arbitrary: s A l)
  case (Cons n ns)
  from Cons.prems(3) obtain st m s1 l' where r: "alloc n s = Some (Some st, m, s1)" "allocs ns s1 = Some (l', s')" "l = (st, m) # l'"
    by (auto split: option.splits)
  from gives [OF Cons.prems(1) _ r(1)] Cons.prems(2) obtain d where d: "m = 2 ^ d" "inv s1 (insert (st, d) A)" by auto
  from Cons.IH [OF d(2) _ r(2)] Cons.prems(2) obtain ds where
    "length ds = length l'" "map snd l' = map (\<lambda>d. 2 ^ d) ds" "inv s' (set (zip (map fst l') ds) \<union> insert (st, d) A)" by auto
  then show ?case using r(3) d(1) by (intro exI [of _ "d # ds"]) auto
qed auto

end

section \<open>The kernel area\<close>

definition krnl_area :: "memmgrob_t \<Rightarrow> nat" where
  "krnl_area mo = the (onmrtype_retn_marea mo MA_TYPE_KRNL)"

definition krnl_inv :: "memmgrob_t \<Rightarrow> block set \<Rightarrow> bool" where
  "krnl_inv mo A \<longleftrightarrow> (\<exists>Al. mgr_ok mo Al \<and> krnl_area mo < mo_mareanr mo \<and>
     ma_type (area_at mo (krnl_area mo)) = MA_TYPE_KRNL \<and> Al (krnl_area mo) = A)"

lemma krnl_area_eq:
  "mgr_ok mo Al \<Longrightarrow> mi < mo_mareanr mo \<Longrightarrow> ma_type (area_at mo mi) = MA_TYPE_KRNL \<Longrightarrow> krnl_area mo = mi"
  using find_marea(1) [of mo Al mi MA_TYPE_KRNL] by (simp add: krnl_area_def)

lemma krnl_invI:
  "mgr_ok mo Al \<Longrightarrow> mi < mo_mareanr mo \<Longrightarrow> ma_type (area_at mo mi) = MA_TYPE_KRNL \<Longrightarrow> Al mi = A \<Longrightarrow> krnl_inv mo A"
  using krnl_area_eq [of mo Al mi] by (auto simp: krnl_inv_def)

definition alloc_krnl :: "u64 \<Rightarrow> memmgrob_t \<Rightarrow> (nat option \<times> u64 \<times> memmgrob_t) option" where
  "alloc_krnl n mo = mm_division_pages mo n MA_TYPE_KRNL DMF_RELDIV"

lemma area_apart:
  assumes ok: "mgr_ok mo Al" and mi: "mi < mo_mareanr mo"
  shows "bdisj (Al mi)" and "free_of (area_at mo mi) \<inter> bunion (Al mi) = {}"
proof -
  note ls = mgr_okD(2) [OF ok mi]
  show "free_of (area_at mo mi) \<inter> bunion (Al mi) = {}" by (rule area_pages(2) [OF ls])
  show "bdisj (Al mi)"
  proof (cases "ma_type (area_at mo mi) = MA_TYPE_PROC")
    case True
    then have z: "snd b = 0" if "b \<in> Al mi" for b using ls that by (simp add: area_lists_ok_def)
    show ?thesis unfolding bdisj_def by (simp add: z blk_0 prod_eq_iff)
  next
    case False
    then have "area_ok (ma_type (area_at mo mi)) mi (mo_msanr mo) (mo_msadscstat mo) (area_at mo mi) (Al mi) {}"
      using ls by simp
    from bdisj_subset [OF area_okD(4) [OF this]] show ?thesis by simp
  qed
qed

lemma krnl_alloc:
  assumes ok: "mgr_ok mo Al" and mi: "mi < mo_mareanr mo" and ty: "ma_type (area_at mo mi) = MA_TYPE_KRNL" and n: "0 < n"
  obtains d where "retn_divoder n = int d" "unat n \<le> 2 ^ d" "d = 0 \<or> 2 ^ (d - 1) < unat n"
    "(\<exists>st mo'. alloc_krnl n mo = Some (Some st, 2 ^ d, mo') \<and> d < 52 \<and> taken mo Al mi st d mo') \<or>
     alloc_krnl n mo = Some (None, 0, mo)"
proof -
  obtain d where d: "retn_divoder n = int d" "unat n \<le> 2 ^ d" "d = 0 \<or> 2 ^ (d - 1) < unat n"
    by (rule retn_divoder_bounds [OF n])
  have "(\<exists>st mo'. alloc_krnl n mo = Some (Some st, 2 ^ d, mo') \<and> d < 52 \<and> taken mo Al mi st d mo') \<or>
     alloc_krnl n mo = Some (None, 0, mo)"
  proof (cases "\<exists>j. fits (area_at mo mi) d j")
    case True
    then have "d < 52" by (auto simp: fits_def)
    then show ?thesis using division_take [OF ok mi _ n d(1,2) True] ty by (auto simp: alloc_krnl_def)
  next
    case False
    then show ?thesis using division_none [OF ok mi _ d(1,2)] ty by (simp add: alloc_krnl_def)
  qed
  then show thesis using that d by blast
qed

interpretation kpages: page_alloc krnl_inv "\<lambda>mo. free_of (area_at mo (krnl_area mo))" alloc_krnl
  "\<lambda>st n mo. mm_merge_pages mo (Some st) n"
proof
  fix s :: memmgrob_t and A and n m :: u64 and st s' d
  assume i: "krnl_inv s A"
  then obtain Al where a: "mgr_ok s Al" "krnl_area s < mo_mareanr s" "ma_type (area_at s (krnl_area s)) = MA_TYPE_KRNL"
    "Al (krnl_area s) = A" by (auto simp: krnl_inv_def)
  let ?mi = "krnl_area s"
  show "bdisj A \<and> free_of (area_at s ?mi) \<inter> bunion A = {}" using area_apart [OF a(1,2)] a(4) by simp
  show "alloc_krnl n s \<noteq> None" if n: "0 < n"
    by (rule krnl_alloc [OF a(1-3) n]) auto
  show "s' = s" if "0 < n" "alloc_krnl n s = Some (None, m, s')"
    by (rule krnl_alloc [OF a(1-3) that(1)]) (use that(2) in auto)
  show "\<exists>d < 52. m = 2 ^ d \<and> unat n \<le> 2 ^ d \<and> (d = 0 \<or> 2 ^ (d - 1) < unat n) \<and> krnl_inv s' (insert (st, d) A) \<and>
      blk st d \<subseteq> free_of (area_at s ?mi) \<and> free_of (area_at s' (krnl_area s')) = free_of (area_at s ?mi) - blk st d"
    if n: "0 < n" and r: "alloc_krnl n s = Some (Some st, m, s')"
  proof (rule krnl_alloc [OF a(1-3) n])
    fix d assume d: "unat n \<le> 2 ^ d" "d = 0 \<or> 2 ^ (d - 1) < unat n"
      "(\<exists>st mo'. alloc_krnl n s = Some (Some st, 2 ^ d, mo') \<and> d < 52 \<and> taken s Al ?mi st d mo') \<or> alloc_krnl n s = Some (None, 0, s)"
    then have t: "taken s Al ?mi st d s'" "m = 2 ^ d" "d < 52" using r by auto
    then have k: "mgr_ok s' (Al(?mi := insert (st, d) A))" "?mi < mo_mareanr s'" "ma_type (area_at s' ?mi) = MA_TYPE_KRNL"
      using a by (simp_all add: taken_def)
    then have "krnl_area s' = ?mi" by (rule krnl_area_eq)
    then show ?thesis using t d krnl_invI [OF k, of "insert (st, d) A"] by (auto simp: taken_def)
  qed
  show "\<exists>s'. mm_merge_pages s (Some st) (2 ^ d) = Some (True, s') \<and> krnl_inv s' (A - {(st, d)}) \<and>
      free_of (area_at s' (krnl_area s')) = free_of (area_at s ?mi) \<union> blk st d" if "(st, d) \<in> A"
  proof -
    from merge_give [OF a(1,2)] that a(4) obtain mo' where g: "mm_merge_pages s (Some st) (2 ^ d) = Some (True, mo')"
      "given s Al ?mi st d mo'" by blast
    then have k: "mgr_ok mo' (Al(?mi := A - {(st, d)}))" "?mi < mo_mareanr mo'" "ma_type (area_at mo' ?mi) = MA_TYPE_KRNL"
      using a by (simp_all add: given_def)
    then have "krnl_area mo' = ?mi" by (rule krnl_area_eq)
    then show ?thesis using g krnl_invI [OF k, of "A - {(st, d)}"] by (auto simp: given_def)
  qed
qed

section \<open>Every call\<close>

lemma find_upt_less: "find P [0..<n] = Some m \<Longrightarrow> m < n \<and> P m"
  by (metis find_Some_iff nth_mem atLeastLessThan_iff set_upt)

lemma division_cases:
  assumes ok: "mgr_ok mo Al"
  shows "mm_division_pages mo pages mrtype flgs = Some (None, 0, mo) \<or>
    (\<exists>mi st d mo'. mi < mo_mareanr mo \<and> onmrtype_retn_marea mo mrtype = Some mi \<and> d < 52 \<and>
      mm_division_pages mo pages mrtype flgs = Some (Some st, 2 ^ d, mo') \<and> taken mo Al mi st d mo')"
proof (cases "onmrtype_retn_marea mo mrtype")
  case None
  then show ?thesis by (simp add: mm_division_pages_def mm_divpages_fmwk_def)
next
  case (Some mi)
  then have mi: "mi < mo_mareanr mo" and ty: "ma_type (area_at mo mi) = mrtype"
    using find_upt_less by (auto simp: onmrtype_retn_marea_def)
  consider (bad) "\<not> (mrtype = MA_TYPE_KRNL \<or> mrtype = MA_TYPE_HWAD) \<or> \<not> (flgs = DMF_RELDIV \<or> flgs = DMF_MAXDIV)"
    | (rel) "mrtype = MA_TYPE_KRNL \<or> mrtype = MA_TYPE_HWAD" "flgs = DMF_RELDIV"
    | (max) "mrtype = MA_TYPE_KRNL \<or> mrtype = MA_TYPE_HWAD" "flgs = DMF_MAXDIV" by blast
  then show ?thesis
  proof cases
    case bad
    then show ?thesis using Some ty by (auto simp: mm_division_pages_def mm_divpages_fmwk_def mm_divpages_core_def Let_def)
  next
    case rel
    have t: "ma_type (area_at mo mi) = MA_TYPE_KRNL \<or> ma_type (area_at mo mi) = MA_TYPE_HWAD" using rel ty by simp
    show ?thesis
    proof (cases "pages = 0")
      case True
      then show ?thesis using Some ty rel
        by (auto simp: mm_division_pages_def mm_divpages_fmwk_def mm_divpages_core_def mm_reldivpages_onmarea_def
          Let_def DMF_RELDIV_def DMF_MAXDIV_def)
    next
      case False
      then have n: "0 < pages" by (simp add: word_gt_0)
      obtain d where d: "retn_divoder pages = int d" "unat pages \<le> 2 ^ d" by (rule retn_divoder_bounds [OF n])
      show ?thesis
      proof (cases "\<exists>j. fits (area_at mo mi) d j")
        case True
        then have "d < 52" by (auto simp: fits_def)
        then show ?thesis using division_take [OF ok mi t n d True] Some mi ty rel by auto
      next
        case False
        then show ?thesis using division_none [OF ok mi t d] ty rel by simp
      qed
    qed
  next
    case max
    have t: "ma_type (area_at mo mi) = MA_TYPE_KRNL \<or> ma_type (area_at mo mi) = MA_TYPE_HWAD" using max ty by simp
    have "ma_type (area_at mo mi) \<noteq> MA_TYPE_PROC" using t by (auto simp: ma_consts)
    then have ar: "area_ok (ma_type (area_at mo mi)) mi (mo_msanr mo) (mo_msadscstat mo) (area_at mo mi) (Al mi) {}"
      using mgr_okD(2) [OF ok mi] by simp
    show ?thesis
    proof (cases "onma_retn_maxbafhlst (area_at mo mi)")
      case None
      then show ?thesis using division_max(2) [OF ok mi t] ty max by simp
    next
      case (Some d)
      from division_max(1) [OF ok mi t Some, of pages] obtain st mo' where
        "mm_division_pages mo pages mrtype flgs = Some (Some st, 2 ^ d, mo')" "taken mo Al mi st d mo'"
        using ty max by auto
      then show ?thesis using maxdiv_ok(1) [OF ar Some] mi \<open>onmrtype_retn_marea mo mrtype = Some mi\<close> by blast
    qed
  qed
qed

text \<open>The area a page belongs to.\<close>

definition area_of :: "memmgrob_t \<Rightarrow> nat \<Rightarrow> nat option" where
  "area_of mo st = find (\<lambda>mi. mf_marty (mo_msadscstat mo st) = ma_type (area_at mo mi)) [0..<mo_mareanr mo]"

lemma taken_area:
  assumes ok: "mgr_ok mo Al" and mi: "mi < mo_mareanr mo" and t: "taken mo Al mi st d mo'"
  shows "area_of mo st = Some mi"
proof -
  have "st \<in> free_of (area_at mo mi)" using t blk_mem(1) [of st d] by (auto simp: taken_def)
  then have "mf_marty (mo_msadscstat mo st) = ma_type (area_at mo mi)" using area_pages(3) [OF mgr_okD(2) [OF ok mi]] by blast
  then show ?thesis using find_marea(2) [OF ok mi] by (simp add: area_of_def)
qed

lemma user_cases:
  assumes ok: "mgr_ok mo Al"
  shows "mm_divpages_procmarea mo 1 = Some (None, 0, mo) \<or>
    (\<exists>mi st mo'. mi < mo_mareanr mo \<and> area_of mo st = Some mi \<and>
      mm_divpages_procmarea mo 1 = Some (Some st, 1, mo') \<and> taken mo Al mi st 0 mo')"
proof -
  have krnl: "mm_division_pages mo 1 MA_TYPE_KRNL DMF_RELDIV = Some (None, 0, mo) \<or>
    (\<exists>mi st mo'. mi < mo_mareanr mo \<and> area_of mo st = Some mi \<and>
      mm_division_pages mo 1 MA_TYPE_KRNL DMF_RELDIV = Some (Some st, 1, mo') \<and> taken mo Al mi st 0 mo')"
  proof (cases "onmrtype_retn_marea mo MA_TYPE_KRNL")
    case None
    then show ?thesis by (simp add: mm_division_pages_def mm_divpages_fmwk_def)
  next
    case (Some mi)
    then have mi: "mi < mo_mareanr mo" "ma_type (area_at mo mi) = MA_TYPE_KRNL"
      using find_upt_less by (auto simp: onmrtype_retn_marea_def)
    have d: "retn_divoder 1 = int 0" using retn_divoder_pow2 [of 0] by simp
    show ?thesis
    proof (cases "\<exists>j. fits (area_at mo mi) 0 j")
      case True
      from division_take [OF ok mi(1) _ _ d _ True] mi(2) show ?thesis using taken_area [OF ok mi(1)] mi(1) by auto
    next
      case False
      from division_none [OF ok mi(1) _ d _ False] mi(2) show ?thesis by simp
    qed
  qed
  show ?thesis
  proof (cases "retn_procmarea mo")
    case None
    then have "divpages_procmarea_core mo 1 = Some (None, 0, mo)" by (simp add: divpages_procmarea_core_def)
    then show ?thesis using krnl by (auto simp: mm_divpages_procmarea_def)
  next
    case (Some mi)
    then have mi: "mi < mo_mareanr mo" "ma_type (area_at mo mi) = MA_TYPE_PROC"
      using find_upt_less [OF Some [unfolded retn_procmarea_def]] by simp_all
    show ?thesis
    proof (cases "onel (area_at mo mi)")
      case Nil
      then show ?thesis using krnl procmarea_fallback [OF ok mi Nil] by auto
    next
      case (Cons s rest)
      then show ?thesis using procmarea_take [OF ok mi Cons] taken_area [OF ok mi(1)] mi(1) by auto
    qed
  qed
qed

section \<open>Sequences of calls\<close>

text \<open>The second component records which blocks the callers hold; callers free what they hold.\<close>

type_synonym pstate = "memmgrob_t \<times> (nat \<Rightarrow> block set)"

inductive pstep :: "pstate \<Rightarrow> pstate \<Rightarrow> bool" where
  p_alloc: "mm_division_pages mo pages mrtype flgs = Some (Some st, 2 ^ d, mo') \<Longrightarrow> d < 64 \<Longrightarrow>
    onmrtype_retn_marea mo mrtype = Some mi \<Longrightarrow> pstep (mo, Al) (mo', Al(mi := insert (st, d) (Al mi)))"
| p_fail: "mm_division_pages mo pages mrtype flgs = Some (None, n, mo') \<Longrightarrow> pstep (mo, Al) (mo', Al)"
| p_user: "mm_divpages_procmarea mo 1 = Some (Some st, n, mo') \<Longrightarrow> area_of mo st = Some mi \<Longrightarrow>
    pstep (mo, Al) (mo', Al(mi := insert (st, 0) (Al mi)))"
| p_user_fail: "mm_divpages_procmarea mo 1 = Some (None, n, mo') \<Longrightarrow> pstep (mo, Al) (mo', Al)"
| p_free: "mi < mo_mareanr mo \<Longrightarrow> (s, k) \<in> Al mi \<Longrightarrow> mm_merge_pages mo (Some s) (2 ^ k) = Some (b, mo') \<Longrightarrow>
    pstep (mo, Al) (mo', Al(mi := Al mi - {(s, k)}))"

lemma pow2_inj: "(2 :: u64) ^ d = 2 ^ e \<Longrightarrow> d < 64 \<Longrightarrow> e < 64 \<Longrightarrow> d = e"
proof -
  assume a: "(2 :: u64) ^ d = 2 ^ e" "d < 64" "e < 64"
  have "(2 :: nat) ^ d = 2 ^ e" using arg_cong [OF a(1), of unat] a(2,3) by simp
  then show "d = e" by simp
qed

lemma pstep_inv: "pstep p q \<Longrightarrow> mgr_ok (fst p) (snd p) \<Longrightarrow> mgr_ok (fst q) (snd q)"
proof (induction rule: pstep.induct)
  case (p_alloc mo pages mrtype flgs st d mo' mi Al)
  then obtain e where "2 ^ d = (2 :: u64) ^ e" "e < 52" "taken mo Al mi st e mo'"
    using division_cases [of mo Al pages mrtype flgs] by auto
  moreover from this p_alloc(2) have "d = e" using pow2_inj [of d e] by simp
  ultimately show ?case unfolding taken_def fst_conv snd_conv by blast
next
  case (p_fail mo pages mrtype flgs n mo' Al)
  then show ?case using division_cases [of mo Al pages mrtype flgs] by auto
next
  case (p_user mo st n mo' mi Al)
  then have "taken mo Al mi st 0 mo'" using user_cases [of mo Al] by auto
  then show ?case unfolding taken_def fst_conv snd_conv by blast
next
  case (p_user_fail mo n mo' Al)
  then show ?case using user_cases [of mo Al] by auto
next
  case (p_free mi mo s k Al b mo')
  then have "given mo Al mi s k mo'" using merge_give [of mo Al mi s k] by auto
  then show ?case unfolding given_def fst_conv snd_conv by blast
qed

interpretation prun: state_machine "\<lambda>p. mgr_ok (fst p) (snd p) \<and> snd p = (\<lambda>_. {})" pstep "\<lambda>p. mgr_ok (fst p) (snd p)"
  by unfold_locales (auto intro: pstep_inv)

text \<open>Blocks of different areas share no page either.\<close>

lemma mgr_disjoint:
  assumes ok: "mgr_ok mo Al" and i: "mi < mo_mareanr mo" "b \<in> Al mi" and j: "mj < mo_mareanr mo" "c \<in> Al mj"
    and ne: "(mi, b) \<noteq> (mj, c)"
  shows "bpages b \<inter> bpages c = {}" and "bpages b \<inter> free_of (area_at mo mj) = {}" and "bpages b \<subseteq> {..<mo_msanr mo}"
proof -
  note pi = area_pages [OF mgr_okD(2) [OF ok i(1)]] and pj = area_pages [OF mgr_okD(2) [OF ok j(1)]]
  have sub: "bpages b \<subseteq> bunion (Al mi)" "bpages c \<subseteq> bunion (Al mj)" using i(2) j(2) by (auto simp: bunion_def)
  show "bpages b \<subseteq> {..<mo_msanr mo}" using sub(1) pi(1) by blast
  have far: "bpages b \<inter> (free_of (area_at mo mj) \<union> bunion (Al mj)) = {}" if "mi \<noteq> mj"
  proof (rule ccontr)
    assume "\<not> ?thesis"
    then obtain x where "x \<in> bpages b" "x \<in> free_of (area_at mo mj) \<union> bunion (Al mj)" by blast
    then have "ma_type (area_at mo mi) = ma_type (area_at mo mj)" using pi(3) [of x] pj(3) [of x] sub(1) by auto
    then show False using mgr_okD(4) [OF ok i(1) j(1)] that by simp
  qed
  show "bpages b \<inter> bpages c = {}"
  proof (cases "mi = mj")
    case True
    then show ?thesis using area_apart(1) [OF ok i(1)] i(2) j(2) ne unfolding bdisj_def by blast
  next
    case False
    then show ?thesis using far sub(2) by blast
  qed
  show "bpages b \<inter> free_of (area_at mo mj) = {}"
  proof (cases "mi = mj")
    case True
    then show ?thesis using area_apart(2) [OF ok i(1)] sub(1) by blast
  next
    case False
    then show ?thesis using far by blast
  qed
qed

end
