(* ===== verification/PageAlloc_Main.thy ===== *)
theory PageAlloc_Main
  imports PageAlloc_Claims
begin

text \<open>
  The properties of the page allocator, with a small manager on which each is evaluated: a
  kernel area of eight pages in one block and a user area of one page.
\<close>

section \<open>A small manager\<close>

definition ex_msa :: msas where
  "ex_msa i = \<lparr>mf_olkty = (if i = 0 then MF_OLKTY_ODER else if i = 7 \<or> i = 8 then MF_OLKTY_BAFH else MF_OLKTY_INIT),
     mf_mocty = MF_MOCTY_FREE, mf_marty = (if i < 8 then MA_TYPE_KRNL else MA_TYPE_PROC), mf_uindx = 0, paf_alloc = False,
     paf_padrs = of_nat i,
     md_odlink = (if i = 0 then OMsa 7 else if i = 7 then OBafh 0 (Lie 3) else if i = 8 then OBafh 1 One else ONull)\<rparr>"

definition ex_bafh :: "nat \<Rightarrow> nat list \<Rightarrow> bafhlst_t" where
  "ex_bafh k l = \<lparr>af_stus = 0, af_oder = of_nat k, af_oderpnr = 2 ^ k, af_fobjnr = of_nat (length l),
     af_mobjnr = of_nat (length l), af_alcindx = 0, af_freindx = 0, af_frelst = l\<rparr>"

definition ex_area :: "nat \<Rightarrow> u64 \<Rightarrow> nat list \<Rightarrow> nat list \<Rightarrow> memarea_t" where
  "ex_area ty n l3 l1 = \<lparr>ma_type = ty, ma_maxpages = n, ma_allocpages = 0, ma_freepages = n, ma_logicstart = 0,
     ma_logicend = 0, ma_logicsz = 0, ma_allmsadscnr = n,
     ma_mdmdata = \<lparr>dm_mdmlielst = (\<lambda>k. ex_bafh k (if k = 3 then l3 else [])), dm_onemsalst = ex_bafh 0 l1\<rparr>\<rparr>"

definition ex_mo :: memmgrob_t where
  "ex_mo = \<lparr>mo_maxpages = 9, mo_freepages = 9, mo_alocpages = 0, mo_msadscstat = ex_msa, mo_msanr = 9,
     mo_mareastat = (\<lambda>i. if i = 0 then ex_area MA_TYPE_KRNL 8 [0] [] else ex_area MA_TYPE_PROC 1 [] [8]), mo_mareanr = 2\<rparr>"

lemma ex_blocks: "blocks (ex_area ty n l3 l1) = (\<lambda>s. (s, 3)) ` set l3"
  by (auto simp: blocks_def ex_area_def ex_bafh_def get_bafh.simps)

lemma ex_free: "free_pages (ex_area ty n [0] l1) = {..<8}"
  by (auto simp: free_pages_def ex_blocks bunion_def blk_def)

lemma ex_bafh_ok: "distinct l \<Longrightarrow> bafh_ok (ex_bafh k l) k"
  by (simp add: bafh_ok_def ex_bafh_def)

lemma ex_get: "get_bafh (ex_area ty n l3 l1) (Lie k) = ex_bafh k (if k = 3 then l3 else [])"
  "get_bafh (ex_area ty n l3 l1) One = ex_bafh 0 l1"
  by (simp_all add: ex_area_def get_bafh.simps)

lemma ex_area_ok: "area_ok MA_TYPE_KRNL 0 9 ex_msa (ex_area MA_TYPE_KRNL 8 [0] []) {} {}"
proof -
  have "pages_ok MA_TYPE_KRNL ex_msa 0 3" by (simp add: pages_ok_def ex_msa_def)
  moreover have "clear_ok ex_msa (blk 0 3)" by (simp add: clear_ok_def ex_msa_def)
  moreover have "free_link 0 ex_msa 0 3" by (simp add: free_link_def ex_msa_def lastp_def)
  ultimately have "free_blk MA_TYPE_KRNL 0 ex_msa 0 3" by (simp add: free_blk_def)
  then show ?thesis by (auto simp: area_ok_def ex_blocks ex_get ex_bafh_ok bdisj_def bunion_def blk_def)
qed

lemma ex_sel: "ma_type (ex_area ty n l3 l1) = ty" "ma_maxpages (ex_area ty n l3 l1) = n"
  "ma_freepages (ex_area ty n l3 l1) = n" "ma_allocpages (ex_area ty n l3 l1) = 0"
  by (simp_all add: ex_area_def)

lemma ex_free_of: "free_of (ex_area MA_TYPE_KRNL 8 [0] []) = {..<8}" "free_of (ex_area MA_TYPE_PROC 1 [] [8]) = {8}"
  using ex_free by (auto simp: free_of_def ex_sel ex_get ma_consts) (simp_all add: ex_bafh_def)

lemma ex_one_ok: "one_ok MA_TYPE_PROC 1 9 ex_msa (ex_area MA_TYPE_PROC 1 [] [8]) {}"
  unfolding one_ok_def ex_get by (simp add: ex_bafh_ok) (simp add: ex_bafh_def one_free_def ex_msa_def)

lemma ex_mgr_ok: "mgr_ok ex_mo (\<lambda>_. {})"
proof -
  have "area_inv 9 ex_msa 1 (ex_area MA_TYPE_PROC 1 [] [8]) {}" "area_inv 9 ex_msa 0 (ex_area MA_TYPE_KRNL 8 [0] []) {}"
    using ex_one_ok ex_area_ok by (simp_all add: area_inv_def area_lists_ok_def ex_free_of ex_sel) (simp_all add: ma_consts)
  then have "area_inv 9 ex_msa mi (if mi = 0 then ex_area MA_TYPE_KRNL 8 [0] [] else ex_area MA_TYPE_PROC 1 [] [8]) {}"
    if "mi < 2" for mi using that by (cases "mi = 0") (simp_all add: numeral_2_eq_2 less_Suc_eq)
  moreover have "{..<2} = {0, 1 :: nat}" by auto
  ultimately show ?thesis
    by (simp add: mgr_ok_def ex_mo_def inj_on_def ex_free_of if_distrib ex_sel) (simp add: ma_consts)
qed

lemma ex_types: "ma_type (area_at ex_mo 0) = MA_TYPE_KRNL" "ma_type (area_at ex_mo 1) = MA_TYPE_PROC"
  "mo_mareanr ex_mo = 2" "onel (area_at ex_mo 1) = [8]"
  by (simp_all add: ex_mo_def ex_sel ex_get) (simp add: ex_bafh_def)

lemma ex_fits: "d \<le> 3 \<Longrightarrow> fits (area_at ex_mo 0) d 3"
  by (simp add: fits_def ex_mo_def ex_get) (simp add: ex_bafh_def)

lemma bunion_free: "mgr_ok mo Al \<Longrightarrow> mi < mo_mareanr mo \<Longrightarrow> b \<in> Al mi \<Longrightarrow> s \<in> bpages b \<Longrightarrow> s \<notin> free_of (area_at mo mi)"
  using area_apart(2) [of mo Al mi] by (auto simp: bunion_def)

section \<open>Properties\<close>

text \<open>C8. \<open>mm_division_pages\<close> on a kernel or hardware area: with \<open>d\<close> the least order that holds the
  request, it returns a block of exactly \<open>2 ^ d\<close> pages when some list from \<open>d\<close> on has a block, all of
  whose pages were free, and these pages and no others leave the free pages of the area; the
  invariant of all areas and all counters stays true. Otherwise it returns no block and
  changes nothing. It never ends in \<open>system_error\<close>.\<close>

theorem page_alloc_correct:
  assumes "mgr_ok mo Al" and "mi < mo_mareanr mo"
    and "ma_type (area_at mo mi) = MA_TYPE_KRNL \<or> ma_type (area_at mo mi) = MA_TYPE_HWAD" and "0 < pages"
  shows "\<exists>d. unat pages \<le> 2 ^ d \<and> (d = 0 \<or> 2 ^ (d - 1) < unat pages) \<and>
    (if \<exists>j. fits (area_at mo mi) d j
     then \<exists>st mo'. mm_division_pages mo pages (ma_type (area_at mo mi)) DMF_RELDIV = Some (Some st, 2 ^ d, mo') \<and>
       taken mo Al mi st d mo'
     else mm_division_pages mo pages (ma_type (area_at mo mi)) DMF_RELDIV = Some (None, 0, mo))"
proof (rule retn_divoder_bounds [OF assms(4)])
  fix d assume "retn_divoder pages = int d" "unat pages \<le> 2 ^ d" "d = 0 \<or> 2 ^ (d - 1) < unat pages"
  then show ?thesis using division_take [OF assms] division_none [OF assms(1-3)] by (intro exI [of _ d]) auto
qed

theorem page_alloc_correct_witness:
  "\<exists>st mo'. mm_division_pages ex_mo 3 MA_TYPE_KRNL DMF_RELDIV = Some (Some st, 4, mo') \<and> taken ex_mo (\<lambda>_. {}) 0 st 2 mo'"
proof -
  have "\<exists>d. 3 \<le> (2 :: nat) ^ d \<and> (d = 0 \<or> 2 ^ (d - 1) < (3 :: nat)) \<and>
    (if \<exists>j. fits (area_at ex_mo 0) d j
     then \<exists>st mo'. mm_division_pages ex_mo 3 MA_TYPE_KRNL DMF_RELDIV = Some (Some st, 2 ^ d, mo') \<and>
       taken ex_mo (\<lambda>_. {}) 0 st d mo'
     else mm_division_pages ex_mo 3 MA_TYPE_KRNL DMF_RELDIV = Some (None, 0, ex_mo))"
    using page_alloc_correct [OF ex_mgr_ok, of 0 3, unfolded ex_types] by simp
  then obtain d where d: "3 \<le> (2 :: nat) ^ d" "d = 0 \<or> 2 ^ (d - 1) < (3 :: nat)"
    "if \<exists>j. fits (area_at ex_mo 0) d j
     then \<exists>st mo'. mm_division_pages ex_mo 3 MA_TYPE_KRNL DMF_RELDIV = Some (Some st, 2 ^ d, mo') \<and>
       taken ex_mo (\<lambda>_. {}) 0 st d mo'
     else mm_division_pages ex_mo 3 MA_TYPE_KRNL DMF_RELDIV = Some (None, 0, ex_mo)" by blast
  have "d = 2"
  proof -
    have "d \<noteq> 0" using d(1) by (cases d) auto
    moreover have "d \<noteq> 1" using d(1) by auto
    moreover have "d - 1 < 2" using d(2) \<open>d \<noteq> 0\<close> power_increasing [of 2 "d - 1" "2 :: nat"] by (cases "d - 1 < 2") auto
    ultimately show ?thesis by linarith
  qed
  moreover have "\<exists>j. fits (area_at ex_mo 0) 2 j" using ex_fits [of 2] by auto
  ultimately show ?thesis using d(3) by simp
qed

text \<open>C9. \<open>mm_merge_pages\<close> on a block in use returns true: the block is merged with its free
  neighbours, its pages and no others become free, the blocks in use are the other ones, and the
  invariant of all areas and all counters stays true. It never ends in \<open>system_error\<close>.\<close>

theorem page_free_correct:
  assumes "mgr_ok mo Al" and "mi < mo_mareanr mo" and "(s, k) \<in> Al mi"
  shows "\<exists>mo'. mm_merge_pages mo (Some s) (2 ^ k) = Some (True, mo') \<and> given mo Al mi s k mo'"
  using merge_give [OF assms] .

theorem page_free_correct_witness:
  "\<exists>st mo mo'. taken ex_mo (\<lambda>_. {}) 0 st 0 mo \<and> mm_merge_pages mo (Some st) 1 = Some (True, mo') \<and>
     given mo ((\<lambda>_. {})(0 := {(st, 0)})) 0 st 0 mo'"
proof -
  have "retn_divoder 1 = int 0" using retn_divoder_pow2 [of 0] by simp
  then obtain st mo where t: "taken ex_mo (\<lambda>_. {}) 0 st 0 mo"
    using division_take [OF ex_mgr_ok, of 0 1 0] ex_fits [of 0] by (auto simp: ex_types)
  then have "mgr_ok mo ((\<lambda>_. {})(0 := {(st, 0)}))" "0 < mo_mareanr mo" by (simp_all add: taken_def ex_types)
  from page_free_correct [OF this, of st 0] t show ?thesis by auto
qed


lemma ex_run:
  "\<exists>st mo. pstep\<^sup>*\<^sup>* (ex_mo, \<lambda>_. {}) (mo, (\<lambda>_. {})(0 := {(st, 1)}, 1 := {(8, 0)})) \<and> mo_mareanr mo = 2"
proof -
  have "retn_divoder 2 = int 1" using retn_divoder_pow2 [of 1] by simp
  then obtain st mo where t: "mm_division_pages ex_mo 2 MA_TYPE_KRNL DMF_RELDIV = Some (Some st, 2 ^ 1, mo)" "taken ex_mo (\<lambda>_. {}) 0 st 1 mo"
    using division_take [OF ex_mgr_ok, of 0 2 1] ex_fits [of 1] by (auto simp: ex_types)
  have "onmrtype_retn_marea ex_mo MA_TYPE_KRNL = Some 0"
    using find_marea(1) [OF ex_mgr_ok, of 0 MA_TYPE_KRNL] by (simp add: ex_types)
  from p_alloc [OF t(1) _ this, of "\<lambda>_. {}"] have s1: "pstep (ex_mo, \<lambda>_. {}) (mo, (\<lambda>_. {})(0 := {(st, 1)}))" by simp
  have ok: "mgr_ok mo ((\<lambda>_. {})(0 := {(st, 1)}))" "1 < mo_mareanr mo" "area_at mo 1 = area_at ex_mo 1"
    using t(2) by (simp_all add: taken_def ex_types)
  obtain mo' where u: "mm_divpages_procmarea mo 1 = Some (Some 8, 1, mo')" "taken mo ((\<lambda>_. {})(0 := {(st, 1)})) 1 8 0 mo'"
    using procmarea_take [OF ok(1,2), of 8 "[]"] ex_types ok(3) by auto
  have "pstep (mo, (\<lambda>_. {})(0 := {(st, 1)})) (mo', (\<lambda>_. {})(0 := {(st, 1)}, 1 := {(8, 0)}))"
    using p_user [OF u(1) taken_area [OF ok(1,2) u(2)], of "(\<lambda>_. {})(0 := {(st, 1)})"] by simp
  with s1 have "pstep\<^sup>*\<^sup>* (ex_mo, \<lambda>_. {}) (mo', (\<lambda>_. {})(0 := {(st, 1)}, 1 := {(8, 0)}))"
    by (meson converse_rtranclp_into_rtranclp rtranclp.rtrancl_refl)
  moreover have "mo_mareanr mo' = 2" using u(2) t(2) by (simp add: taken_def ex_types)
  ultimately show ?thesis by blast
qed



lemma ex_krnl: "krnl_inv ex_mo {}"
  using krnl_invI [OF ex_mgr_ok, of 0] by (simp add: ex_types)


text \<open>C12. A page that is free is refused by \<open>mm_merge_pages\<close>, whatever number of pages is given:
  the result is false and nothing changes, so a block is never freed twice.\<close>

theorem page_double_free_refused:
  assumes "mgr_ok mo Al" and "mi < mo_mareanr mo" and "s \<in> free_of (area_at mo mi)"
  shows "mm_merge_pages mo (Some s) n = Some (False, mo)"
  using merge_refused [OF free_unused [OF assms]] .

theorem page_double_free_refused_witness: "mm_merge_pages ex_mo (Some 0) 8 = Some (False, ex_mo)"
  using page_double_free_refused [OF ex_mgr_ok, of 0 0 8] by (simp add: ex_types) (simp add: ex_mo_def ex_free_of)

text \<open>C13. \<open>retn_divoder\<close> is the least order whose block holds the pages.\<close>

theorem retn_divoder_least:
  assumes "0 < pages"
  shows "retn_divoder pages = int (LEAST d. unat pages \<le> 2 ^ d)"
proof (rule retn_divoder_bounds [OF assms])
  fix d assume d: "retn_divoder pages = int d" "unat pages \<le> 2 ^ d" "d = 0 \<or> 2 ^ (d - 1) < unat pages"
  have "(LEAST d. unat pages \<le> 2 ^ d) = d"
  proof (rule Least_equality, rule d(2))
    fix e :: nat assume e: "unat pages \<le> 2 ^ e"
    show "d \<le> e"
    proof (rule ccontr)
      assume "\<not> d \<le> e"
      then have "(2 :: nat) ^ e \<le> 2 ^ (d - 1)" "d \<noteq> 0" by simp_all
      then show False using d(3) e by linarith
    qed
  qed
  then show ?thesis using d(1) by simp
qed

theorem retn_divoder_least_witness: "retn_divoder 5 = 3 \<and> retn_divoder 5 = int (LEAST d. unat (5 :: u64) \<le> 2 ^ d)"
  using retn_divoder_least [of 5] by (simp add: retn_divoder_def search_64rlbits_def bitlen.simps)

text \<open>C14. With \<open>DMF_MAXDIV\<close> the largest free block of the area is returned whole.\<close>

theorem page_alloc_max:
  assumes "mgr_ok mo Al" and "mi < mo_mareanr mo"
    and "ma_type (area_at mo mi) = MA_TYPE_KRNL \<or> ma_type (area_at mo mi) = MA_TYPE_HWAD"
    and "onma_retn_maxbafhlst (area_at mo mi) = Some d"
  shows "\<exists>st mo'. mm_division_pages mo pages (ma_type (area_at mo mi)) DMF_MAXDIV = Some (Some st, 2 ^ d, mo') \<and>
    taken mo Al mi st d mo' \<and> (\<forall>j. fits (area_at mo mi) j j \<longrightarrow> j \<le> d)"
  using division_max(1) [OF assms] .

lemma ex_max: "onma_retn_maxbafhlst (area_at ex_mo 0) = Some 3"
proof -
  have l: "rev [0..<MDIVMER_ARR_LMAX] = rev [4..<MDIVMER_ARR_LMAX] @ 3 # rev [0..<3]"
    unfolding MDIVMER_ARR_LMAX_def by (simp add: upt_rec)
  have "find P (xs @ y # ys) = Some y" if "\<forall>x \<in> set xs. \<not> P x" "P y" for P :: "nat \<Rightarrow> bool" and xs y ys
    using that by (induction xs) auto
  then show ?thesis unfolding onma_retn_maxbafhlst_def l by (simp add: ex_mo_def ex_get) (simp add: ex_bafh_def)
qed

theorem page_alloc_max_witness:
  "\<exists>st mo'. mm_division_pages ex_mo 1 MA_TYPE_KRNL DMF_MAXDIV = Some (Some st, 8, mo') \<and> taken ex_mo (\<lambda>_. {}) 0 st 3 mo'"
  using page_alloc_max [OF ex_mgr_ok _ _ ex_max, of 1] by (auto simp: ex_types)

text \<open>C15. A user page comes from the user area while it has a free page, and from the kernel area
  afterwards.\<close>

theorem user_page_correct:
  assumes "mgr_ok mo Al" and "mi < mo_mareanr mo" and "ma_type (area_at mo mi) = MA_TYPE_PROC"
  shows "case onel (area_at mo mi) of
      s # rest \<Rightarrow> \<exists>mo'. mm_divpages_procmarea mo 1 = Some (Some s, 1, mo') \<and> taken mo Al mi s 0 mo'
    | [] \<Rightarrow> \<exists>r n mo'. mm_division_pages mo 1 MA_TYPE_KRNL DMF_RELDIV = Some (r, n, mo') \<and>
        mm_divpages_procmarea mo 1 = Some (r, n, mo')"
proof (cases "onel (area_at mo mi)")
  case Nil
  from division_cases [OF assms(1), of 1 MA_TYPE_KRNL DMF_RELDIV] show ?thesis
    using procmarea_fallback [OF assms Nil] Nil by auto
next
  case (Cons s rest)
  then show ?thesis using procmarea_take [OF assms Cons] by simp
qed

theorem user_page_correct_witness:
  "\<exists>mo'. mm_divpages_procmarea ex_mo 1 = Some (Some 8, 1, mo') \<and> taken ex_mo (\<lambda>_. {}) 1 8 0 mo'"
  using user_page_correct [OF ex_mgr_ok, of 1, unfolded ex_types] by simp

end
