(* ===== verification/Bootmem.thy ===== *)
theory Bootmem
  imports PageAlloc
begin

text \<open>
  Memory before the page allocator runs: the address checks and conversions of
  \<open>hal/x86/halplatform.c\<close>, the memory layout of \<open>hal/x86/halmm.c\<close> and the array of page
  descriptors of \<open>hal/x86/msadsc.c\<close>. An array in memory is a function on indices; the
  pointers to it are its addresses in \<open>machbstart_t\<close>, of which the fields these files read
  or write are kept.
\<close>

section \<open>Data\<close>

record e820map_t =
  e8_saddr :: u64
  e8_lsize :: u64
  e8_type :: nat

record phymmarge_t =
  pmr_type :: nat
  pmr_stype :: nat
  pmr_dtype :: nat
  pmr_flgs :: nat
  pmr_stus :: nat
  pmr_saddr :: u64
  pmr_lsize :: u64
  pmr_end :: u64
  pmr_rrvmsaddr :: u64
  pmr_rrvmend :: u64

record machbstart_t =
  mb_krlinitstack :: u64
  mb_krlitstacksz :: u64
  mb_imgpadr :: u64
  mb_imgsz :: u64
  mb_krlimgpadr :: u64
  mb_krlsz :: u64
  mb_nextwtpadr :: u64
  mb_bfontpadr :: u64
  mb_bfontsz :: u64
  mb_e820padr :: u64
  mb_e820nr :: u64
  mb_e820sz :: u64
  mb_e820expadr :: u64
  mb_e820exnr :: u64
  mb_e820exsz :: u64
  mb_memznpadr :: u64
  mb_memznnr :: u64
  mb_memznsz :: u64
  mb_memmappadr :: u64
  mb_memmapnr :: u64
  mb_memmapsz :: u64
  mb_kpmapphymemsz :: u64

definition KRNL_MAP_VIRTADDRESS_START :: u64 where "KRNL_MAP_VIRTADDRESS_START = 0xffff800000000000"
definition KRNL_MAP_VIRTADDRESS_END :: u64 where "KRNL_MAP_VIRTADDRESS_END = KRNL_MAP_VIRTADDRESS_START + 0x400000000"
definition KRNL_MAP_PHYADDRESS_END :: u64 where "KRNL_MAP_PHYADDRESS_END = 0x400000000"
definition PAGESIZE :: u64 where "PAGESIZE = 4096"
definition sizeof_phymmarge_t :: u64 where "sizeof_phymmarge_t = 80"
definition sizeof_msadsc_t :: u64 where "sizeof_msadsc_t = 40"
definition PMR_T_OSAPUSERRAM :: nat where "PMR_T_OSAPUSERRAM = 1"
definition PMR_T_RESERVRAM :: nat where "PMR_T_RESERVRAM = 2"
definition PMR_T_HWUSERRAM :: nat where "PMR_T_HWUSERRAM = 8"
definition PMR_T_BUGRAM :: nat where "PMR_T_BUGRAM = 0xff"
definition PMR_F_X86_64 :: nat where "PMR_F_X86_64 = 2"

definition PAGE_ALIGN :: "u64 \<Rightarrow> u64" where "PAGE_ALIGN n = ALIGN n PAGESIZE"

section \<open>Addresses\<close>

definition viradr_to_phyadr :: "u64 \<Rightarrow> u64 option" where
  "viradr_to_phyadr kviradr =
     (if kviradr < KRNL_MAP_VIRTADDRESS_START \<or> kviradr > KRNL_MAP_VIRTADDRESS_END
      then system_error ''virtadr_to_phyadr err''
      else Some (kviradr - KRNL_MAP_VIRTADDRESS_START))"

definition phyadr_to_viradr :: "u64 \<Rightarrow> u64 option" where
  "phyadr_to_viradr kphyadr =
     (if kphyadr \<ge> KRNL_MAP_PHYADDRESS_END then system_error ''phyadr_to_viradr err''
      else Some (kphyadr + KRNL_MAP_VIRTADDRESS_START))"

definition adrzone_is_ok :: "u64 \<Rightarrow> u64 \<Rightarrow> u64 \<Rightarrow> u64 \<Rightarrow> int" where
  "adrzone_is_ok sadr slen kadr klen =
     (if kadr \<ge> sadr \<and> kadr \<le> sadr + slen then -1
      else if kadr \<le> sadr \<and> kadr + klen \<ge> sadr then -2
      else 0)"

definition initchkadr_is_ok :: "machbstart_t \<Rightarrow> u64 \<Rightarrow> u64 \<Rightarrow> int" where
  "initchkadr_is_ok mbsp chkadr cksz =
     (if adrzone_is_ok (mb_krlinitstack mbsp - mb_krlitstacksz mbsp) (mb_krlitstacksz mbsp) chkadr cksz \<noteq> 0 then -1
      else if adrzone_is_ok (mb_imgpadr mbsp) (mb_imgsz mbsp) chkadr cksz \<noteq> 0 then -2
      else if adrzone_is_ok (mb_krlimgpadr mbsp) (mb_krlsz mbsp) chkadr cksz \<noteq> 0 then -3
      else if adrzone_is_ok (mb_bfontpadr mbsp) (mb_bfontsz mbsp) chkadr cksz \<noteq> 0 then -4
      else if adrzone_is_ok (mb_e820padr mbsp) (mb_e820sz mbsp) chkadr cksz \<noteq> 0 then -5
      else if adrzone_is_ok (mb_memznpadr mbsp) (mb_memznsz mbsp) chkadr cksz \<noteq> 0 then -6
      else if adrzone_is_ok (mb_memmappadr mbsp) (mb_memmapsz mbsp) chkadr cksz \<noteq> 0 then -7
      else if adrzone_is_ok (mb_e820expadr mbsp) (mb_e820exsz mbsp) chkadr cksz \<noteq> 0 then -8
      else if chkadr + cksz \<ge> mb_kpmapphymemsz mbsp then -9
      else 0)"

section \<open>The memory layout\<close>

definition phymmarge_t_init :: phymmarge_t where
  "phymmarge_t_init = \<lparr>pmr_type = 0, pmr_stype = 0, pmr_dtype = 0, pmr_flgs = 0, pmr_stus = 0, pmr_saddr = 0,
     pmr_lsize = 0, pmr_end = 0, pmr_rrvmsaddr = 0, pmr_rrvmend = 0\<rparr>"

text \<open>No address and size 0 when the map is missing or the place for the array is taken.\<close>

definition ret_phymmarge_adrandsz :: "machbstart_t \<Rightarrow> u64 option \<times> u64" where
  "ret_phymmarge_adrandsz mbsp =
     (if mb_e820sz mbsp = 0 \<or> mb_e820padr mbsp = 0 \<or> mb_e820nr mbsp = 0 then (None, 0)
      else
        (let tmpsz = mb_e820nr mbsp * sizeof_phymmarge_t;
             tmpphyadr = mb_nextwtpadr mbsp
         in if initchkadr_is_ok mbsp tmpphyadr tmpsz \<noteq> 0 then (None, 0) else (Some tmpphyadr, tmpsz)))"

definition pmr_types :: "nat \<Rightarrow> nat \<times> nat" where
  "pmr_types t =
     (if t = 1 then (PMR_T_OSAPUSERRAM, 1) else if t = 2 then (PMR_T_RESERVRAM, 2)
      else if t = 3 then (PMR_T_HWUSERRAM, 3) else if t = 4 then (PMR_T_HWUSERRAM, 4)
      else if t = 5 then (PMR_T_BUGRAM, 5) else if t = 6 then (PMR_T_BUGRAM, 6)
      else (0, 0))"

definition init_one_pmrge :: "e820map_t \<Rightarrow> bool \<times> phymmarge_t" where
  "init_one_pmrge e8p =
     (case pmr_types (e8_type e8p) of (ptype, pstype) \<Rightarrow>
        if ptype = 0 then (False, phymmarge_t_init)
        else (True, phymmarge_t_init\<lparr>pmr_type := ptype, pmr_stype := pstype, pmr_flgs := PMR_F_X86_64,
               pmr_saddr := e8_saddr e8p, pmr_lsize := e8_lsize e8p,
               pmr_end := e8_saddr e8p + e8_lsize e8p - 1\<rparr>))"

definition phymmarge_swap :: "nat \<Rightarrow> nat \<Rightarrow> (nat \<Rightarrow> phymmarge_t) \<Rightarrow> nat \<Rightarrow> phymmarge_t" where
  "phymmarge_swap s d argp = (let tmp = argp s; argp = argp(s := argp d) in argp(d := tmp))"

text \<open>The inner loop from \<open>i\<close> with \<open>n\<close> steps left, and the outer loop from \<open>j\<close> with \<open>n\<close> rounds left.\<close>

fun sort_inner :: "nat \<Rightarrow> nat \<Rightarrow> (nat \<Rightarrow> phymmarge_t) \<Rightarrow> nat \<Rightarrow> phymmarge_t" where
  "sort_inner i 0 argp = argp"
| "sort_inner i (Suc n) argp =
     sort_inner (Suc i) n (if pmr_saddr (argp i) > pmr_saddr (argp (Suc i)) then phymmarge_swap i (Suc i) argp else argp)"

fun sort_outer :: "nat \<Rightarrow> nat \<Rightarrow> nat \<Rightarrow> (nat \<Rightarrow> phymmarge_t) \<Rightarrow> nat \<Rightarrow> phymmarge_t" where
  "sort_outer k j 0 argp = argp"
| "sort_outer k j (Suc n) argp = sort_outer k (Suc j) n (sort_inner 0 (k - j) argp)"

definition phymmarge_sort :: "u64 \<Rightarrow> (nat \<Rightarrow> phymmarge_t) \<Rightarrow> nat \<Rightarrow> phymmarge_t" where
  "phymmarge_sort nr argp = (let k = unat (nr - 1) in sort_outer k 0 k argp)"

fun initpmrge_loop :: "(nat \<Rightarrow> e820map_t) \<Rightarrow> nat \<Rightarrow> nat \<Rightarrow> (nat \<Rightarrow> phymmarge_t) \<Rightarrow> nat \<times> (nat \<Rightarrow> phymmarge_t)" where
  "initpmrge_loop e8sp i 0 pm = (i, pm)"
| "initpmrge_loop e8sp i (Suc n) pm =
     (case init_one_pmrge (e8sp i) of (ok, p) \<Rightarrow>
        if \<not> ok then (i, pm(i := p)) else initpmrge_loop e8sp (Suc i) n (pm(i := p)))"

definition initpmrge_core :: "(nat \<Rightarrow> e820map_t) \<Rightarrow> u64 \<Rightarrow> (nat \<Rightarrow> phymmarge_t) \<Rightarrow> u64 \<times> (nat \<Rightarrow> phymmarge_t)" where
  "initpmrge_core e8sp e8nr pm =
     (if e8nr < 1 then (0, pm)
      else (case initpmrge_loop e8sp 0 (unat e8nr) pm of (n, pm) \<Rightarrow> (of_nat n, pm)))"

definition init_phymmarge ::
    "(nat \<Rightarrow> e820map_t) \<Rightarrow> (nat \<Rightarrow> phymmarge_t) \<Rightarrow> machbstart_t \<Rightarrow> ((nat \<Rightarrow> phymmarge_t) \<times> machbstart_t) option" where
  "init_phymmarge e8p pm mbsp =
     (case ret_phymmarge_adrandsz mbsp of
        (None, sz) \<Rightarrow> system_error ''init_phymmarge->NULL==pmarge_adr''
      | (Some pmarge_adr, pmrge_sz) \<Rightarrow>
          if pmarge_adr = 0 \<or> pmrge_sz = 0 then system_error ''init_phymmarge->0==pmrgesz''
          else
            (case initpmrge_core e8p (mb_e820nr mbsp) pm of (ipmgnr, pm) \<Rightarrow>
               if ipmgnr = 0 then system_error ''init_phymmarge->initpmrge_core ret 0''
               else if ipmgnr * sizeof_phymmarge_t \<noteq> pmrge_sz then system_error ''init_phymmarge->!=pmrgesz''
               else
                 (let mbsp = mbsp\<lparr>mb_e820expadr := mb_nextwtpadr mbsp, mb_e820exnr := ipmgnr,
                        mb_e820exsz := ipmgnr * sizeof_phymmarge_t\<rparr>;
                      mbsp = mbsp\<lparr>mb_nextwtpadr := PAGE_ALIGN (mb_e820expadr mbsp + mb_e820exsz mbsp)\<rparr>
                  in Some (phymmarge_sort ipmgnr pm, mbsp))))"

section \<open>The page descriptors\<close>

definition msadsc_t_init :: msadsc_t where
  "msadsc_t_init = \<lparr>mf_olkty = MF_OLKTY_INIT, mf_mocty = MF_MOCTY_FREE, mf_marty = 0, mf_uindx = 0,
     paf_alloc = False, paf_padrs = 0, md_odlink = ONull\<rparr>"

text \<open>The 52 upper bits of the address are the page number.\<close>

definition write_one_msadsc :: "u64 \<Rightarrow> msadsc_t" where
  "write_one_msadsc phyadr = msadsc_t_init\<lparr>paf_padrs := drop_bit 12 phyadr\<rparr>"

text \<open>The loop over the pages of one range; it does not end if the address wraps around.\<close>

partial_function (option) msadsc_pages :: "u64 \<Rightarrow> u64 \<Rightarrow> nat \<Rightarrow> msas \<Rightarrow> (nat \<times> msas) option" where
  "msadsc_pages start pend mdidx msa =
     (if start < pend
      then (if start + 4096 - 1 \<le> pend
            then msadsc_pages (start + 4096) pend (Suc mdidx) (msa(mdidx := write_one_msadsc start))
            else msadsc_pages (start + 4096) pend mdidx msa)
      else Some (mdidx, msa))"

fun msadsc_ranges :: "phymmarge_t list \<Rightarrow> nat \<Rightarrow> msas \<Rightarrow> (nat \<times> msas) option" where
  "msadsc_ranges [] mdidx msa = Some (mdidx, msa)"
| "msadsc_ranges (p # ps) mdidx msa = do {
     (mdidx, msa) \<leftarrow> (if pmr_type p = PMR_T_OSAPUSERRAM then msadsc_pages (pmr_saddr p) (pmr_end p) mdidx msa
                     else Some (mdidx, msa));
     msadsc_ranges ps mdidx msa
   }"

definition init_msadsc_core :: "(nat \<Rightarrow> phymmarge_t) \<Rightarrow> machbstart_t \<Rightarrow> msas \<Rightarrow> (u64 \<times> msas) option" where
  "init_msadsc_core pmagep mbsp msa = do {
     pm \<leftarrow> phyadr_to_viradr (mb_e820expadr mbsp);
     (mdidx, msa) \<leftarrow> msadsc_ranges (map pmagep [0..<unat (mb_e820exnr mbsp)]) 0 msa;
     Some (of_nat mdidx, msa)
   }"

definition usable :: "(nat \<Rightarrow> phymmarge_t) \<Rightarrow> machbstart_t \<Rightarrow> phymmarge_t list" where
  "usable pmagep mbsp = filter (\<lambda>p. pmr_type p = PMR_T_OSAPUSERRAM) (map pmagep [0..<unat (mb_e820exnr mbsp)])"

text \<open>\<open>Some None\<close> for \<open>FALSE\<close>, otherwise the address of the array and its length.\<close>

definition ret_msadsc_vadrandsz :: "(nat \<Rightarrow> phymmarge_t) \<Rightarrow> machbstart_t \<Rightarrow> (u64 \<times> u64) option option" where
  "ret_msadsc_vadrandsz pmagep mbsp =
     (if mb_e820exnr mbsp < 1 \<or> mb_e820expadr mbsp = 0 \<or>
         mb_e820exnr mbsp * sizeof_phymmarge_t \<noteq> mb_e820exsz mbsp then Some None
      else do {
        pm \<leftarrow> phyadr_to_viradr (mb_e820expadr mbsp);
        let usrmemsz = sum_list (map pmr_lsize (usable pmagep mbsp));
        let msadnr = sum_list (map (\<lambda>p. drop_bit 12 (pmr_lsize p)) (usable pmagep mbsp));
        if usrmemsz = 0 \<or> drop_bit 12 usrmemsz < 1 \<or> msadnr < 1 then Some None
        else if initchkadr_is_ok mbsp (mb_nextwtpadr mbsp) (msadnr * sizeof_msadsc_t) \<noteq> 0
        then system_error ''ret_msadsc_vadrandsz initchkadr_is_ok err''
        else do {
          vadr \<leftarrow> phyadr_to_viradr (mb_nextwtpadr mbsp);
          Some (Some (vadr, msadnr))
        }
      })"

definition init_msadsc :: "(nat \<Rightarrow> phymmarge_t) \<Rightarrow> machbstart_t \<Rightarrow> msas \<Rightarrow> (machbstart_t \<times> msas) option" where
  "init_msadsc pmagep mbsp msa = do {
     r \<leftarrow> ret_msadsc_vadrandsz pmagep mbsp;
     case r of None \<Rightarrow> system_error ''init_msadsc ret_msadsc_vadrandsz err''
     | Some (msadscvp, msadscnr) \<Rightarrow> do {
         (coremdnr, msa) \<leftarrow> init_msadsc_core pmagep mbsp msa;
         if coremdnr \<noteq> msadscnr then system_error ''init_msadsc init_msadsc_core err''
         else do {
           padr \<leftarrow> viradr_to_phyadr msadscvp;
           let mbsp = mbsp\<lparr>mb_memmappadr := padr, mb_memmapnr := coremdnr, mb_memmapsz := coremdnr * sizeof_msadsc_t\<rparr>;
           Some (mbsp\<lparr>mb_nextwtpadr := PAGE_ALIGN (mb_memmappadr mbsp + mb_memmapsz mbsp)\<rparr>, msa)
         }
       }
   }"

section \<open>Pages the kernel occupies already\<close>

text \<open>The loop that marks the pages from address \<open>tmpadr\<close>: the count and \<open>True\<close> when it reached
  \<open>ocpyend\<close>, \<open>False\<close> when a page was not there or not free.\<close>

partial_function (option) occupy_pages :: "nat \<Rightarrow> u64 \<Rightarrow> u64 \<Rightarrow> u64 \<Rightarrow> msas \<Rightarrow> (bool \<times> u64 \<times> msas) option" where
  "occupy_pages fstatmp tmpadr ocpyend fsmsnr msa =
     (if tmpadr < ocpyend
      then
        (let i = fstatmp + unat fsmsnr; m = msa i in
         if push_bit 12 (paf_padrs m) \<noteq> tmpadr then Some (False, 0, msa)
         else if mf_mocty m \<noteq> MF_MOCTY_FREE \<or> mf_uindx m \<noteq> 0 \<or> paf_alloc m then Some (False, 0, msa)
         else occupy_pages fstatmp (tmpadr + PAGESIZE) ocpyend (fsmsnr + 1)
                (msa(i := m\<lparr>mf_mocty := MF_MOCTY_KRNL, mf_uindx := mf_uindx m + 1, paf_alloc := True\<rparr>)))
      else Some (True, fsmsnr, msa))"

definition search_segment_occupymsadsc :: "u64 \<Rightarrow> u64 \<Rightarrow> u64 \<Rightarrow> msas \<Rightarrow> (u64 \<times> msas) option" where
  "search_segment_occupymsadsc msanr ocpystat ocpyend msa =
     (case find (\<lambda>mnr. push_bit 12 (paf_padrs (msa mnr)) = ocpystat) [0..<unat msanr] of
        None \<Rightarrow> Some (0, msa)
      | Some fstatmp \<Rightarrow> do {
          (ok, fsmsnr, msa) \<leftarrow> occupy_pages fstatmp ocpystat ocpyend 0 msa;
          let ocpysz = ocpyend - ocpystat;
          if \<not> ok then Some (0, msa)
          else if ocpysz AND 0xfff \<noteq> 0
          then (if drop_bit 12 ocpysz + 1 \<noteq> fsmsnr then Some (0, msa) else Some (fsmsnr, msa))
          else (if drop_bit 12 ocpysz \<noteq> fsmsnr then Some (0, msa) else Some (fsmsnr, msa))
        })"

definition search_krloccupymsadsc_core :: "machbstart_t \<Rightarrow> msas \<Rightarrow> (bool \<times> msas) option" where
  "search_krloccupymsadsc_core mbsp msa = do {
     let msanr = mb_memmapnr mbsp;
     v \<leftarrow> phyadr_to_viradr (mb_memmappadr mbsp);
     (retschmnr, msa) \<leftarrow> search_segment_occupymsadsc msanr 0 0x1000 msa;
     if retschmnr = 0 then Some (False, msa)
     else do {
       (retschmnr, msa) \<leftarrow> search_segment_occupymsadsc msanr (mb_krlinitstack mbsp AND NOT 0xfff) (mb_krlinitstack mbsp) msa;
       if retschmnr = 0 then Some (False, msa)
       else do {
         (retschmnr, msa) \<leftarrow> search_segment_occupymsadsc msanr (mb_krlimgpadr mbsp) (mb_nextwtpadr mbsp) msa;
         if retschmnr = 0 then Some (False, msa)
         else do {
           (retschmnr, msa) \<leftarrow> search_segment_occupymsadsc msanr (mb_imgpadr mbsp) (mb_imgpadr mbsp + mb_imgsz mbsp) msa;
           Some (retschmnr \<noteq> 0, msa)
         }
       }
     }
   }"

definition init_search_krloccupymm :: "machbstart_t \<Rightarrow> msas \<Rightarrow> msas option" where
  "init_search_krloccupymm mbsp msa = do {
     (ok, msa) \<leftarrow> search_krloccupymsadsc_core mbsp msa;
     if ok then Some msa else system_error ''search_krloccupymsadsc_core fail''
   }"

end
