(* ===== verification/Memarea.thy ===== *)
theory Memarea
  imports Bootmem
begin

text \<open>
  The memory areas at boot: \<open>hal/x86/memarea.c\<close> and \<open>init_memmgrob\<close> of
  \<open>hal/x86/memmgrinit.c\<close>. Every page descriptor gets the area its address lies in, and the
  runs of free pages of each area are cut into blocks of powers of two that go to the lists
  the page allocator works on.
\<close>

section \<open>Initial values\<close>

definition BAFH_STUS_ONEM :: nat where "BAFH_STUS_ONEM = 1"
definition BAFH_STUS_DIVP :: nat where "BAFH_STUS_DIVP = 2"
definition BAFH_STUS_DIVM :: nat where "BAFH_STUS_DIVM = 3"
definition MEMAREA_MAX :: nat where "MEMAREA_MAX = 4"
definition MA_HWAD_LSTART :: u64 where "MA_HWAD_LSTART = 0"
definition MA_HWAD_LSZ :: u64 where "MA_HWAD_LSZ = 0x2000000"
definition MA_HWAD_LEND :: u64 where "MA_HWAD_LEND = MA_HWAD_LSTART + MA_HWAD_LSZ - 1"
definition MA_KRNL_LSTART :: u64 where "MA_KRNL_LSTART = 0x2000000"
definition MA_KRNL_LSZ :: u64 where "MA_KRNL_LSZ = 0x400000000 - 0x2000000"
definition MA_KRNL_LEND :: u64 where "MA_KRNL_LEND = MA_KRNL_LSTART + MA_KRNL_LSZ - 1"
definition MA_PROC_LSTART :: u64 where "MA_PROC_LSTART = 0x400000000"
definition MA_PROC_LSZ :: u64 where "MA_PROC_LSZ = 0xffffffffffffffff - 0x400000000"
definition MA_PROC_LEND :: u64 where "MA_PROC_LEND = MA_PROC_LSTART + MA_PROC_LSZ"

lemmas marea_limits = MA_HWAD_LSTART_def MA_HWAD_LSZ_def MA_HWAD_LEND_def MA_KRNL_LSTART_def MA_KRNL_LSZ_def
  MA_KRNL_LEND_def MA_PROC_LSTART_def MA_PROC_LSZ_def MA_PROC_LEND_def

definition bafhlst_t_init :: "nat \<Rightarrow> u64 \<Rightarrow> u64 \<Rightarrow> bafhlst_t" where
  "bafhlst_t_init stus oder oderpnr = \<lparr>af_stus = stus, af_oder = oder, af_oderpnr = oderpnr, af_fobjnr = 0,
     af_mobjnr = 0, af_alcindx = 0, af_freindx = 0, af_frelst = []\<rparr>"

definition memdivmer_t_init :: memdivmer_t where
  "memdivmer_t_init = \<lparr>dm_mdmlielst = (\<lambda>li. bafhlst_t_init BAFH_STUS_DIVM (of_nat li) (push_bit li 1)),
     dm_onemsalst = bafhlst_t_init BAFH_STUS_ONEM 0 1\<rparr>"

definition memarea_t_init :: memarea_t where
  "memarea_t_init = \<lparr>ma_type = MA_TYPE_INIT, ma_maxpages = 0, ma_allocpages = 0, ma_freepages = 0, ma_logicstart = 0,
     ma_logicend = 0, ma_logicsz = 0, ma_allmsadscnr = 0, ma_mdmdata = memdivmer_t_init\<rparr>"

text \<open>\<open>marea_sz\<close> is \<open>sizeof(memarea_t)\<close>.\<close>

definition init_memarea_core :: "u64 \<Rightarrow> machbstart_t \<Rightarrow> (bool \<times> machbstart_t \<times> (nat \<Rightarrow> memarea_t)) option" where
  "init_memarea_core marea_sz mbsp = do {
     let phymarea = mb_nextwtpadr mbsp;
     let sz = marea_sz * of_nat MEMAREA_MAX;
     if initchkadr_is_ok mbsp phymarea sz \<noteq> 0 then Some (False, mbsp, \<lambda>_. memarea_t_init)
     else do {
       virmarea \<leftarrow> phyadr_to_viradr phymarea;
       let ma = (\<lambda>mai. memarea_t_init);
       let ma = ma(0 := (ma 0)\<lparr>ma_type := MA_TYPE_HWAD, ma_logicstart := MA_HWAD_LSTART, ma_logicend := MA_HWAD_LEND,
                             ma_logicsz := MA_HWAD_LSZ\<rparr>);
       let ma = ma(1 := (ma 1)\<lparr>ma_type := MA_TYPE_KRNL, ma_logicstart := MA_KRNL_LSTART, ma_logicend := MA_KRNL_LEND,
                             ma_logicsz := MA_KRNL_LSZ\<rparr>);
       let ma = ma(2 := (ma 2)\<lparr>ma_type := MA_TYPE_PROC, ma_logicstart := MA_PROC_LSTART, ma_logicend := MA_PROC_LEND,
                             ma_logicsz := MA_PROC_LSZ\<rparr>);
       let ma = ma(3 := (ma 3)\<lparr>ma_type := MA_TYPE_SHAR\<rparr>);
       Some (True, mbsp\<lparr>mb_memznpadr := phymarea, mb_memznnr := of_nat MEMAREA_MAX, mb_memznsz := sz,
                        mb_nextwtpadr := PAGE_ALIGN (phymarea + sz)\<rparr>, ma)
     }
   }"

definition init_memarea :: "u64 \<Rightarrow> machbstart_t \<Rightarrow> (machbstart_t \<times> (nat \<Rightarrow> memarea_t)) option" where
  "init_memarea marea_sz mbsp = do {
     (ok, mbsp, ma) \<leftarrow> init_memarea_core marea_sz mbsp;
     if \<not> ok then system_error ''init_memarea_core fail'' else Some (mbsp, ma)
   }"

section \<open>Runs of free pages\<close>

text \<open>The \<open>switch\<close> on the type of the area that several functions start with.\<close>

definition area_marty :: "memarea_t \<Rightarrow> nat option" where
  "area_marty mareap =
     (if ma_type mareap = MA_TYPE_HWAD then Some 1 else if ma_type mareap = MA_TYPE_KRNL then Some 2
      else if ma_type mareap = MA_TYPE_PROC then Some 3 else None)"

definition page_free :: "nat \<Rightarrow> msadsc_t \<Rightarrow> bool" where
  "page_free marty m \<longleftrightarrow> mf_marty m = marty \<and> mf_uindx m = 0 \<and> mf_mocty m = MF_MOCTY_FREE \<and> \<not> paf_alloc m"

definition phyadr :: "msadsc_t \<Rightarrow> u64" where
  "phyadr m = push_bit 12 (paf_padrs m)"

definition continumsadsc_is_ok :: "msadsc_t \<Rightarrow> msadsc_t \<Rightarrow> nat \<Rightarrow> nat" where
  "continumsadsc_is_ok prevmsa nextmsa marty =
     (if page_free marty prevmsa
      then (if page_free marty nextmsa then (if phyadr nextmsa - phyadr prevmsa = PAGESIZE then 2 else 1) else 1)
      else 0)"

text \<open>The loop of \<open>scan_len_msadsc\<close> with \<open>n\<close> steps left; \<open>retnr\<close> is also its index.\<close>

fun scan_len_loop :: "msas \<Rightarrow> nat \<Rightarrow> nat \<Rightarrow> nat \<Rightarrow> nat \<Rightarrow> bool \<times> nat" where
  "scan_len_loop msa mstat marty 0 retnr = (True, retnr)"
| "scan_len_loop msa mstat marty (Suc n) retnr =
     (let retclok = continumsadsc_is_ok (msa (mstat + retnr)) (msa (mstat + retnr + 1)) marty in
      if retclok = 0 then (False, 0)
      else if retclok = 1 then (True, retnr)
      else scan_len_loop msa mstat marty n (Suc retnr))"

definition scan_len_msadsc :: "msas \<Rightarrow> nat \<Rightarrow> nat \<Rightarrow> nat \<Rightarrow> bool \<times> nat" where
  "scan_len_msadsc msa mstat marty mnr =
     (if mnr = 0 then (False, 0) else scan_len_loop msa mstat marty (mnr - 1) 0)"

text \<open>0 if the pages from \<open>ms\<close> to \<open>me\<close> are not a run of \<open>fmnr\<close> free pages of the area.\<close>

definition check_continumsadsc :: "memarea_t \<Rightarrow> msas \<Rightarrow> nat \<Rightarrow> nat \<Rightarrow> nat \<Rightarrow> nat" where
  "check_continumsadsc mareap msa ms me fmnr =
     (if fmnr = 0 \<or> ms > me then 0
      else (case area_marty mareap of None \<Rightarrow> 0
        | Some marty \<Rightarrow>
            if ms = me then (if \<not> page_free marty (msa ms) then 0 else if 1 \<noteq> fmnr then 0 else 1)
            else if list_all (\<lambda>i. page_free marty (msa i) \<and> page_free marty (msa (i + 1)) \<and>
                                phyadr (msa (i + 1)) - phyadr (msa i) = PAGESIZE) [ms..<me]
            then (if me - ms + 1 \<noteq> fmnr then 0 else me - ms)
            else 0))"

text \<open>The result is the flag returned, the new \<open>*fntmsanr\<close> and the run found (its first page, its
  last page and its length), if any.\<close>

definition merlove_scan_continumsadsc ::
    "memarea_t \<Rightarrow> msas \<Rightarrow> nat \<Rightarrow> nat \<Rightarrow> (bool \<times> nat \<times> (nat \<times> nat \<times> nat) option) option" where
  "merlove_scan_continumsadsc mareap msa fntmsanr fmsanr =
     (if fmsanr = 0 \<or> fntmsanr \<ge> fmsanr then Some (False, fntmsanr, None)
      else (case area_marty mareap of None \<Rightarrow> Some (False, fntmsanr, None)
        | Some marty \<Rightarrow>
            (case find (\<lambda>tmidx. page_free marty (msa tmidx)) [fntmsanr..<fmsanr] of
               None \<Rightarrow> Some (True, fmsanr, None)
             | Some tmidx \<Rightarrow>
                 (case scan_len_msadsc msa tmidx marty fmsanr of (rets, retfindmnr) \<Rightarrow>
                    if \<not> rets then system_error ''scan_len_msadsc err''
                    else Some (True, tmidx + retfindmnr + 1, Some (tmidx, tmidx + retfindmnr, retfindmnr + 1))))))"

section \<open>The area of each page\<close>

definition in_area :: "memarea_t \<Rightarrow> msadsc_t \<Rightarrow> bool" where
  "in_area mareap m \<longleftrightarrow> phyadr m \<ge> ma_logicstart mareap \<and> phyadr m + PAGESIZE - 1 \<le> ma_logicend mareap"

text \<open>\<open>None\<close> for the error value \<open>~0UL\<close>.\<close>

definition merlove_setallmarflgs_onmemarea :: "memarea_t \<Rightarrow> nat \<Rightarrow> msas \<Rightarrow> nat option \<times> msas" where
  "merlove_setallmarflgs_onmemarea mareap msanr msa =
     (if msanr = 0 then (None, msa)
      else if ma_type mareap = MA_TYPE_SHAR then (Some 0, msa)
      else (case area_marty mareap of None \<Rightarrow> (None, msa)
        | Some marty \<Rightarrow>
            (case fold (\<lambda>mix (retnr, msa).
                 if mf_marty (msa mix) = 0 \<and> in_area mareap (msa mix)
                 then (Suc retnr, upd_msa mix (\<lambda>m. m\<lparr>mf_marty := marty\<rparr>) msa) else (retnr, msa)) [0..<msanr] (0, msa) of
               (retnr, msa) \<Rightarrow> (Some retnr, msa))))"

definition test_setflgs :: "memarea_t \<Rightarrow> nat \<Rightarrow> msas \<Rightarrow> nat option" where
  "test_setflgs mareap msanr msa =
     (if msanr = 0 then None
      else if ma_type mareap = MA_TYPE_SHAR then Some 0
      else (case area_marty mareap of None \<Rightarrow> None
        | Some marty \<Rightarrow> Some (length (filter (\<lambda>mix. in_area mareap (msa mix) \<and> mf_marty (msa mix) = marty) [0..<msanr]))))"

section \<open>Blocks from a run\<close>

text \<open>The last list whose blocks are not larger than the run.\<close>

definition find_continumsa_inbafhlst :: "memarea_t \<Rightarrow> u64 \<Rightarrow> bafhref option" where
  "find_continumsa_inbafhlst mareap fmnr =
     (if fmnr = 0 then None
      else if ma_type mareap = MA_TYPE_PROC then Some One
      else if ma_type mareap = MA_TYPE_SHAR then None
      else
        (let small = filter (\<lambda>li. af_oderpnr (get_bafh mareap (Lie li)) \<le> fmnr) [0..<MDIVMER_ARR_LMAX]
         in if MDIVMER_ARR_LMAX \<le> length small \<or> small = [] then None else Some (Lie (last small))))"

fun add_proc_loop :: "nat \<Rightarrow> bafhref \<Rightarrow> nat \<Rightarrow> nat \<Rightarrow> nat \<Rightarrow> msas \<Rightarrow> memarea_t \<Rightarrow> msas \<times> memarea_t" where
  "add_proc_loop mi bafhp fstat tmpnr 0 msa ma = (msa, ma)"
| "add_proc_loop mi bafhp fstat tmpnr (Suc n) msa ma =
     (let msa = upd_msa (fstat + tmpnr) (\<lambda>m. m\<lparr>mf_olkty := MF_OLKTY_BAFH, md_odlink := OBafh mi bafhp\<rparr>) msa;
          b = get_bafh ma bafhp;
          ma = put_bafh bafhp (b\<lparr>af_frelst := (fstat + tmpnr) # af_frelst b, af_fobjnr := af_fobjnr b + 1,
                                 af_mobjnr := af_mobjnr b + 1\<rparr>) ma;
          ma = ma\<lparr>ma_maxpages := ma_maxpages ma + 1, ma_freepages := ma_freepages ma + 1,
                  ma_allmsadscnr := ma_allmsadscnr ma + 1\<rparr>
      in add_proc_loop mi bafhp fstat (Suc tmpnr) n msa ma)"

definition continumsadsc_add_procmareabafh ::
    "nat \<Rightarrow> bafhref \<Rightarrow> nat \<Rightarrow> nat \<Rightarrow> u64 \<Rightarrow> msas \<Rightarrow> memarea_t \<Rightarrow> bool \<times> msas \<times> memarea_t" where
  "continumsadsc_add_procmareabafh mi bafhp fstat fend fmnr msa mareap =
     (if fmnr = 0 then (False, msa, mareap)
      else if af_stus (get_bafh mareap bafhp) \<noteq> BAFH_STUS_ONEM \<or> ma_type mareap \<noteq> MA_TYPE_PROC then (False, msa, mareap)
      else if af_oderpnr (get_bafh mareap bafhp) \<noteq> 1 then (False, msa, mareap)
      else if fstat + unat fmnr - 1 \<noteq> fend then (False, msa, mareap)
      else (case add_proc_loop mi bafhp fstat 0 (unat fmnr) msa mareap of (msa, ma) \<Rightarrow> (True, msa, ma)))"

definition continumsadsc_add_bafhlst ::
    "nat \<Rightarrow> bafhref \<Rightarrow> nat \<Rightarrow> nat \<Rightarrow> u64 \<Rightarrow> msas \<Rightarrow> memarea_t \<Rightarrow> bool \<times> msas \<times> memarea_t" where
  "continumsadsc_add_bafhlst mi bafhp fstat fend fmnr msa mareap =
     (if fmnr = 0 then (False, msa, mareap)
      else if af_oderpnr (get_bafh mareap bafhp) \<noteq> fmnr then (False, msa, mareap)
      else if fstat + unat fmnr - 1 \<noteq> fend then (False, msa, mareap)
      else
        (let msa = upd_msa fstat (\<lambda>m. m\<lparr>mf_olkty := MF_OLKTY_ODER, md_odlink := OMsa fend\<rparr>) msa;
             msa = upd_msa fend (\<lambda>m. m\<lparr>mf_olkty := MF_OLKTY_BAFH, md_odlink := OBafh mi bafhp\<rparr>) msa;
             b = get_bafh mareap bafhp;
             ma = put_bafh bafhp (b\<lparr>af_frelst := fstat # af_frelst b, af_fobjnr := af_fobjnr b + 1,
                                    af_mobjnr := af_mobjnr b + 1\<rparr>) mareap
         in (True, msa, ma\<lparr>ma_maxpages := ma_maxpages ma + fmnr, ma_freepages := ma_freepages ma + fmnr,
                           ma_allmsadscnr := ma_allmsadscnr ma + fmnr\<rparr>)))"

text \<open>The result is the flag and the new \<open>*rfstat\<close>, \<open>*rfend\<close> (a null pointer is \<open>None\<close>) and \<open>*rfmnr\<close>.\<close>

definition continumsadsc_mareabafh_core ::
    "nat \<Rightarrow> nat \<Rightarrow> nat \<Rightarrow> u64 \<Rightarrow> msas \<Rightarrow> memarea_t \<Rightarrow> bool \<times> nat \<times> nat option \<times> u64 \<times> msas \<times> memarea_t" where
  "continumsadsc_mareabafh_core mi mstat mend retval msa mareap =
     (let fail = (False, mstat, Some mend, retval, msa, mareap) in
      if retval < 1 then fail
      else (case find_continumsa_inbafhlst mareap retval of None \<Rightarrow> fail
        | Some bafhp \<Rightarrow>
            (let b = get_bafh mareap bafhp in
             if retval < af_oderpnr b then fail
             else if (af_stus b = BAFH_STUS_DIVP \<or> af_stus b = BAFH_STUS_DIVM) \<and> ma_type mareap \<noteq> MA_TYPE_PROC then
               (let tmpmnr = retval - af_oderpnr b in
                case continumsadsc_add_bafhlst mi bafhp mstat (mstat + unat (af_oderpnr b) - 1) (af_oderpnr b) msa mareap of
                  (ok, msa, ma) \<Rightarrow>
                    if \<not> ok then (False, mstat, Some mend, retval, msa, ma)
                    else if tmpmnr = 0 then (True, mstat, None, tmpmnr, msa, ma)
                    else (True, mstat + unat (af_oderpnr b), Some mend, tmpmnr, msa, ma))
             else if af_stus b = BAFH_STUS_ONEM \<and> ma_type mareap = MA_TYPE_PROC then
               (case continumsadsc_add_procmareabafh mi bafhp mstat mend retval msa mareap of
                  (ok, msa, ma) \<Rightarrow>
                    if \<not> ok then (False, mstat, Some mend, retval, msa, ma)
                    else (True, mstat, None, 0, msa, ma))
             else fail)))"

partial_function (option) mareabafh_loop ::
    "nat \<Rightarrow> nat \<Rightarrow> nat option \<Rightarrow> u64 \<Rightarrow> msas \<Rightarrow> memarea_t \<Rightarrow> (msas \<times> memarea_t) option" where
  "mareabafh_loop mi fstat fend mnridx msa ma =
     (case fend of None \<Rightarrow> Some (msa, ma)
      | Some e \<Rightarrow>
          if mnridx > 0 then
            (case continumsadsc_mareabafh_core mi fstat e mnridx msa ma of
               (ok, fstat, fend, mnridx, msa, ma) \<Rightarrow>
                 if \<not> ok then system_error ''continumsadsc_mareabafh_core fail''
                 else mareabafh_loop mi fstat fend mnridx msa ma)
          else Some (msa, ma))"

definition merlove_continumsadsc_mareabafh ::
    "nat \<Rightarrow> nat \<Rightarrow> nat \<Rightarrow> u64 \<Rightarrow> msas \<Rightarrow> memarea_t \<Rightarrow> (bool \<times> msas \<times> memarea_t) option" where
  "merlove_continumsadsc_mareabafh mi mstat mend mnr msa ma =
     (if mnr = 0 then Some (False, msa, ma)
      else do { (msa, ma) \<leftarrow> mareabafh_loop mi mstat (Some mend) mnr msa ma; Some (True, msa, ma) })"

section \<open>All areas\<close>

partial_function (option) onmemarea_loop :: "nat \<Rightarrow> nat \<Rightarrow> nat \<Rightarrow> msas \<Rightarrow> memarea_t \<Rightarrow> (msas \<times> memarea_t) option" where
  "onmemarea_loop mi msanr fntmnr msa ma =
     (if fntmnr < msanr then do {
        (retscan, fntmnr, run) \<leftarrow> merlove_scan_continumsadsc ma msa fntmnr msanr;
        if \<not> retscan then system_error ''merlove_scan_continumsadsc fail''
        else (case run of None \<Rightarrow> onmemarea_loop mi msanr fntmnr msa ma
          | Some (s, e, n) \<Rightarrow>
              if check_continumsadsc ma msa s e n = 0 then system_error ''check_continumsadsc fail''
              else do {
                (ok, msa, ma) \<leftarrow> merlove_continumsadsc_mareabafh mi s e (of_nat n) msa ma;
                if \<not> ok then system_error ''merlove_continumsadsc_mareabafh fail''
                else onmemarea_loop mi msanr fntmnr msa ma
              })
      }
      else Some (msa, ma))"

definition merlove_mem_onmemarea :: "nat \<Rightarrow> nat \<Rightarrow> msas \<Rightarrow> memarea_t \<Rightarrow> (bool \<times> msas \<times> memarea_t) option" where
  "merlove_mem_onmemarea mi msanr msa mareap =
     (if msanr = 0 then Some (False, msa, mareap)
      else if ma_type mareap = MA_TYPE_SHAR then Some (True, msa, mareap)
      else if ma_type mareap = MA_TYPE_INIT then Some (False, msa, mareap)
      else do { (msa, ma) \<leftarrow> onmemarea_loop mi msanr 0 msa mareap; Some (True, msa, ma) })"

text \<open>The first loop of \<open>merlove_mem_core\<close>, over the areas \<open>mis\<close>.\<close>

fun setflgs_areas :: "nat list \<Rightarrow> nat \<Rightarrow> (nat \<Rightarrow> memarea_t) \<Rightarrow> msas \<Rightarrow> bool \<times> msas" where
  "setflgs_areas [] msanr marea msa = (True, msa)"
| "setflgs_areas (mi # mis) msanr marea msa =
     (case merlove_setallmarflgs_onmemarea (marea mi) msanr msa of
        (None, msa) \<Rightarrow> (False, msa)
      | (Some sretf, msa) \<Rightarrow>
          (case test_setflgs (marea mi) msanr msa of None \<Rightarrow> (False, msa)
           | Some tretf \<Rightarrow> if sretf \<noteq> tretf then (False, msa) else setflgs_areas mis msanr marea msa))"

fun onmemarea_areas ::
    "nat list \<Rightarrow> nat \<Rightarrow> (nat \<Rightarrow> memarea_t) \<Rightarrow> msas \<Rightarrow> (bool \<times> msas \<times> (nat \<Rightarrow> memarea_t)) option" where
  "onmemarea_areas [] msanr marea msa = Some (True, msa, marea)"
| "onmemarea_areas (mi # mis) msanr marea msa = do {
     (ok, msa, ma) \<leftarrow> merlove_mem_onmemarea mi msanr msa (marea mi);
     if \<not> ok then Some (False, msa, marea(mi := ma)) else onmemarea_areas mis msanr (marea(mi := ma)) msa
   }"

definition merlove_mem_core ::
    "machbstart_t \<Rightarrow> (nat \<Rightarrow> memarea_t) \<Rightarrow> msas \<Rightarrow> (bool \<times> msas \<times> (nat \<Rightarrow> memarea_t)) option" where
  "merlove_mem_core mbsp marea msa = do {
     v1 \<leftarrow> phyadr_to_viradr (mb_memmappadr mbsp);
     v2 \<leftarrow> phyadr_to_viradr (mb_memznpadr mbsp);
     let msanr = unat (mb_memmapnr mbsp);
     let mis = [0..<unat (mb_memznnr mbsp)];
     case setflgs_areas mis msanr marea msa of
       (False, msa) \<Rightarrow> Some (False, msa, marea)
     | (True, msa) \<Rightarrow> onmemarea_areas mis msanr marea msa
   }"

section \<open>The check at the end\<close>

definition check_multi_msadsc :: "nat \<Rightarrow> bafhref \<Rightarrow> memarea_t \<Rightarrow> msas \<Rightarrow> nat \<Rightarrow> u64" where
  "check_multi_msadsc mi bafhp mareap msa mstat =
     (let m = msa mstat in
      if mf_olkty m \<noteq> MF_OLKTY_ODER \<and> mf_olkty m \<noteq> MF_OLKTY_BAFH then 0
      else if md_odlink m = ONull then 0
      else (case (if mf_olkty m = MF_OLKTY_ODER then as_msa (md_odlink m) else Some mstat) of None \<Rightarrow> 0
        | Some mend \<Rightarrow>
            (let mnr = msadiff mend mstat + 1 in
             if mnr \<noteq> af_oderpnr (get_bafh mareap bafhp) then 0
             else if mf_olkty (msa mend) \<noteq> MF_OLKTY_BAFH then 0
             else if md_odlink (msa mend) \<noteq> OBafh mi bafhp then 0
             else if mnr = 1 then
               (if mf_marty m \<noteq> ma_type mareap \<or> paf_alloc m \<or> mf_uindx m \<noteq> 0 \<or>
                   phyadr m < ma_logicstart mareap \<or> phyadr m + PAGESIZE - 1 > ma_logicend mareap then 0 else 1)
             else if list_all (\<lambda>i. mf_marty (msa i) = ma_type mareap \<and> \<not> paf_alloc (msa i) \<and> mf_uindx (msa i) = 0 \<and>
                       \<not> paf_alloc (msa (i + 1)) \<and> mf_uindx (msa (i + 1)) = 0 \<and>
                       phyadr (msa i) + PAGESIZE = phyadr (msa (i + 1)) \<and>
                       \<not> phyadr (msa i) < ma_logicstart mareap \<and>
                       \<not> phyadr (msa (i + 1)) + PAGESIZE - 1 > ma_logicend mareap) [mstat..<mstat + unat (mnr - 1)]
             then mnr - 1 + 1
             else 0)))"

definition check_one_bafhlst :: "nat \<Rightarrow> bafhref \<Rightarrow> memarea_t \<Rightarrow> msas \<Rightarrow> bool" where
  "check_one_bafhlst mi bafhp mareap msa =
     (let b = get_bafh mareap bafhp in
      if af_mobjnr b < 1 \<and> af_fobjnr b < 1 then True
      else if \<not> list_all (\<lambda>msap. af_oderpnr b = check_multi_msadsc mi bafhp mareap msa msap) (af_frelst b) then False
      else of_nat (length (af_frelst b)) = af_fobjnr b \<and> of_nat (length (af_frelst b)) = af_mobjnr b)"

definition check_one_memarea :: "nat \<Rightarrow> memarea_t \<Rightarrow> msas \<Rightarrow> bool" where
  "check_one_memarea mi mareap msa =
     (if ma_maxpages mareap < 1 then True
      else list_all (\<lambda>li. check_one_bafhlst mi (Lie li) mareap msa) [0..<MDIVMER_ARR_LMAX] \<and>
           check_one_bafhlst mi One mareap msa)"

definition mem_check_mareadata :: "machbstart_t \<Rightarrow> (nat \<Rightarrow> memarea_t) \<Rightarrow> msas \<Rightarrow> unit option" where
  "mem_check_mareadata mbsp marea msa = do {
     v \<leftarrow> phyadr_to_viradr (mb_memznpadr mbsp);
     if list_all (\<lambda>maidx. check_one_memarea maidx (marea maidx) msa) [0..<unat (mb_memznnr mbsp)] then Some ()
     else system_error ''check_one_memarea fail''
   }"

definition init_merlove_mem ::
    "machbstart_t \<Rightarrow> (nat \<Rightarrow> memarea_t) \<Rightarrow> msas \<Rightarrow> (msas \<times> (nat \<Rightarrow> memarea_t)) option" where
  "init_merlove_mem mbsp marea msa = do {
     (ok, msa, marea) \<leftarrow> merlove_mem_core mbsp marea msa;
     if \<not> ok then system_error ''merlove_mem_core fail''
     else do { u \<leftarrow> mem_check_mareadata mbsp marea msa; Some (msa, marea) }
   }"

section \<open>The manager\<close>

definition init_memmgrob :: "machbstart_t \<Rightarrow> (nat \<Rightarrow> memarea_t) \<Rightarrow> msas \<Rightarrow> memmgrob_t option" where
  "init_memmgrob mbsp marea msa =
     (if mb_e820expadr mbsp = 0 \<or> mb_e820exnr mbsp = 0 then system_error ''mbsp->mb_e820expadr==NULL''
      else if mb_memmappadr mbsp = 0 \<or> mb_memmapnr mbsp = 0 then system_error ''mbsp->mb_memmappadr==NULL''
      else if mb_memznpadr mbsp = 0 \<or> mb_memznnr mbsp = 0 then system_error ''mbsp->mb_memznpadr==NULL''
      else do {
        v1 \<leftarrow> phyadr_to_viradr (mb_e820expadr mbsp);
        v2 \<leftarrow> phyadr_to_viradr (mb_memmappadr mbsp);
        v3 \<leftarrow> phyadr_to_viradr (mb_memznpadr mbsp);
        let aidx = length (filter (\<lambda>i. mf_uindx (msa i) = 1 \<and> mf_mocty (msa i) = MF_MOCTY_KRNL \<and> paf_alloc (msa i))
                     [0..<unat (mb_memmapnr mbsp)]);
        Some \<lparr>mo_maxpages = mb_memmapnr mbsp, mo_freepages = mb_memmapnr mbsp - of_nat aidx, mo_alocpages = of_nat aidx,
              mo_msadscstat = msa, mo_msanr = unat (mb_memmapnr mbsp), mo_mareastat = marea,
              mo_mareanr = unat (mb_memznnr mbsp)\<rparr>
      })"

end
