(* ===== verification/Memarea_Boot.thy ===== *)
theory Memarea_Boot
  imports Memarea PageAlloc_Main
begin

text \<open>
  What the boot of the memory areas establishes: every free page of an area ends up in
  exactly one block on the list of its size, the final check of the code passes, and the
  manager satisfies the invariant that the page allocator keeps.
\<close>

declare get_bafh.simps [simp del] put_bafh.simps [simp del]

section \<open>Adding a block\<close>

text \<open>Only the links of a descriptor change at this stage.\<close>

definition link_only :: "msas \<Rightarrow> msas \<Rightarrow> bool" where
  "link_only msa msa' \<longleftrightarrow> (\<forall>i. \<exists>y l. msa' i = (msa i)\<lparr>mf_olkty := y, md_odlink := l\<rparr>)"

lemma link_only_sel:
  assumes "link_only msa msa'"
  shows "mf_marty (msa' i) = mf_marty (msa i)" "mf_uindx (msa' i) = mf_uindx (msa i)" "mf_mocty (msa' i) = mf_mocty (msa i)"
    "paf_alloc (msa' i) = paf_alloc (msa i)" "paf_padrs (msa' i) = paf_padrs (msa i)" "phyadr (msa' i) = phyadr (msa i)"
    "page_free t (msa' i) = page_free t (msa i)" "in_area ma (msa' i) = in_area ma (msa i)"
proof -
  obtain o' l where e: "msa' i = (msa i)\<lparr>mf_olkty := o', md_odlink := l\<rparr>" using assms unfolding link_only_def by blast
  show "mf_marty (msa' i) = mf_marty (msa i)" "mf_uindx (msa' i) = mf_uindx (msa i)" "mf_mocty (msa' i) = mf_mocty (msa i)"
    "paf_alloc (msa' i) = paf_alloc (msa i)" "paf_padrs (msa' i) = paf_padrs (msa i)" "phyadr (msa' i) = phyadr (msa i)"
    "page_free t (msa' i) = page_free t (msa i)" "in_area ma (msa' i) = in_area ma (msa i)"
    unfolding e by (simp_all add: phyadr_def page_free_def in_area_def)
qed

lemma link_only_refl [simp]: "link_only msa msa"
  unfolding link_only_def by (metis msadsc_t.surjective msadsc_t.update_convs(1,7))

lemma link_only_trans: "link_only a b \<Longrightarrow> link_only b c \<Longrightarrow> link_only a c"
  unfolding link_only_def
proof (intro allI)
  fix i assume ab: "\<forall>i. \<exists>y l. b i = (a i)\<lparr>mf_olkty := y, md_odlink := l\<rparr>"
    and bc: "\<forall>i. \<exists>y l. c i = (b i)\<lparr>mf_olkty := y, md_odlink := l\<rparr>"
  obtain o1 l1 o2 l2 where "b i = (a i)\<lparr>mf_olkty := o1, md_odlink := l1\<rparr>" "c i = (b i)\<lparr>mf_olkty := o2, md_odlink := l2\<rparr>"
    using ab bc by blast
  then have "c i = (a i)\<lparr>mf_olkty := o2, md_odlink := l2\<rparr>" by simp
  then show "\<exists>y l. c i = (a i)\<lparr>mf_olkty := y, md_odlink := l\<rparr>" by blast
qed

lemma link_only_upd: "link_only msa (upd_msa i (\<lambda>m. m\<lparr>mf_olkty := o', md_odlink := l\<rparr>) msa)"
  unfolding link_only_def
proof
  fix j
  show "\<exists>y l'. upd_msa i (\<lambda>m. m\<lparr>mf_olkty := o', md_odlink := l\<rparr>) msa j = (msa j)\<lparr>mf_olkty := y, md_odlink := l'\<rparr>"
    using link_only_refl [of msa] unfolding link_only_def by (cases "j = i") (auto simp: upd_msa_def)
qed

lemma linked_link_only: "link_only msa (linked mi s k msa)"
  unfolding linked_def by (rule link_only_trans [OF link_only_upd link_only_upd])

text \<open>What adding blocks leaves of an area, besides the lists and the counters; \<open>one\<close> says that
  single pages are added, and the other lists stay as they are.\<close>

definition marea_same :: "bool \<Rightarrow> u64 \<Rightarrow> memarea_t \<Rightarrow> memarea_t \<Rightarrow> bool" where
  "marea_same one n ma ma' \<longleftrightarrow> ma_type ma' = ma_type ma \<and> ma_logicstart ma' = ma_logicstart ma \<and>
     ma_logicend ma' = ma_logicend ma \<and> ma_allocpages ma' = ma_allocpages ma \<and>
     ma_maxpages ma' = ma_maxpages ma + n \<and> ma_freepages ma' = ma_freepages ma + n \<and>
     (\<forall>r. af_stus (get_bafh ma' r) = af_stus (get_bafh ma r)) \<and>
     (if one then \<forall>k. get_bafh ma' (Lie k) = get_bafh ma (Lie k) else get_bafh ma' One = get_bafh ma One)"

lemma marea_same_trans: "marea_same one m a b \<Longrightarrow> marea_same one n b c \<Longrightarrow> marea_same one (m + n) a c"
  by (simp add: marea_same_def ac_simps)

lemma marea_same_refl [simp]: "marea_same one 0 a a"
  by (simp add: marea_same_def)

lemma hand_in:
  assumes "area_ok ty mi N msa ma A {}" and "blk s k \<subseteq> {..<N}" and "blk s k \<inter> bunion (blocks ma \<union> A) = {}"
  shows "area_ok ty mi N msa ma A {(s, k)}"
proof -
  have out: "(s, k) \<notin> blocks ma \<union> A" using assms(3) blk_mem(1) [of s k] by (fastforce simp: bunion_def)
  then have "bdisj (blocks ma \<union> A \<union> {(s, k)})"
    using assms(3) area_okD(4) [OF assms(1)] bdisj_insert [OF out] by simp
  then show ?thesis using assms out by (auto simp: area_ok_def)
qed

lemma get_bafh_upd [simp]: "get_bafh (ma\<lparr>ma_maxpages := a, ma_freepages := b, ma_allmsadscnr := c\<rparr>) r = get_bafh ma r"
  by (cases r) (simp_all add: get_bafh.simps)

lemma put_bafh_logic [simp]:
  "ma_logicstart (put_bafh r b ma) = ma_logicstart ma" "ma_logicend (put_bafh r b ma) = ma_logicend ma"
  "ma_allmsadscnr (put_bafh r b ma) = ma_allmsadscnr ma"
  by (cases r; simp add: put_bafh.simps)+

lemma add_bafhlst_ok:
  assumes ok: "area_ok ty mi N msa ma A {}" and k: "k < 52" and s: "blk s k \<subseteq> {..<N}" "blk s k \<inter> bunion (blocks ma \<union> A) = {}"
    and pg: "pages_ok ty msa s k" and cl: "clear_ok msa (blk s k)"
  shows "\<exists>ma'. continumsadsc_add_bafhlst mi (Lie k) s (lastp s k) (2 ^ k) msa ma = (True, linked mi s k msa, ma') \<and>
    area_ok ty mi N (linked mi s k msa) ma' A {} \<and> blocks ma' = insert (s, k) (blocks ma) \<and> marea_same False (2 ^ k) ma ma'"
proof -
  let ?b = "get_bafh ma (Lie k)"
  let ?ma1 = "put_bafh (Lie k) (?b\<lparr>af_frelst := s # af_frelst ?b, af_fobjnr := af_fobjnr ?b + 1,
      af_mobjnr := af_mobjnr ?b + 1\<rparr>) ma"
  let ?ma = "?ma1\<lparr>ma_maxpages := ma_maxpages ?ma1 + 2 ^ k, ma_freepages := ma_freepages ?ma1 + 2 ^ k,
      ma_allmsadscnr := ma_allmsadscnr ?ma1 + 2 ^ k\<rparr>"
  have h: "area_ok ty mi N msa ma A {(s, k)}" by (rule hand_in [OF ok s])
  have out: "(s, k) \<notin> blocks ma \<union> A" using area_okD(5) [OF h] by simp
  have "bafh_ok (get_bafh ?ma (Lie k)) k" "frel ?ma k = s # frel ma k"
    using area_okD(1) [OF ok k] out k by (auto simp: bafh_ok_def blocks_Lie)
  note p = put_block [OF h k pg cl this]
  have "continumsadsc_add_bafhlst mi (Lie k) s (lastp s k) (2 ^ k) msa ma = (True, linked mi s k msa, ?ma)"
    using oder_ok [OF ok k] pow2_nz [of k] k
    by (simp add: continumsadsc_add_bafhlst_def Let_def linked_def lastp_code)
  moreover have "marea_same False (2 ^ k) ma ?ma" by (simp add: marea_same_def)
  ultimately show ?thesis using p by auto
qed

section \<open>Cutting a run into blocks\<close>

text \<open>A run of free pages of the area with consecutive frame numbers.\<close>

definition run_ok :: "nat \<Rightarrow> msas \<Rightarrow> nat \<Rightarrow> nat \<Rightarrow> bool" where
  "run_ok ty msa s n \<longleftrightarrow> (\<forall>i < n. page_free ty (msa (s + i)) \<and> paf_padrs (msa (s + i)) = paf_padrs (msa s) + of_nat i)"

lemma run_ok_blk:
  assumes "run_ok ty msa s n" and "2 ^ k \<le> n"
  shows "pages_ok ty msa s k" and "clear_ok msa (blk s k)"
proof -
  have r: "page_free ty (msa (s + i)) \<and> paf_padrs (msa (s + i)) = paf_padrs (msa s) + of_nat i" if "i < 2 ^ k" for i
    using assms that by (simp add: run_ok_def)
  then show "pages_ok ty msa s k" by (simp add: pages_ok_def page_free_def)
  show "clear_ok msa (blk s k)" unfolding clear_ok_def
  proof
    fix i assume "i \<in> blk s k"
    then have "i - s < 2 ^ k" "s + (i - s) = i" by (auto simp: blk_def)
    then show "mf_uindx (msa i) = 0 \<and> \<not> paf_alloc (msa i)" using r [of "i - s"] by (simp add: page_free_def)
  qed
qed

lemma run_ok_rest:
  assumes "run_ok ty msa s n" and "m \<le> n" and "link_only msa msa'"
  shows "run_ok ty msa' (s + m) (n - m)"
  unfolding run_ok_def
proof (intro allI impI)
  fix i assume i: "i < n - m"
  then have "0 < n - m" by simp
  have r: "page_free ty (msa (s + j)) \<and> paf_padrs (msa (s + j)) = paf_padrs (msa s) + of_nat j" if "j < n" for j
    using assms(1) that by (simp add: run_ok_def)
  show "page_free ty (msa' (s + m + i)) \<and> paf_padrs (msa' (s + m + i)) = paf_padrs (msa' (s + m)) + of_nat i"
    using r [of "m + i"] r [of m] i assms(2) by (simp add: link_only_sel [OF assms(3)] add.assoc)
qed

lemma filter_le_upt: "k < m \<Longrightarrow> filter (\<lambda>i. i \<le> k) [0..<m] = [0..<Suc k]"
proof -
  assume k: "k < m"
  then have "[0..<m] = [0..<Suc k] @ [Suc k..<m]" by (metis Suc_leI le0 upt_add_eq_append le_add_diff_inverse)
  then show ?thesis by simp
qed

lemma find_continumsa_ok:
  assumes ok: "area_ok ty mi N msa ma A H" and n: "2 ^ k \<le> n" "n < 2 ^ Suc k" "k < 51"
    and ty: "ma_type ma \<noteq> MA_TYPE_PROC" "ma_type ma \<noteq> MA_TYPE_SHAR"
  shows "find_continumsa_inbafhlst ma (of_nat n) = Some (Lie k)"
proof -
  have n64: "n < 2 ^ 64"
  proof -
    have "(2 :: nat) ^ Suc k \<le> 2 ^ 64" using n(3) by (intro power_increasing) simp_all
    then show ?thesis using n(2) by linarith
  qed
  have u: "unat (of_nat n :: u64) = n" using n64 by (simp add: unat_of_nat)
  have e: "af_oderpnr (get_bafh ma (Lie li)) \<le> of_nat n \<longleftrightarrow> li \<le> k" if "li < 52" for li
  proof -
    have "af_oderpnr (get_bafh ma (Lie li)) \<le> of_nat n \<longleftrightarrow> (2 :: nat) ^ li \<le> n"
      using oder_ok [OF ok that] that u by (simp add: word_le_nat_alt)
    also have "\<dots> \<longleftrightarrow> li \<le> k"
    proof
      assume "(2 :: nat) ^ li \<le> n"
      then have "(2 :: nat) ^ li < 2 ^ Suc k" using n(2) by linarith
      then show "li \<le> k" by (simp only: power_strict_increasing_iff)  
    next
      assume "li \<le> k"
      then have "(2 :: nat) ^ li \<le> 2 ^ k" by simp
      then show "2 ^ li \<le> n" using n(1) by linarith
    qed
    finally show ?thesis .
  qed
  have "filter (\<lambda>li. af_oderpnr (get_bafh ma (Lie li)) \<le> of_nat n) [0..<52] = filter (\<lambda>li. li \<le> k) [0..<52]"
    by (rule filter_cong) (auto simp: e)
  also have "\<dots> = [0..<Suc k]" by (rule filter_le_upt) (use n(3) in simp)
  finally have f: "filter (\<lambda>li. af_oderpnr (get_bafh ma (Lie li)) \<le> of_nat n) [0..<52] = [0..<Suc k]" .
  have "(of_nat n :: u64) \<noteq> 0" using n(1) u by (metis not_le unsigned_0 zero_less_numeral zero_less_power)
  then show ?thesis unfolding find_continumsa_inbafhlst_def MDIVMER_ARR_LMAX_def f Let_def using ty n(3) by simp
qed

lemma pow2_below:
  fixes n :: nat
  assumes "0 < n"
  obtains k where "2 ^ k \<le> n" and "n < 2 ^ Suc k"
  using bitlen_bounds [OF assms] that [of "bitlen n - 1"] by auto

lemma pow2_less_exp: "(2 :: nat) ^ k \<le> n \<Longrightarrow> n < 2 ^ m \<Longrightarrow> k < m"
  by (meson le_less_trans one_less_numeral_iff power_less_imp_less_exp semiring_norm(76))

text \<open>The blocks are cut off from the front, the largest first.\<close>

lemma mareabafh_step:
  assumes ok: "area_ok ty mi N msa ma A {}" and sN: "s + n \<le> N" and run: "run_ok ty msa s n" "0 < n" "n < 2 ^ 51"
    and dj: "{s..<s + n} \<inter> bunion (blocks ma \<union> A) = {}"
    and ty: "ma_type ma \<noteq> MA_TYPE_PROC" "ma_type ma \<noteq> MA_TYPE_SHAR"
    and st: "\<forall>k. af_stus (get_bafh ma (Lie k)) = BAFH_STUS_DIVM"
    and k: "2 ^ k \<le> n" "n < 2 ^ Suc k"
  shows "\<exists>ma'. continumsadsc_mareabafh_core mi s e (of_nat n) msa ma =
      (True, if n = 2 ^ k then s else s + 2 ^ k, if n = 2 ^ k then None else Some e, of_nat (n - 2 ^ k), linked mi s k msa, ma') \<and>
    area_ok ty mi N (linked mi s k msa) ma' A {} \<and> blocks ma' = insert (s, k) (blocks ma) \<and> marea_same False (2 ^ k) ma ma'"
proof -
  have k51: "k < 51" using pow2_less_exp k(1) run(3) by blast
  have sub: "blk s k \<subseteq> {s..<s + n}" using k(1) by (auto simp: blk_def)
  then have s: "blk s k \<subseteq> {..<N}" "blk s k \<inter> bunion (blocks ma \<union> A) = {}" using sN dj by auto
  have k52: "k < 52" using k51 by simp
  from add_bafhlst_ok [OF ok k52 s run_ok_blk [OF run(1) k(1)]] obtain ma' where
    a: "continumsadsc_add_bafhlst mi (Lie k) s (lastp s k) (2 ^ k) msa ma = (True, linked mi s k msa, ma')"
    "area_ok ty mi N (linked mi s k msa) ma' A {}" "blocks ma' = insert (s, k) (blocks ma)" "marea_same False (2 ^ k) ma ma'"
    by blast
  have u: "unat (of_nat n :: u64) = n" using run(3) by (simp add: unat_of_nat)
  have "(2 :: u64) ^ k \<le> of_nat n" using k(1) k51 u by (simp add: word_le_nat_alt)
  moreover have nz: "\<not> (of_nat n :: u64) < 1" using u run(2) by (simp add: word_less_nat_alt)
  moreover have d: "(of_nat n :: u64) - 2 ^ k = of_nat (n - 2 ^ k)" using k(1) by (simp add: of_nat_diff)
  moreover have "(of_nat (n - 2 ^ k) :: u64) = 0 \<longleftrightarrow> n = 2 ^ k"
  proof -
    have "unat (of_nat (n - 2 ^ k) :: u64) = n - 2 ^ k" using run(3) by (simp add: unat_of_nat)
    then show ?thesis using k(1) by (metis diff_is_0_eq le_antisym unsigned_0 unat_eq_zero diff_self_eq_0)
  qed
  moreover have "unat (2 ^ k :: u64) = 2 ^ k" using k51 by simp
  ultimately show ?thesis
    using a ty st find_continumsa_ok [OF ok k k51 ty] oder_ok [OF ok k52]
    by (simp add: continumsadsc_mareabafh_core_def Let_def lastp_code not_less)
qed

lemma mareabafh_loop_ok:
  assumes "area_ok ty mi N msa ma A {}" and "s + n \<le> N" and "run_ok ty msa s n" "0 < n" "n < 2 ^ 51"
    and "{s..<s + n} \<inter> bunion (blocks ma \<union> A) = {}"
    and "ma_type ma \<noteq> MA_TYPE_PROC" "ma_type ma \<noteq> MA_TYPE_SHAR"
    and "\<forall>k. af_stus (get_bafh ma (Lie k)) = BAFH_STUS_DIVM"
  shows "\<exists>msa' ma'. mareabafh_loop mi s (Some e) (of_nat n) msa ma = Some (msa', ma') \<and>
    area_ok ty mi N msa' ma' A {} \<and> bunion (blocks ma') = bunion (blocks ma) \<union> {s..<s + n} \<and>
    link_only msa msa' \<and> msa_frame ty msa msa' \<and> marea_same False (of_nat n) ma ma'"
  using assms
proof (induction n arbitrary: s msa ma rule: less_induct)
  case (less n)
  obtain k where k: "2 ^ k \<le> n" "n < 2 ^ Suc k" by (rule pow2_below [OF less.prems(4)])
  let ?msa = "linked mi s k msa"
  from mareabafh_step [OF less.prems k, of e] obtain ma1 where
    c: "continumsadsc_mareabafh_core mi s e (of_nat n) msa ma =
      (True, if n = 2 ^ k then s else s + 2 ^ k, if n = 2 ^ k then None else Some e, of_nat (n - 2 ^ k), ?msa, ma1)"
    and a: "area_ok ty mi N ?msa ma1 A {}" "blocks ma1 = insert (s, k) (blocks ma)" "marea_same False (2 ^ k) ma ma1" by blast
  have fr: "msa_frame ty msa ?msa"
    using run_ok_blk [OF less.prems(3) k(1)] linked_free [OF run_ok_blk [OF less.prems(3) k(1)], of mi] linked_same
    by (intro frame_blk [of ty msa s k]) (simp_all add: free_blk_def)
  have pos: "(of_nat n :: u64) > 0"
    using less.prems(4,5) by (simp add: word_less_nat_alt unat_of_nat)
  have bl: "bunion (blocks ma1) = bunion (blocks ma) \<union> blk s k" using a(2) by auto
  have un: "mareabafh_loop mi s (Some e) (of_nat n) msa ma =
    mareabafh_loop mi (if n = 2 ^ k then s else s + 2 ^ k) (if n = 2 ^ k then None else Some e) (of_nat (n - 2 ^ k)) ?msa ma1"
    using c pos by (subst mareabafh_loop.simps) simp
  show ?case
  proof (cases "n = 2 ^ k")
    case True
    have "mareabafh_loop mi s None (of_nat (n - 2 ^ k)) ?msa ma1 = Some (?msa, ma1)" by (subst mareabafh_loop.simps) simp
    moreover have "blk s k = {s..<s + n}" using True by (simp add: blk_def)
    ultimately show ?thesis using un a bl linked_link_only [of msa mi s k] fr True by auto
  next
    case False
    let ?n = "n - 2 ^ k"
    have n: "?n < n" "0 < ?n" "?n < 2 ^ 51" "s + 2 ^ k + ?n = s + n" using k(1) less.prems(4,5) False by simp_all
    have "run_ok ty ?msa (s + 2 ^ k) ?n" by (rule run_ok_rest [OF less.prems(3) k(1) linked_link_only])
    moreover have "{s + 2 ^ k..<s + 2 ^ k + ?n} \<inter> bunion (blocks ma1 \<union> A) = {}"
    proof -
      have "bunion (blocks ma1 \<union> A) = blk s k \<union> bunion (blocks ma \<union> A)" using a(2) by auto
      moreover have "{s + 2 ^ k..<s + 2 ^ k + ?n} \<subseteq> {s..<s + n}" using n(4) by auto
      moreover have "{s + 2 ^ k..<s + 2 ^ k + ?n} \<inter> blk s k = {}" by (auto simp: blk_def)
      ultimately show ?thesis using less.prems(6) by blast
    qed
    moreover have "ma_type ma1 = ma_type ma" "\<forall>j. af_stus (get_bafh ma1 (Lie j)) = BAFH_STUS_DIVM"
      using a(3) less.prems(9) by (simp_all add: marea_same_def)
    ultimately obtain msa2 ma2 where r:
      "mareabafh_loop mi (s + 2 ^ k) (Some e) (of_nat ?n) ?msa ma1 = Some (msa2, ma2)" "area_ok ty mi N msa2 ma2 A {}"
      "bunion (blocks ma2) = bunion (blocks ma1) \<union> {s + 2 ^ k..<s + n}" "link_only ?msa msa2" "msa_frame ty ?msa msa2"
      "marea_same False (of_nat ?n) ma1 ma2"
      using less.IH [OF n(1) a(1), of "s + 2 ^ k"] n less.prems(2,7,8) by auto
    have "blk s k \<union> {s + 2 ^ k..<s + n} = {s..<s + n}" using k(1) by (auto simp: blk_def)
    then have "bunion (blocks ma2) = bunion (blocks ma) \<union> {s..<s + n}" using r(3) bl by auto
    moreover have "marea_same False (of_nat n) ma ma2"
      using marea_same_trans [OF a(3) r(6)] k(1) by (simp add: of_nat_diff)
    ultimately show ?thesis using un r(1,2) False link_only_trans [OF linked_link_only r(4)] msa_frame_trans [OF fr r(5)] by auto
  qed
qed

section \<open>User pages\<close>

lemma add_proc_loop_ok:
  assumes "one_ok ty mi N msa ma U" and "s + t + n \<le> N" and "\<forall>i \<in> {s + t..<s + t + n}. page_free ty (msa i)"
    and "{s + t..<s + t + n} \<inter> (set (onel ma) \<union> U) = {}"
  shows "\<exists>msa' ma'. add_proc_loop mi One s t n msa ma = (msa', ma') \<and> one_ok ty mi N msa' ma' U \<and>
    set (onel ma') = set (onel ma) \<union> {s + t..<s + t + n} \<and> link_only msa msa' \<and> msa_frame ty msa msa' \<and>
    marea_same True (of_nat n) ma ma'"
  using assms
proof (induction n arbitrary: t msa ma)
  case 0
  then show ?case by simp
next
  case (Suc n)
  let ?p = "s + t" and ?b = "get_bafh ma One"
  let ?msa = "upd_msa ?p (\<lambda>m. m\<lparr>mf_olkty := MF_OLKTY_BAFH, md_odlink := OBafh mi One\<rparr>) msa"
  let ?ma1 = "put_bafh One (?b\<lparr>af_frelst := ?p # af_frelst ?b, af_fobjnr := af_fobjnr ?b + 1,
      af_mobjnr := af_mobjnr ?b + 1\<rparr>) ma"
  let ?ma = "?ma1\<lparr>ma_maxpages := ma_maxpages ?ma1 + 1, ma_freepages := ma_freepages ?ma1 + 1,
      ma_allmsadscnr := ma_allmsadscnr ?ma1 + 1\<rparr>"
  have "?p \<in> {s + t..<s + t + Suc n}" by simp
  then have p: "page_free ty (msa ?p)" "?p \<notin> set (onel ma) \<union> U" using Suc.prems(3,4) by blast+
  have lo: "link_only msa ?msa" by (rule link_only_upd)
  have one: "one_ok ty mi N ?msa ?ma U"
    using Suc.prems(1,2) p by (auto simp: one_ok_def bafh_ok_def one_free_def one_used_def upd_msa_def page_free_def)
  have fr: "msa_frame ty msa ?msa" using p(1) by (auto simp: msa_frame_def upd_msa_def page_free_def)
  have sm: "marea_same True 1 ma ?ma" by (simp add: marea_same_def)
  have on: "onel ?ma = ?p # onel ma" by simp
  have "\<forall>i \<in> {s + Suc t..<s + Suc t + n}. page_free ty (?msa i)"
    using Suc.prems(3) by (auto simp: link_only_sel [OF lo])
  moreover have "{s + Suc t..<s + Suc t + n} \<inter> (set (onel ?ma) \<union> U) = {}"
  proof -
    have "{s + Suc t..<s + Suc t + n} \<subseteq> {s + t..<s + t + Suc n}" "?p \<notin> {s + Suc t..<s + Suc t + n}" by auto
    then show ?thesis using Suc.prems(4) unfolding on list.set by blast
  qed
  moreover have "s + Suc t + n \<le> N" using Suc.prems(2) by simp
  ultimately obtain msa2 ma2 where r: "add_proc_loop mi One s (Suc t) n ?msa ?ma = (msa2, ma2)" "one_ok ty mi N msa2 ma2 U"
    "set (onel ma2) = set (onel ?ma) \<union> {s + Suc t..<s + Suc t + n}" "link_only ?msa msa2" "msa_frame ty ?msa msa2"
    "marea_same True (of_nat n) ?ma ma2"
    using Suc.IH [OF one] by blast
  have "add_proc_loop mi One s t (Suc n) msa ma = (msa2, ma2)" using r(1) by (simp add: Let_def)
  moreover have "{s + t..<s + t + Suc n} = insert ?p {s + Suc t..<s + Suc t + n}" by auto
  then have "set (onel ma2) = set (onel ma) \<union> {s + t..<s + t + Suc n}" unfolding r(3) on list.set by blast
  moreover have "marea_same True (of_nat (Suc n)) ma ma2" using marea_same_trans [OF sm r(6)] by simp
  ultimately show ?case using r(2) link_only_trans [OF lo r(4)] msa_frame_trans [OF fr r(5)] by blast
qed

section \<open>One run\<close>

definition stus_ok :: "memarea_t \<Rightarrow> bool" where
  "stus_ok ma \<longleftrightarrow> (\<forall>k. af_stus (get_bafh ma (Lie k)) = BAFH_STUS_DIVM) \<and> af_stus (get_bafh ma One) = BAFH_STUS_ONEM"

lemma stus_ok_same: "marea_same one n ma ma' \<Longrightarrow> stus_ok ma \<Longrightarrow> stus_ok ma'"
  by (simp add: stus_ok_def marea_same_def)

lemma run_added:
  assumes ls: "area_lists_ok N msa mi ma {}" and st: "stus_ok ma"
    and ty: "ma_type ma = ty" "ty = MA_TYPE_HWAD \<or> ty = MA_TYPE_KRNL \<or> ty = MA_TYPE_PROC"
    and run: "run_ok ty msa s n" "0 < n" "n < 2 ^ 51" and sN: "s + n \<le> N" and dj: "{s..<s + n} \<inter> free_of ma = {}"
  shows "\<exists>msa' ma'. merlove_continumsadsc_mareabafh mi s (s + n - 1) (of_nat n) msa ma = Some (True, msa', ma') \<and>
    area_lists_ok N msa' mi ma' {} \<and> free_of ma' = free_of ma \<union> {s..<s + n} \<and> link_only msa msa' \<and> msa_frame ty msa msa' \<and>
    marea_same (ty = MA_TYPE_PROC) (of_nat n) ma ma'"
proof -
  have u: "unat (of_nat n :: u64) = n" using run(3) by (simp add: unat_of_nat)
  have nz: "(of_nat n :: u64) \<noteq> 0" using u run(2) by fastforce
  show ?thesis
  proof (cases "ty = MA_TYPE_PROC")
    case True
    then have one: "one_ok ty mi N msa ma {}" using ls ty by (simp add: area_lists_ok_def)
    have "\<forall>i \<in> {s + 0..<s + 0 + n}. page_free ty (msa i)"
    proof
      fix i assume "i \<in> {s + 0..<s + 0 + n}"
      then have "i - s < n" "s + (i - s) = i" by auto
      then show "page_free ty (msa i)" using run(1) unfolding run_ok_def by metis
    qed
    then obtain msa' ma' where a: "add_proc_loop mi One s 0 n msa ma = (msa', ma')" "one_ok ty mi N msa' ma' {}"
      "set (onel ma') = set (onel ma) \<union> {s..<s + n}" "link_only msa msa'" "msa_frame ty msa msa'" "marea_same True (of_nat n) ma ma'"
      using add_proc_loop_ok [OF one, of s 0 n] sN dj True ty by (auto simp: free_of_def)
    have od: "af_oderpnr (get_bafh ma One) = 1" by (rule one_counters(5) [OF one])
    have lt: "\<not> (of_nat n :: u64) < 1" using nz by simp
    have "continumsadsc_mareabafh_core mi s (s + n - 1) (of_nat n) msa ma = (True, s, None, 0, msa', ma')"
      using True ty(1) st od nz lt u a(1)
      by (simp add: continumsadsc_mareabafh_core_def find_continumsa_inbafhlst_def continumsadsc_add_procmareabafh_def
          stus_ok_def Let_def BAFH_STUS_DIVM_def BAFH_STUS_DIVP_def BAFH_STUS_ONEM_def)
    then have "mareabafh_loop mi s (Some (s + n - 1)) (of_nat n) msa ma = Some (msa', ma')"
      using nz by (subst mareabafh_loop.simps) (simp add: word_gt_0 mareabafh_loop.simps [of mi s None])
    moreover have "ma_type ma' = ty" using a(6) ty by (simp add: marea_same_def)
    ultimately show ?thesis using a True ty nz
      by (simp add: merlove_continumsadsc_mareabafh_def area_lists_ok_def free_of_def)
  next
    case False
    then have np: "ma_type ma \<noteq> MA_TYPE_PROC" "ma_type ma \<noteq> MA_TYPE_SHAR" using ty by (auto simp: ma_consts)
    then have ar: "area_ok ty mi N msa ma {} {}" using ls ty by simp
    have dj': "{s..<s + n} \<inter> bunion (blocks ma \<union> {}) = {}" using dj np by (simp add: free_pages_def)
    have s': "\<forall>k. af_stus (get_bafh ma (Lie k)) = BAFH_STUS_DIVM" using st by (simp add: stus_ok_def)
    from mareabafh_loop_ok [OF ar sN run dj' np s', of "s + n - 1"] obtain msa' ma' where a:
      "mareabafh_loop mi s (Some (s + n - 1)) (of_nat n) msa ma = Some (msa', ma')" "area_ok ty mi N msa' ma' {} {}"
      "bunion (blocks ma') = bunion (blocks ma) \<union> {s..<s + n}" "link_only msa msa'" "msa_frame ty msa msa'"
      "marea_same False (of_nat n) ma ma'" by auto
    have "ma_type ma' = ty" "ma_type ma' \<noteq> MA_TYPE_PROC" using a(6) ty np by (simp_all add: marea_same_def)
    then show ?thesis using a np nz by (simp add: merlove_continumsadsc_mareabafh_def free_pages_def)
  qed
qed

section \<open>Finding runs\<close>

text \<open>Frame numbers are below \<open>2 ^ 40\<close>: physical addresses have at most 52 bits.\<close>

definition frames_ok :: "msas \<Rightarrow> bool" where
  "frames_ok msa \<longleftrightarrow> (\<forall>i. unat (paf_padrs (msa i)) < 2 ^ 40)"

lemma phyadr_unat: "unat (paf_padrs m) < 2 ^ 40 \<Longrightarrow> unat (phyadr m) = unat (paf_padrs m) * 4096"
  by (simp add: phyadr_def push_bit_eq_mult unat_word_ariths)

lemma next_frame:
  assumes a: "unat (paf_padrs a) < 2 ^ 40" and b: "unat (paf_padrs b) < 2 ^ 40"
  shows "phyadr b - phyadr a = PAGESIZE \<longleftrightarrow> paf_padrs b = paf_padrs a + 1"
proof -
  have n: "unat (paf_padrs a + 1) = unat (paf_padrs a) + 1" using a by (simp add: unat_word_ariths)
  have p: "unat (phyadr a + 4096) = unat (phyadr a) + 4096" using a by (simp add: unat_word_ariths phyadr_unat)
  have "phyadr b - phyadr a = PAGESIZE \<longleftrightarrow> phyadr b = phyadr a + 4096"
    by (auto simp: PAGESIZE_def algebra_simps)
  also have "\<dots> \<longleftrightarrow> unat (phyadr b) = unat (phyadr a) + 4096" by (simp add: word_unat_eq_iff p)
  also have "\<dots> \<longleftrightarrow> unat (paf_padrs b) = unat (paf_padrs a) + 1" unfolding phyadr_unat [OF a] phyadr_unat [OF b] by linarith
  also have "\<dots> \<longleftrightarrow> paf_padrs b = paf_padrs a + 1" by (simp add: word_unat_eq_iff n)
  finally show ?thesis .
qed

lemma scan_len_ok:
  assumes fr: "frames_ok msa" and p: "page_free ty (msa (s + r))"
  shows "\<exists>r'. scan_len_loop msa s ty n r = (True, r') \<and> r \<le> r' \<and> (\<forall>i \<in> {r..r'}. page_free ty (msa (s + i))) \<and>
    (\<forall>i \<in> {r..<r'}. paf_padrs (msa (s + i + 1)) = paf_padrs (msa (s + i)) + 1)"
  using p
proof (induction n arbitrary: r)
  case 0
  then show ?case by simp
next
  case (Suc n)
  show ?case
  proof (cases "page_free ty (msa (s + r + 1)) \<and> phyadr (msa (s + r + 1)) - phyadr (msa (s + r)) = PAGESIZE")
    case True
    then have c: "continumsadsc_is_ok (msa (s + r)) (msa (s + r + 1)) ty = 2"
      using Suc.prems by (simp add: continumsadsc_is_ok_def)
    have nx: "paf_padrs (msa (s + r + 1)) = paf_padrs (msa (s + r)) + 1"
      using True next_frame fr unfolding frames_ok_def by blast
    from True have "page_free ty (msa (s + Suc r))" by simp
    from Suc.IH [OF this] obtain r' where r: "scan_len_loop msa s ty n (Suc r) = (True, r')" "Suc r \<le> r'"
      "\<forall>i \<in> {Suc r..r'}. page_free ty (msa (s + i))" "\<forall>i \<in> {Suc r..<r'}. paf_padrs (msa (s + i + 1)) = paf_padrs (msa (s + i)) + 1"
      by blast
    have "scan_len_loop msa s ty (Suc n) r = (True, r')" using c r(1) by (simp add: Let_def)
    moreover have "page_free ty (msa (s + i))" if "i \<in> {r..r'}" for i
      using that Suc.prems r(3) by (cases "i = r") auto
    moreover have "paf_padrs (msa (s + i + 1)) = paf_padrs (msa (s + i)) + 1" if "i \<in> {r..<r'}" for i
      using that nx r(4) by (cases "i = r") auto
    ultimately show ?thesis using r(2) by (intro exI [of _ r']) auto
  next
    case False
    then have "continumsadsc_is_ok (msa (s + r)) (msa (s + r + 1)) ty = 1"
      using Suc.prems by (auto simp: continumsadsc_is_ok_def)
    then have "scan_len_loop msa s ty (Suc n) r = (True, r)" by (simp add: Let_def)
    then show ?thesis using Suc.prems by auto
  qed
qed

lemma run_from_scan:
  assumes "\<forall>i \<in> {0..r}. page_free ty (msa (s + i))"
    and nx: "\<forall>i \<in> {0..<r}. paf_padrs (msa (s + i + 1)) = paf_padrs (msa (s + i)) + 1"
  shows "run_ok ty msa s (r + 1)"
proof -
  have "i < r + 1 \<Longrightarrow> paf_padrs (msa (s + i)) = paf_padrs (msa s) + of_nat i" for i
  proof (induction i)
    case (Suc i)
    then show ?case using nx by (auto simp: ac_simps)
  qed simp
  then show ?thesis using assms(1) by (simp add: run_ok_def)
qed

lemma area_marty_eq: "ty = MA_TYPE_HWAD \<or> ty = MA_TYPE_KRNL \<or> ty = MA_TYPE_PROC \<Longrightarrow> ma_type ma = ty \<Longrightarrow> area_marty ma = Some ty"
  by (auto simp: area_marty_def ma_consts)

text \<open>A scan either finds no further free page of the area or the run that starts at the first one.\<close>

lemma scan_ok:
  assumes fr: "frames_ok msa" and ty: "ma_type ma = ty" "ty = MA_TYPE_HWAD \<or> ty = MA_TYPE_KRNL \<or> ty = MA_TYPE_PROC"
    and nend: "\<not> page_free ty (msa N)" and f: "f < N"
  shows "(\<forall>i \<in> {f..<N}. \<not> page_free ty (msa i)) \<and> merlove_scan_continumsadsc ma msa f N = Some (True, N, None) \<or>
    (\<exists>t r. f \<le> t \<and> t + r < N \<and> (\<forall>i \<in> {f..<t}. \<not> page_free ty (msa i)) \<and> run_ok ty msa t (r + 1) \<and>
      merlove_scan_continumsadsc ma msa f N = Some (True, t + r + 1, Some (t, t + r, r + 1)) \<and>
      check_continumsadsc ma msa t (t + r) (r + 1) \<noteq> 0)"
proof (cases "find (\<lambda>i. page_free ty (msa i)) [f..<N]")
  case None
  then have "merlove_scan_continumsadsc ma msa f N = Some (True, N, None)"
    using f area_marty_eq [OF ty(2,1)] by (simp add: merlove_scan_continumsadsc_def)
  then show ?thesis using None by (simp add: find_None_iff)
next
  case (Some t)
  then obtain j where j: "j < N - f" "t = f + j" "page_free ty (msa t)" "\<forall>l < j. \<not> page_free ty (msa (f + l))"
    by (auto simp: find_Some_iff)
  have "page_free ty (msa (t + 0))" using j(3) by simp
  from scan_len_ok [OF fr this, of "N - 1"] obtain r where r: "scan_len_loop msa t ty (N - 1) 0 = (True, r)"
    "\<forall>i \<in> {0..r}. page_free ty (msa (t + i))" "\<forall>i \<in> {0..<r}. paf_padrs (msa (t + i + 1)) = paf_padrs (msa (t + i)) + 1" by auto
  have tr: "t + r < N"
  proof (rule ccontr)
    assume "\<not> t + r < N"
    then have "N - t \<in> {0..r}" "t + (N - t) = N" using j(1,2) by auto
    then show False using r(2) nend by metis
  qed
  have run: "run_ok ty msa t (r + 1)" by (rule run_from_scan [OF r(2,3)])
  have before: "\<forall>i \<in> {f..<t}. \<not> page_free ty (msa i)"
  proof
    fix i assume "i \<in> {f..<t}"
    then have "i - f < j" "f + (i - f) = i" using j(2) by auto
    then show "\<not> page_free ty (msa i)" using j(4) by metis
  qed
  have "merlove_scan_continumsadsc ma msa f N = Some (True, t + r + 1, Some (t, t + r, r + 1))"
    using f area_marty_eq [OF ty(2,1)] Some r(1) by (simp add: merlove_scan_continumsadsc_def scan_len_msadsc_def)
  moreover have "check_continumsadsc ma msa t (t + r) (r + 1) \<noteq> 0"
  proof -
    have "page_free ty (msa i) \<and> page_free ty (msa (i + 1)) \<and> phyadr (msa (i + 1)) - phyadr (msa i) = PAGESIZE"
      if "i \<in> {t..<t + r}" for i
    proof -
      obtain l where l: "i = t + l" "l < r" using \<open>i \<in> {t..<t + r}\<close> by (metis atLeastLessThan_iff le_Suc_ex nat_add_left_cancel_less)
      have "l \<in> {0..r}" "Suc l \<in> {0..r}" "l \<in> {0..<r}" using l(2) by auto
      then have n: "paf_padrs (msa (i + 1)) = paf_padrs (msa i) + 1" "page_free ty (msa i)" "page_free ty (msa (t + Suc l))"
        using r(2,3) l(1) by blast+
      have "unat (paf_padrs (msa j)) < 2 ^ 40" for j using fr by (simp add: frames_ok_def)
      from next_frame [OF this this] n(1) have "phyadr (msa (i + 1)) - phyadr (msa i) = PAGESIZE" by blast
      then show ?thesis using n(2,3) l(1) by simp
    qed
    then show ?thesis using area_marty_eq [OF ty(2,1)] j(3) by (auto simp: check_continumsadsc_def list_all_iff)
  qed
  ultimately show ?thesis using j(2) tr run before by auto
qed

section \<open>One area\<close>

text \<open>The free pages of the area below \<open>f\<close>.\<close>

definition free_below :: "nat \<Rightarrow> msas \<Rightarrow> nat \<Rightarrow> nat set" where
  "free_below ty msa f = {i. i < f \<and> page_free ty (msa i)}"

lemma free_below_link:
  assumes "link_only msa msa'"
  shows "free_below ty msa' f = free_below ty msa f"
  by (simp add: free_below_def link_only_sel [OF assms])

lemma frames_link:
  assumes "link_only msa msa'"
  shows "frames_ok msa' = frames_ok msa"
  by (simp add: frames_ok_def link_only_sel [OF assms])

lemma onmemarea_loop_ok:
  assumes "area_lists_ok N msa mi ma {}" and "stus_ok ma" and "ma_type ma = ty"
    and ty: "ty = MA_TYPE_HWAD \<or> ty = MA_TYPE_KRNL \<or> ty = MA_TYPE_PROC"
    and "frames_ok msa" and "\<not> page_free ty (msa N)" and N: "N < 2 ^ 51"
    and "f \<le> N" and "free_of ma = free_below ty msa f"
  shows "\<exists>msa' ma'. onmemarea_loop mi N f msa ma = Some (msa', ma') \<and> area_lists_ok N msa' mi ma' {} \<and>
    free_of ma' = free_below ty msa N \<and> link_only msa msa' \<and> msa_frame ty msa msa' \<and>
    marea_same (ty = MA_TYPE_PROC) (of_nat (card (free_below ty msa N - free_below ty msa f))) ma ma'"
  using assms(1-3,5,6,8,9)
proof (induction "N - f" arbitrary: f msa ma rule: less_induct)
  case less
  note p = less.prems
  show ?case
  proof (cases "f = N")
    case True
    then have "onmemarea_loop mi N f msa ma = Some (msa, ma)" by (subst onmemarea_loop.simps) simp
    then show ?thesis using p True by auto
  next
    case False
    then have f: "f < N" using p(6) by simp
    from scan_ok [OF p(4,3) ty p(5) f] show ?thesis
    proof (elim disjE exE conjE)
      assume none: "\<forall>i \<in> {f..<N}. \<not> page_free ty (msa i)" and sc: "merlove_scan_continumsadsc ma msa f N = Some (True, N, None)"
      have "onmemarea_loop mi N N msa ma = Some (msa, ma)" by (subst onmemarea_loop.simps) simp
      then have "onmemarea_loop mi N f msa ma = Some (msa, ma)" using f sc by (subst onmemarea_loop.simps) simp
      moreover have "free_below ty msa N = free_below ty msa f" 
      proof -
        have "i < N \<and> page_free ty (msa i) \<longleftrightarrow> i < f \<and> page_free ty (msa i)" for i
          using none f by (cases "i < f") auto
        then show ?thesis by (simp add: free_below_def)
      qed
      ultimately show ?thesis using p by auto
    next
      fix t r assume t: "f \<le> t" "t + r < N" "\<forall>i \<in> {f..<t}. \<not> page_free ty (msa i)" and run: "run_ok ty msa t (r + 1)"
        and sc: "merlove_scan_continumsadsc ma msa f N = Some (True, t + r + 1, Some (t, t + r, r + 1))"
        and ck: "check_continumsadsc ma msa t (t + r) (r + 1) \<noteq> 0"
      let ?f = "t + r + 1"
      have dj: "{t..<t + (r + 1)} \<inter> free_of ma = {}" unfolding p(7) free_below_def using t(1) by auto
      have rn: "0 < r + 1" "r + 1 < 2 ^ 51" "t + (r + 1) \<le> N" using t(2) N by simp_all
      from run_added [OF p(1,2,3) ty run rn dj] obtain msa1 ma1 where a:
        "merlove_continumsadsc_mareabafh mi t (t + r) (of_nat (r + 1)) msa ma = Some (True, msa1, ma1)"
        "area_lists_ok N msa1 mi ma1 {}" "free_of ma1 = free_of ma \<union> {t..<t + (r + 1)}" "link_only msa msa1"
        "msa_frame ty msa msa1" "marea_same (ty = MA_TYPE_PROC) (of_nat (r + 1)) ma ma1" by auto
      have all: "page_free ty (msa i)" if "i \<in> {t..<t + (r + 1)}" for i
      proof -
        have "i - t < r + 1" "t + (i - t) = i" using that by auto
        then show ?thesis using run unfolding run_ok_def by metis
      qed
      have fb: "free_below ty msa ?f = free_below ty msa f \<union> {t..<t + (r + 1)}"
      proof -
        have "i \<in> free_below ty msa ?f \<longleftrightarrow> i \<in> free_below ty msa f \<union> {t..<t + (r + 1)}" for i
        proof (cases "i < f")
          case True
          then show ?thesis using t(1) by (simp add: free_below_def)
        next
          case False
          then show ?thesis using t(1,3) all [of i] by (cases "i < t") (auto simp: free_below_def)
        qed
        then show ?thesis by blast
      qed
      have "free_of ma1 = free_below ty msa1 ?f" using a(3) p(7) fb free_below_link [OF a(4)] by simp
      moreover have "stus_ok ma1" "ma_type ma1 = ty" "frames_ok msa1" "\<not> page_free ty (msa1 N)"
        using stus_ok_same [OF a(6) p(2)] a(6) p(3,5) frames_link [OF a(4)] p(4) link_only_sel [OF a(4)]
        by (simp_all add: marea_same_def)
      moreover have "N - ?f < N - f" "?f \<le> N" using t(1,2) by simp_all
      ultimately obtain msa2 ma2 where r: "onmemarea_loop mi N ?f msa1 ma1 = Some (msa2, ma2)" "area_lists_ok N msa2 mi ma2 {}"
        "free_of ma2 = free_below ty msa1 N" "link_only msa1 msa2" "msa_frame ty msa1 msa2"
        "marea_same (ty = MA_TYPE_PROC) (of_nat (card (free_below ty msa1 N - free_below ty msa1 ?f))) ma1 ma2"
        using less.hyps [of ?f msa1 ma1] a(2) by blast
      have "onmemarea_loop mi N f msa ma = Some (msa2, ma2)"
        using f sc ck a(1) r(1) by (subst onmemarea_loop.simps) simp
      moreover have "marea_same (ty = MA_TYPE_PROC) (of_nat (card (free_below ty msa N - free_below ty msa f))) ma ma2"
      proof -
        let ?X = "free_below ty msa N - free_below ty msa ?f"
        have "free_below ty msa N - free_below ty msa f = {t..<t + (r + 1)} \<union> ?X"
        proof -
          have "{t..<t + (r + 1)} \<subseteq> free_below ty msa N" unfolding free_below_def using all t(2) by auto
          moreover have "{t..<t + (r + 1)} \<inter> free_below ty msa f = {}" using dj unfolding p(7) .
          ultimately show ?thesis unfolding fb by blast
        qed
        moreover have "{t..<t + (r + 1)} \<inter> ?X = {}" using fb by auto
        moreover have "finite ?X" by (simp add: free_below_def)
        ultimately have "card (free_below ty msa N - free_below ty msa f) = (r + 1) + card ?X" by (simp add: card_Un_disjoint)
        then show ?thesis using marea_same_trans [OF a(6) r(6)] by (simp add: free_below_link [OF a(4)] ac_simps)
      qed
      moreover have "free_of ma2 = free_below ty msa N" using r(3) free_below_link [OF a(4)] by simp
      ultimately show ?thesis using r(2) link_only_trans [OF a(4) r(4)] msa_frame_trans [OF a(5) r(5)] by blast
    qed
  qed
qed

end
