(* ===== verification/Memarea_Init.thy ===== *)
theory Memarea_Init
  imports Memarea_Boot
begin

text \<open>
  The boot of the page allocator from end to end: the areas that \<open>init_memarea\<close> sets up, the
  area each page is given, the lists, the check at the end and the manager object.
\<close>

declare get_bafh.simps [simp del] put_bafh.simps [simp del]

section \<open>The areas at the start\<close>

definition boot_area :: "nat \<Rightarrow> memarea_t" where
  "boot_area = (\<lambda>_. memarea_t_init)
     (0 := memarea_t_init\<lparr>ma_type := MA_TYPE_HWAD, ma_logicstart := MA_HWAD_LSTART, ma_logicend := MA_HWAD_LEND,
        ma_logicsz := MA_HWAD_LSZ\<rparr>,
      1 := memarea_t_init\<lparr>ma_type := MA_TYPE_KRNL, ma_logicstart := MA_KRNL_LSTART, ma_logicend := MA_KRNL_LEND,
        ma_logicsz := MA_KRNL_LSZ\<rparr>,
      2 := memarea_t_init\<lparr>ma_type := MA_TYPE_PROC, ma_logicstart := MA_PROC_LSTART, ma_logicend := MA_PROC_LEND,
        ma_logicsz := MA_PROC_LSZ\<rparr>,
      3 := memarea_t_init\<lparr>ma_type := MA_TYPE_SHAR\<rparr>)"

lemma init_memarea_core_areas:
  "init_memarea_core sz mbsp = Some (True, mbsp', ma) \<Longrightarrow> ma = boot_area"
  by (auto simp: init_memarea_core_def boot_area_def Let_def split: if_splits bind_splits)

lemma boot_area_type: "mi < 4 \<Longrightarrow> ma_type (boot_area mi) = Suc mi"
  by (auto simp: boot_area_def ma_consts less_Suc_eq numeral_eq_Suc)

lemma boot_area_lists [simp]:
  "get_bafh (boot_area mi) (Lie k) = bafhlst_t_init BAFH_STUS_DIVM (of_nat k) (push_bit k 1)"
  "get_bafh (boot_area mi) One = bafhlst_t_init BAFH_STUS_ONEM 0 1"
  by (simp_all add: boot_area_def get_bafh.simps memarea_t_init_def memdivmer_t_init_def)

lemma boot_area_pages [simp]:
  "ma_maxpages (boot_area mi) = 0" "ma_freepages (boot_area mi) = 0" "ma_allocpages (boot_area mi) = 0"
  by (simp_all add: boot_area_def memarea_t_init_def)

lemma boot_area_blocks [simp]: "blocks (boot_area mi) = {}" "free_of (boot_area mi) = {}"
  by (simp_all add: blocks_def free_of_def free_pages_def bafhlst_t_init_def)

lemma boot_area_stus: "stus_ok (boot_area mi)"
  by (simp add: stus_ok_def bafhlst_t_init_def)

lemma boot_area_ok: "N \<le> 2 ^ 52 \<Longrightarrow> area_lists_ok N msa mi (boot_area mi) {}"
  by (simp add: area_lists_ok_def area_ok_def one_ok_def bafh_ok_def bafhlst_t_init_def push_bit_eq_mult bdisj_def)

section \<open>The area of a page\<close>

definition marty_of :: "msadsc_t \<Rightarrow> nat" where
  "marty_of m = (if unat (paf_padrs m) < 0x2000 then 1 else if unat (paf_padrs m) < 0x400000 then 2 else 3)"

lemma in_boot_area:
  assumes f: "unat (paf_padrs m) < 2 ^ 40" and mi: "mi < 3"
  shows "in_area (boot_area mi) m \<longleftrightarrow> marty_of m = Suc mi"
proof -
  note u = phyadr_unat [OF f]
  have e: "unat (4095 + phyadr m) = unat (paf_padrs m) * 4096 + 4095"
    using f u by (simp add: unat_word_ariths)
  consider "mi = 0" | "mi = 1" | "mi = 2" using mi by linarith
  then show ?thesis
  proof cases
    case 1
    then show ?thesis unfolding in_area_def boot_area_def marty_of_def
      by (auto simp add: PAGESIZE_def word_le_nat_alt e u marea_limits)
  next
    case 2
    then show ?thesis unfolding in_area_def boot_area_def marty_of_def
      by (auto simp add: PAGESIZE_def word_le_nat_alt e u marea_limits)
  next
    case 3
    then show ?thesis unfolding in_area_def boot_area_def marty_of_def using f
      by (auto simp add: PAGESIZE_def word_le_nat_alt e u marea_limits)
  qed
qed

text \<open>The descriptors after the areas of type at most \<open>t\<close> have been handed out.\<close>

definition flagged :: "nat \<Rightarrow> nat \<Rightarrow> msas \<Rightarrow> msas" where
  "flagged N t msa = (\<lambda>i. if i < N \<and> marty_of (msa i) \<le> t then (msa i)\<lparr>mf_marty := marty_of (msa i)\<rparr> else msa i)"

lemma flagged_sel [simp]:
  "paf_padrs (flagged N t msa i) = paf_padrs (msa i)" "mf_uindx (flagged N t msa i) = mf_uindx (msa i)"
  "mf_mocty (flagged N t msa i) = mf_mocty (msa i)" "paf_alloc (flagged N t msa i) = paf_alloc (msa i)"
  "marty_of (flagged N t msa i) = marty_of (msa i)" "in_area ma (flagged N t msa i) = in_area ma (msa i)"
  by (simp_all add: flagged_def marty_of_def in_area_def phyadr_def)

lemma flagged_0: "flagged N 0 msa = msa"
  by (auto simp: flagged_def marty_of_def)

lemma marty_fold:
  "fold (\<lambda>mix (retnr, msa). if mf_marty (msa mix) = 0 \<and> in_area ma (msa mix)
       then (Suc retnr, upd_msa mix (\<lambda>m. m\<lparr>mf_marty := marty\<rparr>) msa) else (retnr, msa)) [0..<n] (0, msa) =
     (card {i. i < n \<and> mf_marty (msa i) = 0 \<and> in_area ma (msa i)},
      \<lambda>i. if i < n \<and> mf_marty (msa i) = 0 \<and> in_area ma (msa i) then (msa i)\<lparr>mf_marty := marty\<rparr> else msa i)"
proof (induction n)
  case (Suc n)
  let ?P = "\<lambda>i. mf_marty (msa i) = 0 \<and> in_area ma (msa i)"
  have s: "{i. i < Suc n \<and> ?P i} = (if ?P n then insert n {i. i < n \<and> ?P i} else {i. i < n \<and> ?P i})"
    by (auto simp: less_Suc_eq)
  show ?case using Suc s by (auto simp: upd_msa_def less_Suc_eq fun_eq_iff)
qed auto

lemma count_upt: "length (filter P [0..<n]) = card {i. i < n \<and> P i}"
  by (simp add: length_filter_conv_card cong: conj_cong)

lemma set_step:
  assumes fr: "frames_ok msa" and N: "0 < N" and z: "\<forall>i < N. mf_marty (msa i) = 0" and mi: "mi < 3"
  shows "\<exists>c. merlove_setallmarflgs_onmemarea (boot_area mi) N (flagged N mi msa) = (Some c, flagged N (Suc mi) msa) \<and>
    test_setflgs (boot_area mi) N (flagged N (Suc mi) msa) = Some c"
proof -
  let ?f = "flagged N mi msa" and ?g = "flagged N (Suc mi) msa"
  have ty: "area_marty (boot_area mi) = Some (Suc mi)" "ma_type (boot_area mi) \<noteq> MA_TYPE_SHAR"
    using boot_area_type [of mi] mi by (auto simp: area_marty_def ma_consts)
  have ia: "in_area (boot_area mi) (msa i) \<longleftrightarrow> marty_of (msa i) = Suc mi" for i
    using in_boot_area [OF _ mi] fr by (simp add: frames_ok_def)
  have nz: "marty_of m \<noteq> 0" for m by (simp add: marty_of_def)
  have c: "mf_marty (?f i) = 0 \<and> in_area (boot_area mi) (msa i) \<longleftrightarrow> marty_of (msa i) = Suc mi" if "i < N" for i
    using z that by (simp add: ia) (auto simp: flagged_def)
  then have cc: "i < N \<and> mf_marty (?f i) = 0 \<and> in_area (boot_area mi) (msa i) \<longleftrightarrow> i < N \<and> marty_of (msa i) = Suc mi" for i
    by blast
  have g: "(\<lambda>i. if i < N \<and> marty_of (msa i) = Suc mi then (?f i)\<lparr>mf_marty := Suc mi\<rparr> else ?f i) = ?g"
    by (auto simp: flagged_def fun_eq_iff le_Suc_eq)
  have t: "i < N \<and> in_area (boot_area mi) (msa i) \<and> mf_marty (?g i) = Suc mi \<longleftrightarrow> i < N \<and> marty_of (msa i) = Suc mi" for i
    by (simp add: ia) (auto simp: flagged_def)
  have "merlove_setallmarflgs_onmemarea (boot_area mi) N ?f = (Some (card {i. i < N \<and> marty_of (msa i) = Suc mi}), ?g)"
    using N ty by (simp add: merlove_setallmarflgs_onmemarea_def marty_fold cc g)
  moreover have "test_setflgs (boot_area mi) N ?g = Some (card {i. i < N \<and> marty_of (msa i) = Suc mi})"
    using N ty by (simp add: test_setflgs_def count_upt t)
  ultimately show ?thesis by blast
qed

lemma setflgs_ok:
  assumes "frames_ok msa" and "0 < N" and "\<forall>i < N. mf_marty (msa i) = 0"
  shows "setflgs_areas [0..<4] N boot_area msa = (True, flagged N 3 msa)"
proof -
  have sh: "merlove_setallmarflgs_onmemarea (boot_area 3) N x = (Some 0, x)" "test_setflgs (boot_area 3) N x = Some 0" for x
    using assms(2) boot_area_type [of 3]
    by (simp_all add: merlove_setallmarflgs_onmemarea_def test_setflgs_def ma_consts)
  have st: "\<exists>c. merlove_setallmarflgs_onmemarea (boot_area mi) N (flagged N mi msa) = (Some c, flagged N (Suc mi) msa) \<and>
      test_setflgs (boot_area mi) N (flagged N (Suc mi) msa) = Some c" if "mi < 3" for mi by (rule set_step [OF assms that])
  obtain a where a: "merlove_setallmarflgs_onmemarea (boot_area 0) N msa = (Some a, flagged N (Suc 0) msa)"
    "test_setflgs (boot_area 0) N (flagged N (Suc 0) msa) = Some a"
    using st [of 0] unfolding flagged_0 by auto
  obtain b where b: "merlove_setallmarflgs_onmemarea (boot_area (Suc 0)) N (flagged N (Suc 0) msa) = (Some b, flagged N 2 msa)"
    "test_setflgs (boot_area (Suc 0)) N (flagged N 2 msa) = Some b"
    using st [of "Suc 0"] by (auto simp: numeral_2_eq_2)
  obtain c where c: "merlove_setallmarflgs_onmemarea (boot_area 2) N (flagged N 2 msa) = (Some c, flagged N 3 msa)"
    "test_setflgs (boot_area 2) N (flagged N 3 msa) = Some c"
    using st [of 2] by (auto simp: numeral_2_eq_2 numeral_3_eq_3)
  note a b c
  moreover have "[0..<4] = [0, 1, 2, 3 :: nat]" by (simp add: upt_rec)
  ultimately show ?thesis by (simp add: sh)
qed

section \<open>The lists of all areas\<close>

lemma area_filled:
  assumes mi: "mi < 3" and N: "0 < N" "N < 2 ^ 51" and fr: "frames_ok msa" and e: "\<not> page_free (Suc mi) (msa N)"
  shows "\<exists>msa' ma'. merlove_mem_onmemarea mi N msa (boot_area mi) = Some (True, msa', ma') \<and>
    area_inv N msa' mi ma' {} \<and> ma_type ma' = Suc mi \<and> free_of ma' = free_below (Suc mi) msa N \<and>
    link_only msa msa' \<and> msa_frame (Suc mi) msa msa' \<and>
    marea_same (Suc mi = MA_TYPE_PROC) (of_nat (card (free_below (Suc mi) msa N))) (boot_area mi) ma'"
proof -
  have ty: "ma_type (boot_area mi) = Suc mi" using boot_area_type mi by simp
  have t: "Suc mi = MA_TYPE_HWAD \<or> Suc mi = MA_TYPE_KRNL \<or> Suc mi = MA_TYPE_PROC" using mi by (auto simp: ma_consts)
  have "N \<le> 2 ^ 52" using N by simp
  note ls = boot_area_ok [OF this]
  have "free_of (boot_area mi) = free_below (Suc mi) msa 0" by (simp add: free_below_def)
  from onmemarea_loop_ok [OF ls boot_area_stus ty t fr e N(2) _ this] obtain msa' ma' where
    a: "onmemarea_loop mi N 0 msa (boot_area mi) = Some (msa', ma')" "area_lists_ok N msa' mi ma' {}"
    "free_of ma' = free_below (Suc mi) msa N" "link_only msa msa'" "msa_frame (Suc mi) msa msa'"
    "marea_same (Suc mi = MA_TYPE_PROC) (of_nat (card (free_below (Suc mi) msa N))) (boot_area mi) ma'"
    by (auto simp: free_below_def)
  have "card (free_below (Suc mi) msa N) \<le> card {..<N}" by (rule card_mono) (auto simp: free_below_def)
  then have "unat (of_nat (card (free_below (Suc mi) msa N)) :: u64) = card (free_below (Suc mi) msa N)"
    using N by (simp add: unat_of_nat)
  then have "area_inv N msa' mi ma' {}" using a(2,3,6) by (simp add: area_inv_def marea_same_def)
  moreover have "ma_type ma' = Suc mi" using a(6) ty by (simp add: marea_same_def)
  ultimately show ?thesis using a N ty mi by (simp add: merlove_mem_onmemarea_def ma_consts)
qed

definition filled :: "nat \<Rightarrow> msas \<Rightarrow> msas \<Rightarrow> nat \<Rightarrow> memarea_t \<Rightarrow> bool" where
  "filled N msa0 msa mi ma \<longleftrightarrow> area_inv N msa mi ma {} \<and> ma_type ma = Suc mi \<and> free_of ma = free_below (Suc mi) msa0 N \<and>
     marea_same (Suc mi = MA_TYPE_PROC) (of_nat (card (free_below (Suc mi) msa0 N))) (boot_area mi) ma"

lemma filled_frame:
  "filled N msa0 msa mi ma \<Longrightarrow> msa_frame ty msa msa' \<Longrightarrow> Suc mi \<noteq> ty \<Longrightarrow> filled N msa0 msa' mi ma"
  unfolding filled_def using area_inv_frame by metis

lemma areas_filled:
  assumes N: "0 < N" "N < 2 ^ 51" and fr: "frames_ok msa" and e: "mf_marty (msa N) = 0"
    and ty: "\<forall>i < N. mf_marty (msa i) \<noteq> MA_TYPE_SHAR"
  shows "\<exists>msa' marea. onmemarea_areas [0..<4] N boot_area msa = Some (True, msa', marea) \<and> link_only msa msa' \<and>
    (\<forall>mi < 4. filled N msa msa' mi (marea mi))"
proof -
  have st: "\<exists>msa' ma'. merlove_mem_onmemarea mi N m (boot_area mi) = Some (True, msa', ma') \<and>
      filled N msa msa' mi ma' \<and> link_only msa msa' \<and> msa_frame (Suc mi) m msa'" if "link_only msa m" "mi < 3" for m mi
  proof -
    have "frames_ok m" "\<not> page_free (Suc mi) (m N)" "free_below (Suc mi) m N = free_below (Suc mi) msa N"
      using that fr e frames_link free_below_link link_only_sel(7) [OF that(1)] by (auto simp: page_free_def)
    with area_filled [OF that(2) N, of m] link_only_trans [OF that(1)] show ?thesis unfolding filled_def by metis
  qed
  obtain m1 a1 where a1: "merlove_mem_onmemarea 0 N msa (boot_area 0) = Some (True, m1, a1)" "filled N msa m1 0 a1"
    "link_only msa m1" using st [of msa 0] by auto
  obtain m2 a2 where a2: "merlove_mem_onmemarea 1 N m1 (boot_area 1) = Some (True, m2, a2)" "filled N msa m2 1 a2"
    "link_only msa m2" "msa_frame 2 m1 m2" using st [OF a1(3), of 1] by (auto simp: numeral_2_eq_2)
  obtain m3 a3 where a3: "merlove_mem_onmemarea 2 N m2 (boot_area 2) = Some (True, m3, a3)" "filled N msa m3 2 a3"
    "link_only msa m3" "msa_frame 3 m2 m3" using st [OF a2(3), of 2] by (auto simp: numeral_3_eq_3)
  have "filled N msa m3 0 a1" "filled N msa m3 1 a2"
    using filled_frame [OF filled_frame [OF a1(2) a2(4)] a3(4)] filled_frame [OF a2(2) a3(4)] by simp_all
  moreover have "filled N msa m3 3 (boot_area 3)"
  proof -
    have "free_below 4 msa N = {}" using ty by (auto simp: free_below_def page_free_def ma_consts)
    moreover have "area_inv N m3 3 (boot_area 3) {}" using boot_area_ok [of N m3 3] N by (simp add: area_inv_def)
    ultimately show ?thesis using boot_area_type [of 3] by (simp add: filled_def)
  qed
  ultimately have "filled N msa m3 mi ((boot_area(0 := a1, 1 := a2, 2 := a3)) mi)" if "mi < 4" for mi
    using a3(2) that by (auto simp: less_Suc_eq numeral_eq_Suc)
  moreover have "onmemarea_areas [0..<4] N boot_area msa = Some (True, m3, boot_area(0 := a1, 1 := a2, 2 := a3))"
  proof -
    have "merlove_mem_onmemarea 3 N m3 (boot_area 3) = Some (True, m3, boot_area 3)"
      using N boot_area_type [of 3] by (simp add: merlove_mem_onmemarea_def ma_consts)
    moreover have "[0..<4] = [0, 1, 2, 3 :: nat]" by (simp add: upt_rec)
    ultimately show ?thesis using a1(1) a2(1) a3(1) by (simp add: fun_upd_idem)
  qed
  ultimately show ?thesis using a3(3) by blast
qed

section \<open>The check at the end\<close>

lemma check_block:
  assumes b: "free_blk ty mi msa s k" and k: "k < 52" and od: "af_oderpnr (get_bafh ma (Lie k)) = 2 ^ k"
    and ty: "ma_type ma = ty" and fr: "frames_ok msa" and ia: "\<forall>i \<in> blk s k. in_area ma (msa i)"
  shows "check_multi_msadsc mi (Lie k) ma msa s = 2 ^ k"
proof -
  have cl: "i \<in> blk s k \<Longrightarrow> mf_uindx (msa i) = 0 \<and> \<not> paf_alloc (msa i)" for i
    using b by (simp add: free_blk_def clear_ok_def)
  have mt: "i \<in> blk s k \<Longrightarrow> mf_marty (msa i) = ty" for i
    using b pages_ok_marty [of ty msa s k i] by (simp add: free_blk_def)
  have nx: "phyadr (msa i) + PAGESIZE = phyadr (msa (i + 1))" if "i \<in> blk s k" "i + 1 \<in> blk s k" for i
  proof -
    have j: "i - s < 2 ^ k" "i + 1 - s < 2 ^ k" "s + (i - s) = i" "s + (i + 1 - s) = i + 1" "i + 1 - s = Suc (i - s)"
      using that by (auto simp: blk_def)
    then have "paf_padrs (msa (i + 1)) = paf_padrs (msa i) + 1"
      using b unfolding free_blk_def pages_ok_def by (metis (no_types, lifting) add.assoc add.commute of_nat_Suc)
    then have "phyadr (msa (i + 1)) - phyadr (msa i) = PAGESIZE" using next_frame [of "msa i" "msa (i + 1)"] fr
      unfolding frames_ok_def by blast
    then show ?thesis by (simp add: algebra_simps)
  qed
  have le: "phyadr (msa i) \<ge> ma_logicstart ma" "phyadr (msa i) + PAGESIZE - 1 \<le> ma_logicend ma" if "i \<in> blk s k" for i
    using ia that by (simp_all add: in_area_def)
  have l: "msadiff (lastp s k) s + 1 = 2 ^ k" by (rule msadiff_lastp)
  have u: "unat (2 ^ k - 1 :: u64) = 2 ^ k - 1" using k pow2_nz [of k] by (simp add: unat_minus_one)
  show ?thesis
  proof (cases "k = 0")
    case True
    then show ?thesis using b od ty cl [of s] mt [of s] le [of s] unfolding free_blk_def free_link_def
      by (simp add: check_multi_msadsc_def Let_def lastp_def msadiff_def not_less)
  next
    case False
    have "i \<in> blk s k \<and> i + 1 \<in> blk s k" if "i \<in> {s..<s + unat (2 ^ k - 1 :: u64)}" for i
      using that k u by (auto simp: blk_def)
    moreover have "(2 :: u64) ^ k \<noteq> 1" 
    proof
      assume "(2 :: u64) ^ k = 1"
      then have "(2 :: nat) ^ k = 1" using unat_2p [of k] k by simp
      then show False using False by simp
    qed
    ultimately show ?thesis using False b od ty l cl mt le nx unfolding free_blk_def free_link_def
      by (simp add: check_multi_msadsc_def Let_def not_less list_all_iff)
  qed
qed

lemma check_single:
  assumes "one_free ty mi (msa s)" and "af_oderpnr (get_bafh ma One) = 1" and "ma_type ma = ty" and "in_area ma (msa s)"
  shows "check_multi_msadsc mi One ma msa s = 1"
  using assms by (simp add: check_multi_msadsc_def Let_def one_free_def in_area_def not_less msadiff_def)

lemma check_empty: "af_mobjnr (get_bafh ma r) = 0 \<Longrightarrow> af_fobjnr (get_bafh ma r) = 0 \<Longrightarrow> check_one_bafhlst mi r ma msa"
  by (simp add: check_one_bafhlst_def Let_def)

lemma check_area:
  assumes f: "filled N msa0 msa mi ma" and fr: "frames_ok msa"
    and ia: "\<forall>i < N. mf_marty (msa i) = Suc mi \<longrightarrow> in_area ma (msa i)"
  shows "check_one_memarea mi ma msa"
proof -
  have ls: "area_lists_ok N msa mi ma {}" and ty: "ma_type ma = Suc mi" using f by (simp_all add: filled_def area_inv_def)
  have in_a: "in_area ma (msa i)" if "i \<in> free_of ma" for i
    using area_pages(1,3) [OF ls] ia that ty by (metis Un_iff lessThan_iff subset_eq)
  show ?thesis
  proof (cases "Suc mi = MA_TYPE_PROC")
    case True
    then have one: "one_ok (Suc mi) mi N msa ma {}" using ls ty by (simp add: area_lists_ok_def)
    have b: "bafh_ok (get_bafh ma One) 0" using one by (simp add: one_ok_def)
    have "check_multi_msadsc mi One ma msa s = 1" if "s \<in> set (onel ma)" for s
      using one that in_a [of s] True ty by (intro check_single) (auto simp: one_ok_def free_of_def bafh_ok_def)
    then have "check_one_bafhlst mi One ma msa" using b
      by (auto simp: check_one_bafhlst_def Let_def bafh_ok_def list_all_iff)
    moreover have "check_one_bafhlst mi (Lie k) ma msa" for k
      using f True by (intro check_empty) (simp_all add: filled_def marea_same_def bafhlst_t_init_def)
    ultimately show ?thesis by (simp add: check_one_memarea_def list_all_iff)
  next
    case False
    then have ok: "area_ok (Suc mi) mi N msa ma {} {}" using ls ty by (simp add: area_lists_ok_def)
    have "check_one_bafhlst mi (Lie k) ma msa" if k: "k < 52" for k
    proof -
      have b: "bafh_ok (get_bafh ma (Lie k)) k" by (rule area_okD(1) [OF ok k])
      have "check_multi_msadsc mi (Lie k) ma msa s = 2 ^ k" if s: "s \<in> set (frel ma k)" for s
      proof -
        have sb: "(s, k) \<in> blocks ma" using s k by (simp add: blocks_def)
        then have "blk s k \<subseteq> free_of ma" using False ty by (auto simp: free_of_def free_pages_def bunion_def)
        then show ?thesis using area_okD(2) [OF ok sb] k b ty fr in_a
          by (intro check_block) (auto simp: bafh_ok_def)
      qed
      then show ?thesis using b by (auto simp: check_one_bafhlst_def Let_def bafh_ok_def list_all_iff)
    qed
    moreover have "check_one_bafhlst mi One ma msa"
      using f False by (intro check_empty) (simp_all add: filled_def marea_same_def bafhlst_t_init_def)
    ultimately show ?thesis by (simp add: check_one_memarea_def list_all_iff MDIVMER_ARR_LMAX_def)
  qed
qed

section \<open>The whole boot\<close>

text \<open>The descriptors that \<open>init_msadsc\<close> and \<open>init_search_krloccupymm\<close> leave: no page has an area, every
  page is free or occupied by the kernel image.\<close>

definition boot_msas :: "nat \<Rightarrow> msas \<Rightarrow> bool" where
  "boot_msas N msa \<longleftrightarrow> 0 < N \<and> N < 2 ^ 51 \<and> frames_ok msa \<and> (\<forall>i \<le> N. mf_marty (msa i) = 0) \<and>
     (\<forall>i < N. page_free 0 (msa i) \<or> mf_uindx (msa i) = 1 \<and> mf_mocty (msa i) = MF_MOCTY_KRNL \<and> paf_alloc (msa i))"

abbreviation boot_free :: "nat \<Rightarrow> msas \<Rightarrow> nat set" where
  "boot_free N msa \<equiv> {i. i < N \<and> page_free 0 (msa i)}"

lemma flagged_marty: "i < N \<Longrightarrow> mf_marty (flagged N 3 msa i) = marty_of (msa i)"
  by (simp add: flagged_def marty_of_def)

lemma flagged_free:
  assumes "boot_msas N msa"
  shows "free_below t (flagged N 3 msa) N = {i \<in> boot_free N msa. marty_of (msa i) = t}"
  using assms by (auto simp: free_below_def page_free_def boot_msas_def flagged_marty)

lemma merlove_ok:
  assumes b: "boot_msas N msa" and nr: "unat (mb_memmapnr mbsp) = N" "unat (mb_memznnr mbsp) = 4"
    and v: "phyadr_to_viradr (mb_memmappadr mbsp) = Some v1" "phyadr_to_viradr (mb_memznpadr mbsp) = Some v2"
  shows "\<exists>msa' marea. init_merlove_mem mbsp boot_area msa = Some (msa', marea) \<and> link_only (flagged N 3 msa) msa' \<and>
    (\<forall>mi < 4. filled N (flagged N 3 msa) msa' mi (marea mi))"
proof -
  let ?f = "flagged N 3 msa"
  have N: "0 < N" "N < 2 ^ 51" and fr: "frames_ok msa" and z: "\<forall>i < N. mf_marty (msa i) = 0" "mf_marty (msa N) = 0"
    using b by (auto simp: boot_msas_def)
  have ff: "frames_ok ?f" "mf_marty (?f N) = 0" "\<forall>i < N. mf_marty (?f i) \<noteq> MA_TYPE_SHAR"
    using fr z(2) by (auto simp: frames_ok_def flagged_def marty_of_def ma_consts)
  obtain msa' marea where a: "onmemarea_areas [0..<4] N boot_area ?f = Some (True, msa', marea)" "link_only ?f msa'"
    "\<forall>mi < 4. filled N ?f msa' mi (marea mi)" using areas_filled [OF N ff] by blast
  have "check_one_memarea mi (marea mi) msa'" if mi: "mi < 4" for mi
  proof (rule check_area)
    show fi: "filled N ?f msa' mi (marea mi)" using a(3) mi by simp
    show "frames_ok msa'" using frames_link [OF a(2)] ff(1) by simp
    have lim: "ma_logicstart (marea mi) = ma_logicstart (boot_area mi)" "ma_logicend (marea mi) = ma_logicend (boot_area mi)"
      using fi by (simp_all add: filled_def marea_same_def)
    show "\<forall>i < N. mf_marty (msa' i) = Suc mi \<longrightarrow> in_area (marea mi) (msa' i)"
    proof (intro allI impI)
      fix i assume i: "i < N" "mf_marty (msa' i) = Suc mi"
      then have t: "marty_of (msa i) = Suc mi" using link_only_sel(1) [OF a(2)] flagged_marty by metis
      then have "mi < 3" by (simp add: marty_of_def split: if_splits)
      then have "in_area (boot_area mi) (msa i)" using in_boot_area t fr by (simp add: frames_ok_def)
      then have "in_area (boot_area mi) (msa' i)" using link_only_sel(8) [OF a(2)] by simp
      then show "in_area (marea mi) (msa' i)" by (simp add: in_area_def lim)
    qed
  qed
  then have "mem_check_mareadata mbsp marea msa' = Some ()"
    using nr(2) v(2) by (simp add: mem_check_mareadata_def list_all_iff)
  moreover have "merlove_mem_core mbsp boot_area msa = Some (True, msa', marea)"
    using v nr setflgs_ok [OF fr N(1) z(1)] a(1) by (simp add: merlove_mem_core_def)
  ultimately show ?thesis using a(2,3) by (simp add: init_merlove_mem_def)
qed

lemma free_by_area:
  assumes "boot_msas N msa" and "\<And>mi. mi < 4 \<Longrightarrow> g mi = free_below (Suc mi) (flagged N 3 msa) N"
  shows "(\<Union>mi < 4. g mi) = boot_free N msa" and "(\<Sum>mi < 4. card (g mi)) = card (boot_free N msa)"
proof -
  let ?A = "\<lambda>mi. {i \<in> boot_free N msa. marty_of (msa i) = Suc mi}"
  have g: "g mi = ?A mi" if "mi < 4" for mi using assms(2) [OF that] flagged_free [OF assms(1)] by simp
  have m: "\<exists>mi < 4. marty_of m = Suc mi" for m
    by (intro exI [of _ "marty_of m - 1"]) (simp add: marty_of_def)
  have u: "(\<Union>mi < 4. ?A mi) = boot_free N msa" using m by auto
  then show "(\<Union>mi < 4. g mi) = boot_free N msa" using g by auto
  have "card (\<Union>mi \<in> {..<4}. ?A mi) = (\<Sum>mi < 4. card (?A mi))"
    by (rule card_UN_disjoint) auto
  then show "(\<Sum>mi < 4. card (g mi)) = card (boot_free N msa)" unfolding u using g by simp
qed

lemma occupied_count:
  assumes b: "boot_msas N msa" and lo: "link_only (flagged N 3 msa) msa'"
  shows "length (filter (\<lambda>i. mf_uindx (msa' i) = 1 \<and> mf_mocty (msa' i) = MF_MOCTY_KRNL \<and> paf_alloc (msa' i)) [0..<N]) +
    card (boot_free N msa) = N"
proof -
  let ?P = "\<lambda>i. mf_uindx (msa i) = 1 \<and> mf_mocty (msa i) = MF_MOCTY_KRNL \<and> paf_alloc (msa i)"
  have "{i. i < N \<and> ?P i} \<union> boot_free N msa = {..<N}" using b by (auto simp: boot_msas_def)
  moreover have "{i. i < N \<and> ?P i} \<inter> boot_free N msa = {}" by (auto simp: page_free_def)
  ultimately have "card {i. i < N \<and> ?P i} + card (boot_free N msa) = N"
    using card_Un_disjoint [of "{i. i < N \<and> ?P i}" "boot_free N msa"] by simp
  then show ?thesis by (simp add: count_upt link_only_sel [OF lo])
qed

lemma sub_eq: "(a :: u64) = b + c \<Longrightarrow> a - b = c"
  by simp

lemma add_eq: "(a :: u64) - b = c \<Longrightarrow> b + c = a"
  by auto

lemma init_memarea_facts:
  assumes "init_memarea sz mbsp = Some (mbsp', marea)"
  shows "marea = boot_area" "unat (mb_memznnr mbsp') = 4" "mb_memznpadr mbsp' = mb_nextwtpadr mbsp"
    "\<exists>v. phyadr_to_viradr (mb_memznpadr mbsp') = Some v" "mb_memmapnr mbsp' = mb_memmapnr mbsp"
    "mb_memmappadr mbsp' = mb_memmappadr mbsp" "mb_e820expadr mbsp' = mb_e820expadr mbsp" "mb_e820exnr mbsp' = mb_e820exnr mbsp"
proof -
  have c: "init_memarea_core sz mbsp = Some (True, mbsp', marea)"
    using assms by (auto simp: init_memarea_def split: if_splits bind_splits)
  show "marea = boot_area" by (rule init_memarea_core_areas [OF c])
  show "unat (mb_memznnr mbsp') = 4" "mb_memznpadr mbsp' = mb_nextwtpadr mbsp"
    "\<exists>v. phyadr_to_viradr (mb_memznpadr mbsp') = Some v" "mb_memmapnr mbsp' = mb_memmapnr mbsp"
    "mb_memmappadr mbsp' = mb_memmappadr mbsp" "mb_e820expadr mbsp' = mb_e820expadr mbsp" "mb_e820exnr mbsp' = mb_e820exnr mbsp"
    using c by (auto simp: init_memarea_core_def Let_def MEMAREA_MAX_def split: if_splits bind_splits)
qed

lemma boot_mgr:
  assumes "init_memarea sz mbsp = Some (mbsp', marea)" and "boot_msas (unat (mb_memmapnr mbsp)) msa"
    and "mb_e820expadr mbsp \<noteq> 0" "mb_e820exnr mbsp \<noteq> 0" "mb_memmappadr mbsp \<noteq> 0" "mb_nextwtpadr mbsp \<noteq> 0"
    and "phyadr_to_viradr (mb_e820expadr mbsp) \<noteq> None" "phyadr_to_viradr (mb_memmappadr mbsp) \<noteq> None"
  shows "\<exists>msa' marea' mo. init_merlove_mem mbsp' marea msa = Some (msa', marea') \<and>
    init_memmgrob mbsp' marea' msa' = Some mo \<and> mgr_ok mo (\<lambda>_. {}) \<and> mo_mareanr mo = 4 \<and>
    (\<forall>mi < 4. free_of (area_at mo mi) = {i \<in> boot_free (unat (mb_memmapnr mbsp)) msa. marty_of (msa i) = Suc mi}) \<and>
    (\<Union>mi < 4. free_of (area_at mo mi)) = boot_free (unat (mb_memmapnr mbsp)) msa \<and>
    mo_freepages mo = of_nat (card (boot_free (unat (mb_memmapnr mbsp)) msa)) \<and> mo_maxpages mo = mb_memmapnr mbsp"
proof -
  let ?N = "unat (mb_memmapnr mbsp)" and ?f = "flagged (unat (mb_memmapnr mbsp)) 3 msa"
  note fa = init_memarea_facts [OF assms(1)]
  obtain v1 v2 v3 where v: "phyadr_to_viradr (mb_memmappadr mbsp') = Some v1" "phyadr_to_viradr (mb_memznpadr mbsp') = Some v2"
    "phyadr_to_viradr (mb_e820expadr mbsp') = Some v3" using assms(7,8) fa by auto
  obtain msa' marea' where m: "init_merlove_mem mbsp' boot_area msa = Some (msa', marea')" "link_only ?f msa'"
    "\<forall>mi < 4. filled ?N ?f msa' mi (marea' mi)"
    using merlove_ok [OF assms(2) _ fa(2) v(1,2)] fa(5) by auto
  have fo: "free_of (marea' mi) = free_below (Suc mi) ?f ?N" if "mi < 4" for mi using m(3) that by (simp add: filled_def)
  let ?c = "length (filter (\<lambda>i. mf_uindx (msa' i) = 1 \<and> mf_mocty (msa' i) = MF_MOCTY_KRNL \<and> paf_alloc (msa' i)) [0..<?N])"
  let ?mo = "\<lparr>mo_maxpages = mb_memmapnr mbsp, mo_freepages = mb_memmapnr mbsp - of_nat ?c, mo_alocpages = of_nat ?c,
      mo_msadscstat = msa', mo_msanr = ?N, mo_mareastat = marea', mo_mareanr = 4\<rparr>"
  have nz: "mb_memmapnr mbsp \<noteq> 0" using assms(2) by (auto simp: boot_msas_def)
  have zn: "mb_memznnr mbsp' \<noteq> 0" using fa(2) by auto
  have "init_memmgrob mbsp' marea' msa' = Some ?mo"
    using v fa assms(3-6) nz zn by (simp add: init_memmgrob_def Let_def)
  moreover have free: "mb_memmapnr mbsp - of_nat ?c = of_nat (card (boot_free ?N msa))"
  proof -
    have "mb_memmapnr mbsp = of_nat (?c + card (boot_free ?N msa))" unfolding occupied_count [OF assms(2) m(2)] by simp
    then have "mb_memmapnr mbsp = of_nat ?c + of_nat (card (boot_free ?N msa))" unfolding of_nat_add .
    then show ?thesis by (rule sub_eq)
  qed
  moreover have "mgr_ok ?mo (\<lambda>_. {})"
  proof -
    have "area_inv ?N msa' mi (marea' mi) {} \<and> ma_type (marea' mi) = Suc mi" if "mi < 4" for mi
      using m(3) that by (simp add: filled_def)
    moreover have "inj_on (\<lambda>mi. ma_type (marea' mi)) {..<4}" using calculation by (auto simp: inj_on_def)
    moreover have "of_nat (\<Sum>mi < 4. card (free_of (marea' mi))) = (of_nat (card (boot_free ?N msa)) :: u64)"
      using free_by_area(2) [OF assms(2) fo] by simp
    ultimately show ?thesis using free add_eq [OF free] by (simp add: mgr_ok_def del: of_nat_sum)
  qed
  ultimately show ?thesis using m(1) fa(1) free_by_area(1) [OF assms(2) fo] fo flagged_free [OF assms(2)]
    by (intro exI [of _ msa'] exI [of _ marea'] exI [of _ ?mo]) simp
qed


text \<open>Five pages: one of the hardware area, three of the kernel area, the first of them occupied, and one
  of the user area.\<close>

definition bt_mbsp :: machbstart_t where
  "bt_mbsp = \<lparr>mb_krlinitstack = 0x90000, mb_krlitstacksz = 0x1000, mb_imgpadr = 0x10000000, mb_imgsz = 0x1000,
     mb_krlimgpadr = 0x2000000, mb_krlsz = 0x1000, mb_nextwtpadr = 0x3000000, mb_bfontpadr = 0x10002000, mb_bfontsz = 0x100,
     mb_e820padr = 0x10003000, mb_e820nr = 1, mb_e820sz = 20, mb_e820expadr = 0x2002000, mb_e820exnr = 1, mb_e820exsz = 80,
     mb_memznpadr = 0, mb_memznnr = 0, mb_memznsz = 0, mb_memmappadr = 0x2003000, mb_memmapnr = 5, mb_memmapsz = 200,
     mb_kpmapphymemsz = 0x400000000\<rparr>"

definition bt_msa :: msas where
  "bt_msa i = \<lparr>mf_olkty = MF_OLKTY_INIT, mf_mocty = (if i = 1 then MF_MOCTY_KRNL else MF_MOCTY_FREE), mf_marty = 0,
     mf_uindx = (if i = 1 then 1 else 0), paf_alloc = (i = 1),
     paf_padrs = (if i = 0 then 0x100 else if i = 1 then 0x2000 else if i = 2 then 0x2001 else if i = 3 then 0x2002 else 0x400000),
     md_odlink = ONull\<rparr>"

lemma bt_boot_msas: "boot_msas 5 bt_msa"
  by (simp add: boot_msas_def frames_ok_def bt_msa_def page_free_def)

lemma bt_free: "boot_free 5 bt_msa = {0, 2, 3, 4}"
  by (auto simp: bt_msa_def page_free_def)

lemma bt_init: "\<exists>mbsp' marea. init_memarea 4096 bt_mbsp = Some (mbsp', marea)"
  by (simp add: init_memarea_def init_memarea_core_def initchkadr_is_ok_def adrzone_is_ok_def bt_mbsp_def Let_def
      MEMAREA_MAX_def phyadr_to_viradr_def KRNL_MAP_PHYADDRESS_END_def)


end
