(* ===== verification/Bootmem_Props.thy ===== *)
theory Bootmem_Props
  imports Memarea_Init "HOL-Library.Multiset"
begin

text \<open>
  Properties of the boot code for physical memory: the bubble sort of the memory map, the
  page descriptors made from it, the pages marked as occupied, and the address checks.
\<close>

section \<open>Sorting the map\<close>

lemma swap_mset:
  assumes "s < m" and "d < m"
  shows "mset (map (phymmarge_swap s d a) [0..<m]) = mset (map a [0..<m])"
proof -
  let ?xs = "map a [0..<m]"
  have "map (phymmarge_swap s d a) [0..<m] = ?xs[s := ?xs ! d, d := ?xs ! s]"
    using assms by (intro nth_equalityI) (auto simp: phymmarge_swap_def Let_def nth_list_update)
  then show ?thesis using assms mset_swap [of d ?xs s] by (simp del: mset_map)
qed

lemma sort_inner_spec:
  assumes "i + n < m"
  shows "mset (map (sort_inner i n a) [0..<m]) = mset (map a [0..<m]) \<and>
    (\<forall>p. p < i \<or> i + n < p \<longrightarrow> sort_inner i n a p = a p) \<and>
    (\<forall>p. i \<le> p \<and> p \<le> i + n \<longrightarrow> pmr_saddr (sort_inner i n a p) \<le> pmr_saddr (sort_inner i n a (i + n))) \<and>
    pmr_saddr (a i) \<le> pmr_saddr (sort_inner i n a (i + n))"
  using assms
proof (induction n arbitrary: i a)
  case (Suc n)
  define b where "b = (if pmr_saddr (a i) > pmr_saddr (a (Suc i)) then phymmarge_swap i (Suc i) a else a)"
  define r where "r = sort_inner (Suc i) n b"
  have "Suc i + n < m" using Suc.prems by simp
  from Suc.IH [OF this, of b] have ih: "mset (map r [0..<m]) = mset (map b [0..<m])"
    "\<And>p. p < Suc i \<or> Suc i + n < p \<Longrightarrow> r p = b p"
    "\<And>p. Suc i \<le> p \<Longrightarrow> p \<le> Suc i + n \<Longrightarrow> pmr_saddr (r p) \<le> pmr_saddr (r (Suc i + n))"
    "pmr_saddr (b (Suc i)) \<le> pmr_saddr (r (Suc i + n))" unfolding r_def by blast+
  have b: "mset (map b [0..<m]) = mset (map a [0..<m])"
    unfolding b_def using Suc.prems swap_mset [of i m "Suc i" a] by (simp del: mset_map)
  have bi: "pmr_saddr (b i) \<le> pmr_saddr (b (Suc i))" "pmr_saddr (a i) \<le> pmr_saddr (b (Suc i))"
    "\<And>p. p \<noteq> i \<Longrightarrow> p \<noteq> Suc i \<Longrightarrow> b p = a p"
    unfolding b_def by (auto simp: phymmarge_swap_def Let_def)
  have r: "sort_inner i (Suc n) a = r" by (simp add: r_def b_def)
  have "r i = b i" using ih(2) [of i] by simp
  then have "pmr_saddr (r i) \<le> pmr_saddr (r (Suc i + n))" using order_trans [OF bi(1) ih(4)] by (simp only:)
  then have "pmr_saddr (r p) \<le> pmr_saddr (r (Suc i + n))" if "i \<le> p" "p \<le> Suc i + n" for p
    using ih(3) [of p] that by (cases "p = i") (simp_all del: add_Suc)
  moreover have "r p = a p" if "p < i \<or> Suc i + n < p" for p
  proof -
    have "r p = b p" using that by (intro ih(2)) auto
    also have "b p = a p" using that by (intro bi(3)) auto
    finally show ?thesis .
  qed
  ultimately show ?case unfolding r add_Suc_right add_Suc [symmetric]
    using ih(1) b order_trans [OF bi(2) ih(4)] by (simp only:) blast
qed (auto dest: le_antisym)

definition sorted_above :: "nat \<Rightarrow> nat \<Rightarrow> (nat \<Rightarrow> phymmarge_t) \<Rightarrow> bool" where
  "sorted_above k h a \<longleftrightarrow> (\<forall>q. h < q \<and> q \<le> k \<longrightarrow> (\<forall>p < q. pmr_saddr (a p) \<le> pmr_saddr (a q)))"

lemma sort_round:
  assumes s: "sorted_above k h a" and h: "0 < h" "h \<le> k"
  shows "sorted_above k (h - 1) (sort_inner 0 h a)"
  unfolding sorted_above_def
proof (intro allI impI)
  fix q p assume q: "h - 1 < q \<and> q \<le> k" and p: "p < q"
  note sp = sort_inner_spec [of 0 h "Suc h" a, simplified]
  let ?r = "sort_inner 0 h a"
  show "pmr_saddr (?r p) \<le> pmr_saddr (?r q)"
  proof (cases "q = h")
    case True
    then show ?thesis using sp p by simp
  next
    case False
    then have hq: "h < q" using q h by linarith
    then have rq: "?r q = a q" using sp by blast
    show ?thesis
    proof (cases "h < p")
      case True
      then show ?thesis using s hq q p rq sp by (simp add: sorted_above_def)
    next
      case False
      have "set (map ?r [0..<Suc h]) = set (map a [0..<Suc h])" using sp by (intro mset_eq_setD) simp
      then have "?r ` {0..<Suc h} = a ` {0..<Suc h}" by (simp only: set_map set_upt)
      moreover have "?r p \<in> ?r ` {0..<Suc h}" using False by simp
      ultimately have "?r p \<in> a ` {0..<Suc h}" by (simp only:)
      then obtain p' where p': "?r p = a p'" "p' \<le> h" by auto
      then show ?thesis using s hq q rq by (auto simp: sorted_above_def)
    qed
  qed
qed

lemma sort_outer_spec:
  assumes "k = j + n" and "sorted_above k (k - j) a" and "k < m"
  shows "sorted_above k 0 (sort_outer k j n a) \<and> mset (map (sort_outer k j n a) [0..<m]) = mset (map a [0..<m]) \<and>
    (\<forall>p > k. sort_outer k j n a p = a p)"
  using assms
proof (induction n arbitrary: j a)
  case (Suc n)
  have "sorted_above k (k - Suc j) (sort_inner 0 (k - j) a)"
    using sort_round [OF Suc.prems(2)] Suc.prems(1) by (simp add: diff_Suc)
  note ih = Suc.IH [OF _ this Suc.prems(3)]
  have "0 + (k - j) < m" using Suc.prems(3) by simp
  from ih sort_inner_spec [OF this, of a] show ?case using Suc.prems(1) by simp
qed simp

text \<open>C18. \<open>phymmarge_sort\<close>, a bubble sort, sorts the ranges of the memory map by start address: the result
  is a permutation of the first \<open>nr\<close> entries in ascending order, and nothing after them changes.\<close>

theorem phymmarge_sort_sorts:
  assumes "0 < nr"
  shows "sorted (map (\<lambda>i. pmr_saddr (phymmarge_sort nr argp i)) [0..<unat nr]) \<and>
    mset (map (phymmarge_sort nr argp) [0..<unat nr]) = mset (map argp [0..<unat nr]) \<and>
    (\<forall>i \<ge> unat nr. phymmarge_sort nr argp i = argp i)"
proof -
  let ?k = "unat nr - 1" and ?r = "phymmarge_sort nr argp"
  have nr: "0 < unat nr" using assms by (simp add: word_less_nat_alt)
  then have k: "unat (nr - 1) = ?k" by (simp add: unat_minus_one unat_gt_0)
  have r: "?r = sort_outer ?k 0 ?k argp" unfolding phymmarge_sort_def Let_def k ..
  have "sorted_above ?k (?k - 0) argp" by (auto simp: sorted_above_def)
  from sort_outer_spec [OF _ this, of ?k "unat nr"] nr
  have o: "sorted_above ?k 0 ?r" "mset (map ?r [0..<unat nr]) = mset (map argp [0..<unat nr])" "\<And>p. p > ?k \<Longrightarrow> ?r p = argp p"
    unfolding r by auto
  have "sorted (map (\<lambda>i. pmr_saddr (?r i)) [0..<unat nr])"
    using o(1) by (auto simp: sorted_iff_nth_mono_less sorted_above_def)
  moreover have "\<forall>i \<ge> unat nr. ?r i = argp i" using o(3) nr by auto
  ultimately show ?thesis using o(2) by blast
qed

definition sort_ex :: "nat \<Rightarrow> phymmarge_t" where
  "sort_ex i = phymmarge_t_init\<lparr>pmr_saddr := (if i = 0 then 0x5000 else if i = 1 then 0x9000 else 0x1000)\<rparr>"

theorem phymmarge_sort_sorts_witness:
  "sorted (map (\<lambda>i. pmr_saddr (phymmarge_sort 3 sort_ex i)) [0..<3]) \<and>
   map (\<lambda>i. pmr_saddr (phymmarge_sort 3 sort_ex i)) [0..<3] = [0x1000, 0x5000, 0x9000]"
proof -
  have "map (\<lambda>i. pmr_saddr (phymmarge_sort 3 sort_ex i)) [0..<3] = [0x1000, 0x5000, 0x9000]"
  proof -
    have "unat (3 - 1 :: u64) = Suc (Suc 0)" by simp
    then show ?thesis unfolding phymmarge_sort_def Let_def
      by (simp only:) (simp add: upt_rec phymmarge_swap_def sort_ex_def Let_def)
  qed
  then show ?thesis using phymmarge_sort_sorts [of 3 sort_ex] by simp
qed

section \<open>Page descriptors\<close>

text \<open>A range whose end is set as \<open>init_one_pmrge\<close> sets it and whose addresses have at most 52 bits.\<close>

definition range_ok :: "phymmarge_t \<Rightarrow> bool" where
  "range_ok p \<longleftrightarrow> 0 < unat (pmr_lsize p) \<and> unat (pmr_saddr p) + unat (pmr_lsize p) \<le> 2 ^ 52 \<and>
     pmr_end p = pmr_saddr p + pmr_lsize p - 1"

lemma msadsc_pages_spec:
  assumes "unat pend + 1 = unat s + l" and "unat pend + 4096 < 2 ^ 64"
  shows "msadsc_pages s pend i msa = Some (i + l div 4096,
    \<lambda>j. if i \<le> j \<and> j < i + l div 4096 then write_one_msadsc (s + of_nat (4096 * (j - i))) else msa j)"
  using assms
proof (induction l arbitrary: s i msa rule: less_induct)
  case (less l)
  have n: "unat (s + 4096) = unat s + 4096" if "s < pend"
    using that less.prems(2) by (simp add: unat_word_ariths word_less_nat_alt)
  consider "l \<le> 1" | "1 < l" "l < 4096" | "4096 \<le> l" by linarith
  then show ?case
  proof cases
    case 1
    then have "\<not> s < pend" using less.prems(1) by (simp add: word_less_nat_alt)
    then show ?thesis using 1 by (subst msadsc_pages.simps) (auto simp: fun_eq_iff)
  next
    case 2
    then have s: "s < pend" using less.prems(1) by (simp add: word_less_nat_alt)
    have "\<not> s + 4096 - 1 \<le> pend" "\<not> s + 4096 < pend"
      using n [OF s] 2 less.prems(1) by (simp_all add: word_le_nat_alt word_less_nat_alt unat_word_ariths)
    then show ?thesis using s 2 by (subst msadsc_pages.simps) (auto simp: msadsc_pages.simps [of "s + 4096"] fun_eq_iff)
  next
    case 3
    then have s: "s < pend" using less.prems(1) by (simp add: word_less_nat_alt)
    have le: "s + 4096 - 1 \<le> pend"
      using n [OF s] 3 less.prems(1,2) by (simp add: word_le_nat_alt unat_word_ariths)
    have d: "l div 4096 = Suc ((l - 4096) div 4096)" using 3 by (simp add: div_if)
    have "unat pend + 1 = unat (s + 4096) + (l - 4096)" using n [OF s] less.prems(1) 3 by simp
    from less.IH [OF _ this less.prems(2), of "Suc i" "msa(i := write_one_msadsc s)"] 3
    have "msadsc_pages s pend i msa = Some (Suc i + (l - 4096) div 4096,
        \<lambda>j. if Suc i \<le> j \<and> j < Suc i + (l - 4096) div 4096 then write_one_msadsc (s + 4096 + of_nat (4096 * (j - Suc i)))
          else (msa(i := write_one_msadsc s)) j)"
      using s le by (subst msadsc_pages.simps) (simp add: fun_upd_def)
    moreover have "s + 4096 + of_nat (4096 * (j - Suc i)) = s + of_nat (4096 * (j - i))" if "Suc i \<le> j" for j
      using that by (simp add: of_nat_diff algebra_simps)
    ultimately show ?thesis using d by (auto simp: fun_eq_iff)
  qed
qed

definition range_pages :: "phymmarge_t \<Rightarrow> msadsc_t list" where
  "range_pages p = (if pmr_type p = PMR_T_OSAPUSERRAM
     then map (\<lambda>j. write_one_msadsc (pmr_saddr p + of_nat (4096 * j))) [0..<unat (pmr_lsize p) div 4096] else [])"

definition put_list :: "nat \<Rightarrow> 'a list \<Rightarrow> (nat \<Rightarrow> 'a) \<Rightarrow> nat \<Rightarrow> 'a" where
  "put_list i xs f j = (if i \<le> j \<and> j < i + length xs then xs ! (j - i) else f j)"

lemma put_list_Nil [simp]: "put_list i [] f = f"
  by (auto simp: put_list_def fun_eq_iff)

lemma put_list_append: "put_list (i + length xs) ys (put_list i xs f) = put_list i (xs @ ys) f"
  by (auto simp: put_list_def fun_eq_iff nth_append)

lemma msadsc_range_spec:
  assumes "range_ok p"
  shows "msadsc_pages (pmr_saddr p) (pmr_end p) i msa =
    Some (i + unat (pmr_lsize p) div 4096, put_list i (map (\<lambda>j. write_one_msadsc (pmr_saddr p + of_nat (4096 * j))) [0..<unat (pmr_lsize p) div 4096]) msa)"
proof -
  have r: "unat (pmr_end p) = unat (pmr_saddr p) + unat (pmr_lsize p) - 1"
  proof -
    have "unat (pmr_saddr p + pmr_lsize p) = unat (pmr_saddr p) + unat (pmr_lsize p)"
      using assms by (simp add: range_ok_def unat_word_ariths)
    then show ?thesis using assms unat_minus_one [of "pmr_saddr p + pmr_lsize p"]
      by (metis add_is_0 less_numeral_extra(3) range_ok_def unsigned_0)
  qed
  then have "unat (pmr_end p) + 1 = unat (pmr_saddr p) + unat (pmr_lsize p)" "unat (pmr_end p) + 4096 < 2 ^ 64"
    using assms by (auto simp: range_ok_def)
  from msadsc_pages_spec [OF this, of i msa] show ?thesis
    by (auto simp: put_list_def fun_eq_iff)
qed

lemma msadsc_ranges_spec:
  assumes "\<forall>p \<in> set ps. pmr_type p = PMR_T_OSAPUSERRAM \<longrightarrow> range_ok p"
  shows "msadsc_ranges ps i msa = Some (i + length (concat (map range_pages ps)), put_list i (concat (map range_pages ps)) msa)"
  using assms
proof (induction ps arbitrary: i msa)
  case (Cons p ps)
  then show ?case
  proof (cases "pmr_type p = PMR_T_OSAPUSERRAM")
    case True
    then have "msadsc_pages (pmr_saddr p) (pmr_end p) i msa = Some (i + length (range_pages p), put_list i (range_pages p) msa)"
      using Cons.prems msadsc_range_spec [of p i msa] by (simp add: range_pages_def)
    then show ?thesis using True Cons by (simp add: put_list_append add.assoc)
  qed (simp add: range_pages_def)
qed simp

section \<open>Addresses\<close>

lemma phy_vir:
  "phyadr_to_viradr p = Some v \<longleftrightarrow> p < 0x400000000 \<and> v = p + 0xffff800000000000"
  by (auto simp: phyadr_to_viradr_def KRNL_MAP_PHYADDRESS_END_def KRNL_MAP_VIRTADDRESS_START_def not_le)

lemma vir_phy:
  "viradr_to_phyadr v = Some p \<longleftrightarrow> p \<le> 0x400000000 \<and> v = p + 0xffff800000000000"
proof -
  have "v \<ge> 0xffff800000000000 \<and> v \<le> 0xffff800400000000 \<and> v - 0xffff800000000000 = p \<longleftrightarrow>
    p \<le> 0x400000000 \<and> v = p + 0xffff800000000000"
  proof
    assume a: "v \<ge> 0xffff800000000000 \<and> v \<le> 0xffff800400000000 \<and> v - 0xffff800000000000 = p"
    then have "unat p = unat v - 0xffff800000000000" using unat_sub [of "0xffff800000000000" v] by simp
    then show "p \<le> 0x400000000 \<and> v = p + 0xffff800000000000" using a by (auto simp: word_le_nat_alt)
  next
    assume a: "p \<le> 0x400000000 \<and> v = p + 0xffff800000000000"
    then have "unat v = unat p + 0xffff800000000000" by (simp add: unat_word_ariths word_le_nat_alt)
    then show "v \<ge> 0xffff800000000000 \<and> v \<le> 0xffff800400000000 \<and> v - 0xffff800000000000 = p"
      using a by (simp add: word_le_nat_alt)
  qed
  then show ?thesis
    by (auto simp: viradr_to_phyadr_def KRNL_MAP_VIRTADDRESS_START_def KRNL_MAP_VIRTADDRESS_END_def not_less)
qed

text \<open>C21. The two address translations are inverse to each other, except at the end of the kernel's
  window, which \<open>viradr_to_phyadr\<close> accepts and \<open>phyadr_to_viradr\<close> refuses.\<close>

theorem phyadr_viradr_inverse:
  "phyadr_to_viradr p = Some v \<longleftrightarrow> viradr_to_phyadr v = Some p \<and> v \<noteq> KRNL_MAP_VIRTADDRESS_END"
  unfolding phy_vir vir_phy KRNL_MAP_VIRTADDRESS_END_def KRNL_MAP_VIRTADDRESS_START_def
  by (auto simp: order_less_le eq_diff_eq [symmetric])

section \<open>The array of page descriptors\<close>

definition map_pages :: "(nat \<Rightarrow> phymmarge_t) \<Rightarrow> machbstart_t \<Rightarrow> msadsc_t list" where
  "map_pages pmagep mbsp = concat (map (\<lambda>i. range_pages (pmagep i)) [0..<unat (mb_e820exnr mbsp)])"

lemma page_count:
  "sum_list (map (\<lambda>p. drop_bit 12 (pmr_lsize p)) (filter (\<lambda>p. pmr_type p = PMR_T_OSAPUSERRAM) ps)) =
    of_nat (length (concat (map range_pages ps)))"
proof (induction ps)
  case (Cons p ps)
  have "drop_bit 12 (pmr_lsize p) = of_nat (unat (pmr_lsize p) div 4096)"
  proof -
    have "unat (pmr_lsize p) div 4096 \<le> unat (pmr_lsize p)" "unat (pmr_lsize p) < 2 ^ 64"
      using unsigned_less [of "pmr_lsize p", where 'a = nat] by simp_all
    then have "unat (of_nat (unat (pmr_lsize p) div 4096) :: u64) = unat (pmr_lsize p) div 4096" by (simp add: unat_of_nat)
    then show ?thesis by (simp add: word_unat_eq_iff drop_bit_eq_div unat_div_distrib)
  qed
  then show ?case using Cons by (simp add: range_pages_def)
qed simp

lemma init_msadsc_spec:
  assumes v: "ret_msadsc_vadrandsz pmagep mbsp = Some (Some (vadr, n))"
    and r: "\<forall>i < unat (mb_e820exnr mbsp). pmr_type (pmagep i) = PMR_T_OSAPUSERRAM \<longrightarrow> range_ok (pmagep i)"
  shows "\<exists>mbsp'. init_msadsc pmagep mbsp raw = Some (mbsp', put_list 0 (map_pages pmagep mbsp) raw) \<and>
    n = of_nat (length (map_pages pmagep mbsp)) \<and> mb_memmapnr mbsp' = n \<and> mb_memmapsz mbsp' = n * sizeof_msadsc_t \<and>
    mb_memmappadr mbsp' = mb_nextwtpadr mbsp \<and> mb_e820expadr mbsp' = mb_e820expadr mbsp \<and> mb_e820exnr mbsp' = mb_e820exnr mbsp"
proof -
  let ?ps = "map pmagep [0..<unat (mb_e820exnr mbsp)]"
  have mp: "concat (map range_pages ?ps) = map_pages pmagep mbsp" by (simp add: map_pages_def o_def)
  from v obtain e where e: "phyadr_to_viradr (mb_e820expadr mbsp) = Some e" and a: "phyadr_to_viradr (mb_nextwtpadr mbsp) = Some vadr"
    and n: "n = sum_list (map (\<lambda>p. drop_bit 12 (pmr_lsize p)) (usable pmagep mbsp))"
    by (auto simp: ret_msadsc_vadrandsz_def Let_def split: if_splits bind_splits)
  have n': "n = of_nat (length (map_pages pmagep mbsp))"
    using n page_count [of ?ps] unfolding usable_def mp by simp
  have "msadsc_ranges ?ps 0 raw = Some (length (map_pages pmagep mbsp), put_list 0 (map_pages pmagep mbsp) raw)"
    using msadsc_ranges_spec [of ?ps 0 raw] r unfolding mp by auto
  then have c: "init_msadsc_core pmagep mbsp raw = Some (n, put_list 0 (map_pages pmagep mbsp) raw)"
    using e n' by (simp add: init_msadsc_core_def)
  have "viradr_to_phyadr vadr = Some (mb_nextwtpadr mbsp)" using a unfolding phy_vir vir_phy by auto
  then show ?thesis using v c n' by (simp add: init_msadsc_def)
qed

text \<open>C19. Whenever \<open>ret_msadsc_vadrandsz\<close> finds room for the array, \<open>init_msadsc\<close> returns: its page loops
  end, the two counts of pages agree, and the array holds one free descriptor per whole page of
  every usable range, in the order of the map, and nothing else is written.\<close>

theorem init_msadsc_describes_map:
  assumes "ret_msadsc_vadrandsz pmagep mbsp = Some (Some (vadr, n))"
    and "\<forall>i < unat (mb_e820exnr mbsp). pmr_type (pmagep i) = PMR_T_OSAPUSERRAM \<longrightarrow> range_ok (pmagep i)"
  shows "\<exists>mbsp'. init_msadsc pmagep mbsp raw = Some (mbsp', put_list 0 (map_pages pmagep mbsp) raw) \<and>
    mb_memmapnr mbsp' = of_nat (length (map_pages pmagep mbsp)) \<and> mb_memmappadr mbsp' = mb_nextwtpadr mbsp"
  using init_msadsc_spec [OF assms, of raw] by auto

definition bt_pm :: "nat \<Rightarrow> phymmarge_t" where
  "bt_pm i = phymmarge_t_init\<lparr>pmr_type := PMR_T_OSAPUSERRAM, pmr_saddr := 0x100000, pmr_lsize := 0x2800, pmr_end := 0x1027ff\<rparr>"

lemma bt_room: "ret_msadsc_vadrandsz bt_pm bt_mbsp = Some (Some (0xffff800003000000, 2))"
  by (simp add: ret_msadsc_vadrandsz_def bt_mbsp_def sizeof_phymmarge_t_def phyadr_to_viradr_def KRNL_MAP_PHYADDRESS_END_def
      usable_def bt_pm_def Let_def initchkadr_is_ok_def adrzone_is_ok_def sizeof_msadsc_t_def KRNL_MAP_VIRTADDRESS_START_def
      drop_bit_eq_div)

theorem init_msadsc_describes_map_witness:
  "\<exists>mbsp'. init_msadsc bt_pm bt_mbsp bt_msa =
     Some (mbsp', put_list 0 [write_one_msadsc 0x100000, write_one_msadsc 0x101000] bt_msa) \<and> mb_memmapnr mbsp' = 2"
proof -
  have l: "map_pages bt_pm bt_mbsp = [write_one_msadsc 0x100000, write_one_msadsc 0x101000]"
    by (simp add: map_pages_def bt_mbsp_def range_pages_def bt_pm_def upt_rec)
  have "range_ok (bt_pm i)" for i by (simp add: range_ok_def bt_pm_def)
  then show ?thesis using init_msadsc_describes_map [OF bt_room, of bt_msa] unfolding l by auto
qed

end
