(* ===== verification/Bootmem_Occupy.thy ===== *)
theory Bootmem_Occupy
  imports Bootmem_Props
begin

text \<open>
  The pages the kernel occupies at boot, \<open>search_segment_occupymsadsc\<close> and its callers, and the
  state of the descriptors they leave for the memory areas.
\<close>

section \<open>One segment\<close>

definition free_at :: "msadsc_t \<Rightarrow> u64 \<Rightarrow> bool" where
  "free_at m a \<longleftrightarrow> phyadr m = a \<and> mf_mocty m = MF_MOCTY_FREE \<and> mf_uindx m = 0 \<and> \<not> paf_alloc m"

definition mark_used :: "nat \<Rightarrow> nat \<Rightarrow> msas \<Rightarrow> msas" where
  "mark_used f k msa = (\<lambda>i. if f \<le> i \<and> i < f + k
     then (msa i)\<lparr>mf_mocty := MF_MOCTY_KRNL, mf_uindx := 1, paf_alloc := True\<rparr> else msa i)"

text \<open>The pages that start in \<open>[s, e)\<close>, counted from \<open>s\<close>.\<close>

definition seg_pages :: "u64 \<Rightarrow> u64 \<Rightarrow> nat" where
  "seg_pages s e = (unat e - unat s + 4095) div 4096"

lemma mark_used_0 [simp]: "mark_used f 0 msa = msa"
  by (auto simp: mark_used_def fun_eq_iff)

lemma mark_used_Suc:
  "mark_used (Suc f) k (msa(f := (msa f)\<lparr>mf_mocty := MF_MOCTY_KRNL, mf_uindx := 1, paf_alloc := True\<rparr>)) = mark_used f (Suc k) msa"
  by (auto simp: mark_used_def fun_eq_iff)

lemma seg_pages_step:
  assumes "s < e" and "unat e + 4096 \<le> 2 ^ 64"
  shows "seg_pages s e = Suc (seg_pages (s + 4096) e)"
proof -
  have u: "unat (s + 4096) = unat s + 4096" using assms by (simp add: unat_word_ariths word_less_nat_alt)
  have lt: "unat s < unat e" using assms(1) by (simp add: word_less_nat_alt)
  define d where "d = unat e - unat s"
  have d: "0 < d" "unat e - unat (s + 4096) = d - 4096" using lt by (simp_all add: d_def u)
  have "(d + 4095) div 4096 = Suc ((d - 4096 + 4095) div 4096)"
  proof (cases "4096 \<le> d")
    case True
    then obtain c where c: "d = c + 4096" by (metis add.commute le_Suc_ex)
    show ?thesis unfolding c by simp
  next
    case False
    then have "(d + 4095) div 4096 = 1" using d(1) by (intro div_nat_eqI) simp_all
    then show ?thesis using False by simp
  qed
  then show ?thesis unfolding seg_pages_def d(2) d_def [symmetric] .
qed

lemma seg_pages_end: "\<not> s < e \<Longrightarrow> seg_pages s e = 0"
  by (simp add: seg_pages_def word_less_nat_alt)

lemma occupy_pages_spec:
  assumes "unat e + 4096 \<le> 2 ^ 64" and "unat cnt + seg_pages s e < 2 ^ 64"
  shows "if \<forall>j < seg_pages s e. free_at (msa (f + unat cnt + j)) (s + of_nat (4096 * j))
    then occupy_pages f s e cnt msa = Some (True, cnt + of_nat (seg_pages s e), mark_used (f + unat cnt) (seg_pages s e) msa)
    else \<exists>k < seg_pages s e. occupy_pages f s e cnt msa = Some (False, 0, mark_used (f + unat cnt) k msa)"
  using assms
proof (induction "seg_pages s e" arbitrary: s cnt msa)
  case 0
  then have "\<not> s < e" using seg_pages_step [of s e] by fastforce
  then have "occupy_pages f s e cnt msa = Some (True, cnt, msa)" by (subst occupy_pages.simps) simp
  then show ?case using 0 by simp
next
  case (Suc n)
  then have lt: "s < e" using seg_pages_end [of s e] by fastforce
  have n: "seg_pages (s + 4096) e = n" "seg_pages s e = Suc n" using seg_pages_step [OF lt Suc.prems(1)] Suc.hyps(2) by simp_all
  have c: "unat (cnt + 1) = unat cnt + 1" using Suc.prems(2) n by (simp add: unat_word_ariths)
  let ?i = "f + unat cnt" let ?m = "msa ?i"
  let ?msa = "msa(?i := ?m\<lparr>mf_mocty := MF_MOCTY_KRNL, mf_uindx := 1, paf_alloc := True\<rparr>)"
  show ?case
  proof (cases "free_at ?m s")
    case False
    then have "occupy_pages f s e cnt msa = Some (False, 0, msa)" using lt
      by (subst occupy_pages.simps) (auto simp: Let_def free_at_def phyadr_def)
    moreover have "\<not> (\<forall>j < seg_pages s e. free_at (msa (?i + j)) (s + of_nat (4096 * j)))" using False n by (auto intro: exI [of _ 0])
    ultimately show ?thesis using n by (auto intro: exI [of _ 0])
  next
    case True
    have step: "occupy_pages f s e cnt msa = occupy_pages f (s + 4096) e (cnt + 1) ?msa"
      using lt True by (subst occupy_pages.simps) (simp add: Let_def free_at_def phyadr_def PAGESIZE_def)
    have "unat (cnt + 1) + seg_pages (s + 4096) e < 2 ^ 64" using Suc.prems(2) n c by simp
    note ih = Suc.hyps(1) [OF n(1) [symmetric] Suc.prems(1) this, of ?msa]
    have idx: "f + unat (cnt + 1) = Suc ?i" using c by simp
    have all: "(\<forall>j < Suc n. free_at (msa (?i + j)) (s + of_nat (4096 * j))) \<longleftrightarrow>
        (\<forall>j < n. free_at (?msa (Suc ?i + j)) (s + 4096 + of_nat (4096 * j)))"
    proof -
      have "(\<forall>j < Suc n. free_at (msa (?i + j)) (s + of_nat (4096 * j))) \<longleftrightarrow>
          (\<forall>j < n. free_at (msa (?i + Suc j)) (s + of_nat (4096 * Suc j)))"
        using True by (simp add: All_less_Suc2)
      then show ?thesis by (simp add: add.assoc)
    qed
    show ?thesis
    proof (cases "\<forall>j < Suc n. free_at (msa (?i + j)) (s + of_nat (4096 * j))")
      case True
      then show ?thesis using ih all n step unfolding idx by (simp add: mark_used_Suc add.assoc)
    next
      case False
      then obtain k where "k < n" "occupy_pages f (s + 4096) e (cnt + 1) ?msa = Some (False, 0, mark_used (Suc ?i) k ?msa)"
        using ih all n unfolding idx by (auto split: if_splits)
      then show ?thesis using False n step by (auto simp: mark_used_Suc intro!: exI [of _ "Suc k"])
    qed
  qed
qed

lemma and_fff: "unat ((w :: u64) AND 0xfff) = unat w mod 4096"
proof -
  have "(0xfff :: u64) = mask 12" by (simp add: mask_eq_exp_minus_1)
  then have "w AND 0xfff = take_bit 12 w" by (simp add: take_bit_eq_mask)
  then show ?thesis by (simp add: take_bit_eq_mod unat_mod_distrib)
qed

lemma seg_check:
  assumes "s \<le> e"
  shows "(if (e - s) AND 0xfff \<noteq> 0 then drop_bit 12 (e - s) + 1 else drop_bit 12 (e - s)) = of_nat (seg_pages s e)"
proof -
  define d where "d = unat e - unat s"
  have u: "unat (e - s) = d" using assms unat_sub [of s e] by (simp add: d_def)
  have z: "(e - s) AND 0xfff = 0 \<longleftrightarrow> d mod 4096 = 0"
    using and_fff [of "e - s"] u by (metis unat_eq_zero)
  have q: "drop_bit 12 (e - s) = of_nat (d div 4096)"
  proof -
    have "d < 2 ^ 64" using u unsigned_less [of "e - s", where 'a = nat] by simp
    then have "d div 4096 < 2 ^ 64" by linarith
    then have "unat (of_nat (d div 4096) :: u64) = d div 4096" by (simp add: unat_of_nat)
    then show ?thesis using u by (simp add: word_unat_eq_iff drop_bit_eq_div unat_div_distrib)
  qed
  have "(d + 4095) div 4096 = (if d mod 4096 = 0 then d div 4096 else d div 4096 + 1)"
  proof -
    define q r where qr: "q = d div 4096" "r = d mod 4096"
    have d: "d = r + q * 4096" "r < 4096" by (simp_all add: qr)
    have "(d + 4095) div 4096 = q + (r + 4095) div 4096" unfolding d(1) by (simp add: add.commute add.left_commute)
    moreover have "(r + 4095) div 4096 = (if r = 0 then 0 else 1)" using d(2) by (auto intro!: div_nat_eqI)
    ultimately show ?thesis unfolding qr by simp
  qed
  then show ?thesis unfolding seg_pages_def d_def [symmetric] using z q by auto
qed

lemma seg_pages_bound: "seg_pages s e < 2 ^ 63"
  using unsigned_less [of e, where 'a = nat] by (simp add: seg_pages_def)

lemma search_segment_spec:
  assumes "s < e" and "unat e + 4096 \<le> 2 ^ 64"
  shows "case find (\<lambda>i. phyadr (msa i) = s) [0..<unat nr] of
      None \<Rightarrow> search_segment_occupymsadsc nr s e msa = Some (0, msa)
    | Some f \<Rightarrow> if \<forall>j < seg_pages s e. free_at (msa (f + j)) (s + of_nat (4096 * j))
        then search_segment_occupymsadsc nr s e msa = Some (of_nat (seg_pages s e), mark_used f (seg_pages s e) msa)
        else \<exists>k < seg_pages s e. search_segment_occupymsadsc nr s e msa = Some (0, mark_used f k msa)"
proof (cases "find (\<lambda>i. phyadr (msa i) = s) [0..<unat nr]")
  case None
  then show ?thesis by (simp add: search_segment_occupymsadsc_def phyadr_def)
next
  case (Some f)
  then have f: "find (\<lambda>mnr. push_bit 12 (paf_padrs (msa mnr)) = s) [0..<unat nr] = Some f" by (simp add: phyadr_def)
  let ?R = "seg_pages s e"
  have "unat 0 + ?R < 2 ^ 64" using seg_pages_bound [of s e] by simp
  then have oc: "if \<forall>j < ?R. free_at (msa (f + j)) (s + of_nat (4096 * j))
      then occupy_pages f s e 0 msa = Some (True, of_nat ?R, mark_used f ?R msa)
      else \<exists>k < ?R. occupy_pages f s e 0 msa = Some (False, 0, mark_used f k msa)"
    using occupy_pages_spec [OF assms(2), of 0 s msa f] by (simp only: unsigned_0 add_0 add_0_right simp_thms True_implies_equals)
  have le: "s \<le> e" using assms(1) by simp
  show ?thesis
  proof (cases "\<forall>j < ?R. free_at (msa (f + j)) (s + of_nat (4096 * j))")
    case True
    then have "occupy_pages f s e 0 msa = Some (True, of_nat ?R, mark_used f ?R msa)" using oc by simp
    then have "search_segment_occupymsadsc nr s e msa = Some (of_nat ?R, mark_used f ?R msa)"
      using f seg_check [OF le] by (cases "(e - s) AND 0xfff = 0") (simp_all add: search_segment_occupymsadsc_def Let_def)
    then show ?thesis using Some True by simp
  next
    case False
    then obtain k where "k < ?R" "occupy_pages f s e 0 msa = Some (False, 0, mark_used f k msa)" using oc unfolding if_not_P [OF False] by blast
    then show ?thesis using Some f False by (auto simp: search_segment_occupymsadsc_def Let_def)
  qed
qed

text \<open>C20. \<open>search_segment_occupymsadsc\<close> returns for every segment below the last page of the address space.
  If the page that starts the segment and all pages up to its end are described one after
  the other and free, exactly these descriptors are marked as used by the kernel and their
  number is returned; otherwise 0 is returned.\<close>

theorem segment_marked_exactly:
  assumes "s < e" and "unat e + 4096 \<le> 2 ^ 64"
  shows "case find (\<lambda>i. phyadr (msa i) = s) [0..<unat nr] of
      None \<Rightarrow> search_segment_occupymsadsc nr s e msa = Some (0, msa)
    | Some f \<Rightarrow> if \<forall>j < seg_pages s e. free_at (msa (f + j)) (s + of_nat (4096 * j))
        then search_segment_occupymsadsc nr s e msa = Some (of_nat (seg_pages s e), mark_used f (seg_pages s e) msa)
        else \<exists>k < seg_pages s e. search_segment_occupymsadsc nr s e msa = Some (0, mark_used f k msa)"
  by (rule search_segment_spec [OF assms])

theorem segment_marked_exactly_witness:
  "search_segment_occupymsadsc 5 0x2001000 0x2002800 bt_msa = Some (2, mark_used 2 2 bt_msa)"
proof -
  have "find (\<lambda>i. phyadr (bt_msa i) = 0x2001000) [0..<unat (5 :: u64)] = Some 2"
    by (simp add: upt_rec phyadr_def bt_msa_def push_bit_eq_mult)
  moreover have "seg_pages 0x2001000 0x2002800 = 2" by (simp add: seg_pages_def)
  moreover have "\<forall>j < 2. free_at (bt_msa (2 + j)) (0x2001000 + of_nat (4096 * j))"
    by (auto simp: less_Suc_eq numeral_2_eq_2 free_at_def phyadr_def bt_msa_def push_bit_eq_mult)
  ultimately show ?thesis using segment_marked_exactly [of "0x2001000" "0x2002800" 5 bt_msa] by simp
qed

section \<open>The descriptors before the areas are set up\<close>

lemma boot_msas_upd:
  assumes "boot_msas N msa" and "mf_uindx (msa i) = 0"
  shows "boot_msas N (msa(i := (msa i)\<lparr>mf_mocty := MF_MOCTY_KRNL, mf_uindx := mf_uindx (msa i) + 1, paf_alloc := True\<rparr>))"
  using assms by (simp add: boot_msas_def frames_ok_def)

lemma occupy_keeps:
  assumes "occupy_pages f s e c msa = Some (ok, n, msa')" and "boot_msas N msa"
  shows "boot_msas N msa'"
proof -
  have "boot_msas N msa \<longrightarrow> boot_msas N (snd (snd r))" if "occupy_pages f s e c msa = Some r" for r
  proof (rule occupy_pages.raw_induct [OF _ that, of "\<lambda>f s e c msa r. boot_msas N msa \<longrightarrow> boot_msas N (snd (snd r))"])
    fix g :: "nat \<Rightarrow> u64 \<Rightarrow> u64 \<Rightarrow> u64 \<Rightarrow> msas \<Rightarrow> (bool \<times> u64 \<times> msas) option"
    fix f s e msa r and c :: u64
    assume ih: "\<And>f s e c msa r. g f s e c msa = Some r \<Longrightarrow> boot_msas N msa \<longrightarrow> boot_msas N (snd (snd r))"
    let ?i = "f + unat c"
    assume r: "(if s < e then let i = ?i; m = msa i in
        if push_bit 12 (paf_padrs m) \<noteq> s then Some (False, 0, msa)
        else if mf_mocty m \<noteq> MF_MOCTY_FREE \<or> mf_uindx m \<noteq> 0 \<or> paf_alloc m then Some (False, 0, msa)
        else g f (s + PAGESIZE) e (c + 1)
          (msa(i := m\<lparr>mf_mocty := MF_MOCTY_KRNL, mf_uindx := mf_uindx m + 1, paf_alloc := True\<rparr>))
      else Some (True, c, msa)) = Some r"
    show "boot_msas N msa \<longrightarrow> boot_msas N (snd (snd r))"
    proof
      assume b: "boot_msas N msa"
      show "boot_msas N (snd (snd r))"
        using r b ih boot_msas_upd [OF b, of ?i] by (auto simp: Let_def split: if_splits)
    qed
  qed
  then show ?thesis using assms by fastforce
qed

lemma segment_keeps:
  assumes "search_segment_occupymsadsc nr s e msa = Some (n, msa')" and "boot_msas N msa"
  shows "boot_msas N msa'"
  using assms by (auto simp: search_segment_occupymsadsc_def Let_def split: option.splits bind_splits if_splits dest: occupy_keeps)

lemma occupied_keeps:
  assumes "init_search_krloccupymm mbsp msa = Some msa'" and "boot_msas N msa"
  shows "boot_msas N msa'"
  using assms unfolding init_search_krloccupymm_def search_krloccupymsadsc_core_def
  by (auto simp: Let_def split: bind_splits if_splits) (meson segment_keeps)

lemma described_boot_msas:
  assumes r: "\<forall>i < unat (mb_e820exnr mbsp). pmr_type (pmagep i) = PMR_T_OSAPUSERRAM \<longrightarrow> range_ok (pmagep i)"
    and l: "0 < length (map_pages pmagep mbsp)" "length (map_pages pmagep mbsp) < 2 ^ 51"
    and raw: "frames_ok raw" "\<forall>i. mf_marty (raw i) = 0"
  shows "boot_msas (length (map_pages pmagep mbsp)) (put_list 0 (map_pages pmagep mbsp) raw)"
proof -
  let ?L = "map_pages pmagep mbsp"
  have pg: "page_free 0 m \<and> unat (paf_padrs m) < 2 ^ 40" if m: "m \<in> set ?L" for m
  proof -
    from m obtain i j where i: "i < unat (mb_e820exnr mbsp)" "pmr_type (pmagep i) = PMR_T_OSAPUSERRAM"
      "j < unat (pmr_lsize (pmagep i)) div 4096" and e: "m = write_one_msadsc (pmr_saddr (pmagep i) + of_nat (4096 * j))"
      by (auto simp: map_pages_def range_pages_def split: if_splits)
    have "range_ok (pmagep i)" using r i(1,2) by blast
    moreover have "4096 * j < unat (pmr_lsize (pmagep i))" using i(3) by linarith
    ultimately have "unat (pmr_saddr (pmagep i) + of_nat (4096 * j)) < 2 ^ 52"
      by (simp add: range_ok_def unat_word_ariths unat_of_nat)
    then have "unat (drop_bit 12 (pmr_saddr (pmagep i) + of_nat (4096 * j))) < 2 ^ 40"
      by (simp add: drop_bit_eq_div unat_div_distrib less_mult_imp_div_less)
    then show ?thesis by (simp add: e write_one_msadsc_def msadsc_t_init_def page_free_def)
  qed
  have at: "put_list 0 ?L raw i = (if i < length ?L then ?L ! i else raw i)" for i by (simp add: put_list_def)
  have "page_free 0 (?L ! i) \<and> unat (paf_padrs (?L ! i)) < 2 ^ 40" if "i < length ?L" for i by (rule pg [OF nth_mem [OF that]])
  then show ?thesis using l raw unfolding boot_msas_def frames_ok_def at by (simp add: page_free_def)
qed

lemma merlove_nextwt [simp]:
  "init_merlove_mem (mbsp\<lparr>mb_nextwtpadr := w\<rparr>) marea msa = init_merlove_mem mbsp marea msa"
  "init_memmgrob (mbsp\<lparr>mb_nextwtpadr := w\<rparr>) marea msa = init_memmgrob mbsp marea msa"
proof -
  have e: "mem_check_mareadata (mbsp\<lparr>mb_nextwtpadr := w\<rparr>) = mem_check_mareadata mbsp"
    "merlove_mem_core (mbsp\<lparr>mb_nextwtpadr := w\<rparr>) = merlove_mem_core mbsp"
    by (simp_all add: fun_eq_iff mem_check_mareadata_def merlove_mem_core_def)
  show "init_merlove_mem (mbsp\<lparr>mb_nextwtpadr := w\<rparr>) marea msa = init_merlove_mem mbsp marea msa"
    unfolding init_merlove_mem_def e ..
  show "init_memmgrob (mbsp\<lparr>mb_nextwtpadr := w\<rparr>) marea msa = init_memmgrob mbsp marea msa" by (simp add: init_memmgrob_def)
qed


text \<open>A machine with 16 pages of memory from address 0.\<close>

definition tiny_mbsp :: machbstart_t where
  "tiny_mbsp = \<lparr>mb_krlinitstack = 0x1800, mb_krlitstacksz = 0x800, mb_imgpadr = 0x8000, mb_imgsz = 0x1000,
     mb_krlimgpadr = 0x2000, mb_krlsz = 0x800, mb_nextwtpadr = 0x4000, mb_bfontpadr = 0xa000, mb_bfontsz = 0x100,
     mb_e820padr = 0xb000, mb_e820nr = 1, mb_e820sz = 20, mb_e820expadr = 0x3000, mb_e820exnr = 1, mb_e820exsz = 80,
     mb_memznpadr = 0, mb_memznnr = 0, mb_memznsz = 0, mb_memmappadr = 0, mb_memmapnr = 0, mb_memmapsz = 0,
     mb_kpmapphymemsz = 0x400000000\<rparr>"

definition tiny_pm :: "nat \<Rightarrow> phymmarge_t" where
  "tiny_pm i = phymmarge_t_init\<lparr>pmr_type := PMR_T_OSAPUSERRAM, pmr_saddr := 0, pmr_lsize := 0x10000, pmr_end := 0xffff\<rparr>"

definition tiny_raw :: msas where "tiny_raw i = msadsc_t_init"

definition tiny_ok :: "(nat \<Rightarrow> bool) \<Rightarrow> msas \<Rightarrow> bool" where
  "tiny_ok F msa \<longleftrightarrow> (\<forall>i < 16. phyadr (msa i) = of_nat (4096 * i)) \<and> (\<forall>i. F i \<longrightarrow> i < 16 \<and> free_at (msa i) (of_nat (4096 * i)))"

lemma tiny_segment:
  assumes ok: "tiny_ok F msa" and f: "f < 16" and s: "s = of_nat (4096 * f)" "s < e" "unat e + 4096 \<le> 2 ^ 64"
    and k: "seg_pages s e = k" and free: "\<And>j. j < k \<Longrightarrow> F (f + j)"
  shows "search_segment_occupymsadsc 16 s e msa = Some (of_nat k, mark_used f k msa)" "tiny_ok (\<lambda>i. F i \<and> \<not> (f \<le> i \<and> i < f + k)) (mark_used f k msa)"
proof -
  have "find (\<lambda>i. phyadr (msa i) = s) [0..<16] = Some f"
  proof -
    have "phyadr (msa i) = s \<longleftrightarrow> i = f" if "i < 16" for i
    proof -
      have "unat (of_nat (4096 * i) :: u64) = 4096 * i" "unat (of_nat (4096 * f) :: u64) = 4096 * f" using that f by (simp_all add: unat_of_nat del: of_nat_mult)
      moreover have "phyadr (msa i) = of_nat (4096 * i)" using ok that by (simp add: tiny_ok_def)
      ultimately show ?thesis unfolding s(1) by (metis mult_left_cancel zero_neq_numeral)
    qed
    then show ?thesis using f by (simp add: upt_rec) presburger
  qed
  moreover have "\<forall>j < seg_pages s e. free_at (msa (f + j)) (s + of_nat (4096 * j))"
  proof (intro allI impI)
    fix j assume "j < seg_pages s e"
    then have "F (f + j)" using free k by blast
    then have "free_at (msa (f + j)) (of_nat (4096 * (f + j)))" using ok unfolding tiny_ok_def by blast
    then show "free_at (msa (f + j)) (s + of_nat (4096 * j))" unfolding s(1) by (simp add: algebra_simps)
  qed
  ultimately show "search_segment_occupymsadsc 16 s e msa = Some (of_nat k, mark_used f k msa)"
    using search_segment_spec [OF s(2,3), where nr = 16 and msa = msa] k by simp
  show "tiny_ok (\<lambda>i. F i \<and> \<not> (f \<le> i \<and> i < f + k)) (mark_used f k msa)"
    using ok by (auto simp: tiny_ok_def mark_used_def phyadr_def)
qed

lemma tiny_step:
  assumes "tiny_ok F msa" and "f < 16" and "s = of_nat (4096 * f)" "s < e" "unat e + 4096 \<le> 2 ^ 64"
    and "seg_pages s e = k" and "\<And>j. j < k \<Longrightarrow> F (f + j)" and "\<And>i. G i \<Longrightarrow> F i \<and> \<not> (f \<le> i \<and> i < f + k)"
  shows "\<exists>msa'. search_segment_occupymsadsc 16 s e msa = Some (of_nat k, msa') \<and> tiny_ok G msa'"
  using tiny_segment [OF assms(1-7)] assms(8) unfolding tiny_ok_def by blast

lemma page_nr:
  assumes "i < 16"
  shows "of_nat (4096 * i) div 4096 = (of_nat i :: u64)"
proof -
  have u: "unat (of_nat (4096 * i) :: u64) = 4096 * i" "unat (of_nat i :: u64) = i"
    using assms by (simp_all add: unat_of_nat del: of_nat_mult)
  have "unat (of_nat (4096 * i) div 4096 :: u64) = i" unfolding unat_div_distrib u by simp
  then show ?thesis unfolding word_unat_eq_iff u .
qed

lemma tiny_room: "ret_msadsc_vadrandsz tiny_pm tiny_mbsp = Some (Some (0xffff800000004000, 16))"
  by (simp add: ret_msadsc_vadrandsz_def tiny_mbsp_def sizeof_phymmarge_t_def phyadr_to_viradr_def KRNL_MAP_PHYADDRESS_END_def
      usable_def tiny_pm_def Let_def initchkadr_is_ok_def adrzone_is_ok_def sizeof_msadsc_t_def KRNL_MAP_VIRTADDRESS_START_def
      drop_bit_eq_div)

lemma tiny_init:
  "\<exists>mbsp1 mbsp2 marea msa2. init_msadsc tiny_pm tiny_mbsp tiny_raw = Some (mbsp1, put_list 0 (map_pages tiny_pm tiny_mbsp) tiny_raw) \<and>
     init_memarea 0x100 mbsp1 = Some (mbsp2, marea) \<and> mb_nextwtpadr mbsp1 \<noteq> 0 \<and>
     init_search_krloccupymm (mbsp2\<lparr>mb_nextwtpadr := 0x6000\<rparr>) (put_list 0 (map_pages tiny_pm tiny_mbsp) tiny_raw) = Some msa2"
proof -
  let ?m0 = "put_list 0 (map_pages tiny_pm tiny_mbsp) tiny_raw"
  let ?mbsp1 = "tiny_mbsp\<lparr>mb_memmappadr := 0x4000, mb_memmapnr := 16, mb_memmapsz := 640, mb_nextwtpadr := 0x5000\<rparr>"
  let ?mbsp2 = "?mbsp1\<lparr>mb_memznpadr := 0x5000, mb_memznnr := 4, mb_memznsz := 0x400, mb_nextwtpadr := 0x6000\<rparr>"
  have L: "map_pages tiny_pm tiny_mbsp = map (\<lambda>j. write_one_msadsc (of_nat (4096 * j))) [0..<16]"
    by (simp add: map_pages_def tiny_mbsp_def range_pages_def tiny_pm_def)
  note room = tiny_room
  have "range_ok (tiny_pm 0)" by (simp add: tiny_pm_def range_ok_def)
  then have "msadsc_ranges [tiny_pm 0] 0 tiny_raw = Some (16, ?m0)"
    using msadsc_ranges_spec [of "[tiny_pm 0]" 0 tiny_raw] unfolding L
    by (simp add: tiny_pm_def range_pages_def del: msadsc_ranges.simps)
  then have core: "init_msadsc_core tiny_pm tiny_mbsp tiny_raw = Some (16, ?m0)"
    by (simp add: init_msadsc_core_def tiny_mbsp_def phyadr_to_viradr_def KRNL_MAP_PHYADDRESS_END_def del: msadsc_ranges.simps)
  have a: "init_msadsc tiny_pm tiny_mbsp tiny_raw = Some (?mbsp1, ?m0)"
    using room core by (simp add: init_msadsc_def vir_phy viradr_to_phyadr_def KRNL_MAP_VIRTADDRESS_START_def
        KRNL_MAP_VIRTADDRESS_END_def sizeof_msadsc_t_def PAGE_ALIGN_def ALIGN_def PAGESIZE_def Let_def tiny_mbsp_def)
  have b: "init_memarea 0x100 ?mbsp1 = Some (?mbsp2, boot_area)"
    by (simp add: init_memarea_def init_memarea_core_def initchkadr_is_ok_def adrzone_is_ok_def tiny_mbsp_def Let_def
        MEMAREA_MAX_def phyadr_to_viradr_def KRNL_MAP_PHYADDRESS_END_def PAGE_ALIGN_def ALIGN_def PAGESIZE_def boot_area_def)
  have t0: "tiny_ok (\<lambda>i. i < 16) ?m0"
  proof -
    have "?m0 i = write_one_msadsc (of_nat (4096 * i))" if "i < 16" for i using that L by (simp add: put_list_def)
    moreover have "phyadr (write_one_msadsc (of_nat (4096 * i))) = of_nat (4096 * i)" if "i < 16" for i
    proof -
      have "of_nat (4096 * i) div 4096 = (of_nat i :: u64)" using page_nr that by simp
      then show ?thesis by (simp add: phyadr_def write_one_msadsc_def push_bit_eq_mult drop_bit_eq_div)
    qed
    ultimately show ?thesis by (simp add: tiny_ok_def free_at_def write_one_msadsc_def msadsc_t_init_def)
  qed
  obtain m1 where m1: "search_segment_occupymsadsc 16 0 0x1000 ?m0 = Some (1, m1)" "tiny_ok (\<lambda>i. 1 \<le> i \<and> i < 16) m1"
    using tiny_step [OF t0, of 0 "0" "0x1000" 1 "\<lambda>i. 1 \<le> i \<and> i < 16"] by (auto simp: seg_pages_def)
  obtain m2 where m2: "search_segment_occupymsadsc 16 0x1000 0x1800 m1 = Some (1, m2)" "tiny_ok (\<lambda>i. 2 \<le> i \<and> i < 16) m2"
    using tiny_step [OF m1(2), of 1 "0x1000" "0x1800" 1 "\<lambda>i. 2 \<le> i \<and> i < 16"] by (auto simp: seg_pages_def)
  obtain m3 where m3: "search_segment_occupymsadsc 16 0x2000 0x6000 m2 = Some (4, m3)" "tiny_ok (\<lambda>i. 6 \<le> i \<and> i < 16) m3"
    using tiny_step [OF m2(2), of 2 "0x2000" "0x6000" 4 "\<lambda>i. 6 \<le> i \<and> i < 16"] by (auto simp: seg_pages_def)
  obtain m4 where m4: "search_segment_occupymsadsc 16 0x8000 0x9000 m3 = Some (1, m4)"
    using tiny_step [OF m3(2), of 8 "0x8000" "0x9000" 1 "\<lambda>i. 9 \<le> i \<and> i < 16"] by (auto simp: seg_pages_def)
  have "init_search_krloccupymm (?mbsp2\<lparr>mb_nextwtpadr := 0x6000\<rparr>) ?m0 = Some m4"
    using m1(1) m2(1) m3(1) m4 by (simp add: init_search_krloccupymm_def search_krloccupymsadsc_core_def tiny_mbsp_def
        phyadr_to_viradr_def KRNL_MAP_PHYADDRESS_END_def Let_def)
  moreover have "mb_nextwtpadr ?mbsp1 \<noteq> 0" by simp
  ultimately show ?thesis using a b by blast
qed


section \<open>Free places\<close>

text \<open>The regions that \<open>initchkadr_is_ok\<close> compares with, as start and length.\<close>

definition boot_regions :: "machbstart_t \<Rightarrow> (u64 \<times> u64) list" where
  "boot_regions mbsp = [(mb_krlinitstack mbsp - mb_krlitstacksz mbsp, mb_krlitstacksz mbsp), (mb_imgpadr mbsp, mb_imgsz mbsp),
     (mb_krlimgpadr mbsp, mb_krlsz mbsp), (mb_bfontpadr mbsp, mb_bfontsz mbsp), (mb_e820padr mbsp, mb_e820sz mbsp),
     (mb_memznpadr mbsp, mb_memznsz mbsp), (mb_memmappadr mbsp, mb_memmapsz mbsp), (mb_e820expadr mbsp, mb_e820exsz mbsp)]"

definition addrs :: "u64 \<Rightarrow> u64 \<Rightarrow> nat set" where
  "addrs a n = {unat a..<unat a + unat n}"

lemma adrzone_apart:
  assumes "adrzone_is_ok s l a n = 0" and "unat s + unat l < 2 ^ 64" and "unat a + unat n < 2 ^ 64"
  shows "addrs s l \<inter> addrs a n = {}"
proof -
  have u: "unat (s + l) = unat s + unat l" "unat (a + n) = unat a + unat n"
    using assms(2,3) by (simp_all add: unat_word_ariths)
  have "\<not> (unat s \<le> unat a \<and> unat a \<le> unat s + unat l)" "\<not> (unat a \<le> unat s \<and> unat s \<le> unat a + unat n)"
    using assms(1) by (auto simp: adrzone_is_ok_def word_le_nat_alt u split: if_splits)
  then show ?thesis by (auto simp: addrs_def)
qed

text \<open>C22. \<open>initchkadr_is_ok\<close> is right: when it answers 0, the place asked for overlaps none of the eight regions in
  use and ends below the mapped memory, as long as no region wraps around the address space.\<close>

theorem initchkadr_is_ok_sound:
  assumes "initchkadr_is_ok mbsp a n = 0" and "unat a + unat n < 2 ^ 64"
    and "\<forall>(s, l) \<in> set (boot_regions mbsp). unat s + unat l < 2 ^ 64"
  shows "(\<forall>(s, l) \<in> set (boot_regions mbsp). addrs s l \<inter> addrs a n = {}) \<and>
    addrs a n \<subseteq> {..<unat (mb_kpmapphymemsz mbsp)}"
proof

  have z: "\<forall>(s, l) \<in> set (boot_regions mbsp). adrzone_is_ok s l a n = 0" and e: "a + n < mb_kpmapphymemsz mbsp"
    using assms(1) by (auto simp: initchkadr_is_ok_def boot_regions_def split: if_splits)
  show "\<forall>(s, l) \<in> set (boot_regions mbsp). addrs s l \<inter> addrs a n = {}"
    using z assms(3) adrzone_apart [OF _ _ assms(2)] by fast
  have "unat (a + n) = unat a + unat n" using assms(2) by (simp add: unat_word_ariths)
  then show "addrs a n \<subseteq> {..<unat (mb_kpmapphymemsz mbsp)}" using e by (auto simp: addrs_def word_less_nat_alt)
qed

theorem initchkadr_is_ok_sound_witness:
  "initchkadr_is_ok bt_mbsp 0x3000000 0x4000 = 0 \<and> list_all (\<lambda>(s, l). addrs s l \<inter> addrs 0x3000000 0x4000 = {}) (boot_regions bt_mbsp)"
proof -
  have z: "initchkadr_is_ok bt_mbsp 0x3000000 0x4000 = 0"
    by (simp add: initchkadr_is_ok_def adrzone_is_ok_def bt_mbsp_def)
  have "\<forall>(s, l) \<in> set (boot_regions bt_mbsp). unat s + unat l < 2 ^ 64" by (simp add: boot_regions_def bt_mbsp_def)
  from initchkadr_is_ok_sound [OF z _ this] z show ?thesis by (simp add: list_all_iff)
qed

end
