(* ===== verification/Bytes.thy ===== *)
theory Bytes
  imports Cosmos_Prelude
begin

text \<open>
  Byte memory: 64-bit fields of structures at byte offsets (little-endian, as on x86-64),
  \<open>hal_memset\<close> and \<open>hal_memcpy\<close> of \<open>hal/x86/halcpuctrl.c\<close>, and null-terminated strings.
\<close>

type_synonym bytes = "nat \<Rightarrow> u8"

section \<open>Fields\<close>

definition rd64 :: "nat \<Rightarrow> bytes \<Rightarrow> u64" where
  "rd64 off b = horner_sum of_bool 2 (map (\<lambda>n. bit (b (off + n div 8)) (n mod 8)) [0..<64])"

definition wr64 :: "nat \<Rightarrow> u64 \<Rightarrow> bytes \<Rightarrow> bytes" where
  "wr64 off v b = (\<lambda>i. if off \<le> i \<and> i < off + 8 then ucast (drop_bit (8 * (i - off)) v) else b i)"

definition hal_memset :: "nat \<Rightarrow> u8 \<Rightarrow> nat \<Rightarrow> bytes \<Rightarrow> bytes" where
  "hal_memset off setval n b = (\<lambda>i. if off \<le> i \<and> i < off + n then setval else b i)"

text \<open>Copy \<open>n\<close> bytes from \<open>src\<close> at \<open>soff\<close> to \<open>dst\<close> at \<open>doff\<close>; the two areas are different buffers.\<close>

definition hal_memcpy :: "nat \<Rightarrow> bytes \<Rightarrow> nat \<Rightarrow> bytes \<Rightarrow> nat \<Rightarrow> bytes" where
  "hal_memcpy soff src doff dst n = (\<lambda>i. if doff \<le> i \<and> i < doff + n then src (soff + (i - doff)) else dst i)"

lemma bit_rd64: "bit (rd64 off b) n \<longleftrightarrow> n < 64 \<and> bit (b (off + n div 8)) (n mod 8)"
  by (auto simp: rd64_def bit_horner_sum_bit_word_iff)

lemma rd64_wr64 [simp]: "rd64 off (wr64 off v b) = v"
proof (rule bit_word_eqI)
  fix n assume "n < LENGTH(64)"
  then have n: "n < 64" "n div 8 < 8" by simp_all
  have "8 * (n div 8) + n mod 8 = n" by simp
  then show "bit (rd64 off (wr64 off v b)) n = bit v n"
    using n by (simp add: bit_rd64 wr64_def bit_simps)
qed

text \<open>A field is not changed by a write to other bytes.\<close>

lemma rd64_cong: "(\<And>i. off \<le> i \<Longrightarrow> i < off + 8 \<Longrightarrow> b i = c i) \<Longrightarrow> rd64 off b = rd64 off c"
proof (rule bit_word_eqI)
  fix n assume a: "\<And>i. off \<le> i \<Longrightarrow> i < off + 8 \<Longrightarrow> b i = c i" and "n < LENGTH(64)"
  then have "n div 8 < 8" by simp
  then have "b (off + n div 8) = c (off + n div 8)" by (intro a) simp_all
  then show "bit (rd64 off b) n = bit (rd64 off c) n" by (simp add: bit_rd64)
qed

lemma rd64_wr64_other [simp]: "o1 + 8 \<le> o2 \<or> o2 + 8 \<le> o1 \<Longrightarrow> rd64 o1 (wr64 o2 v b) = rd64 o1 b"
  by (rule rd64_cong) (auto simp: wr64_def)

lemma wr64_at [simp]: "i < off \<or> off + 8 \<le> i \<Longrightarrow> wr64 off v b i = b i"
  by (auto simp: wr64_def)

lemma wr64_rd64 [simp]: "wr64 off (rd64 off b) b = b"
proof
  fix i show "wr64 off (rd64 off b) b i = b i"
  proof (cases "off \<le> i \<and> i < off + 8")
    case True
    then obtain k where k: "i = off + k" "k < 8" by (metis add.commute add_less_cancel_right le_iff_add)
    have "bit (ucast (drop_bit (8 * k) (rd64 off b)) :: u8) m = bit (b i) m" if "m < 8" for m
      using that k by (auto simp: bit_simps bit_rd64)
    then have "ucast (drop_bit (8 * k) (rd64 off b)) = b i" by (intro bit_word_eqI) simp
    then show ?thesis using k by (simp add: wr64_def)
  qed (auto simp: wr64_def)
qed

lemma wr64_zero [simp]: "wr64 off 0 (\<lambda>_. 0) = (\<lambda>_. 0)"
  by (auto simp: wr64_def fun_eq_iff)

lemma rd64_zero [simp]: "rd64 off (\<lambda>_. 0) = 0"
  by (rule bit_word_eqI) (simp add: bit_rd64)

lemma wr64_commute: "o1 + 8 \<le> o2 \<or> o2 + 8 \<le> o1 \<Longrightarrow> wr64 o1 v (wr64 o2 w b) = wr64 o2 w (wr64 o1 v b)"
  by (auto simp: wr64_def fun_eq_iff)

lemma rd64_memcpy_other:
  "off + 8 \<le> doff \<or> doff + n \<le> off \<Longrightarrow> rd64 off (hal_memcpy soff src doff dst n) = rd64 off dst"
  by (rule rd64_cong) (auto simp: hal_memcpy_def)

lemma rd64_memset_other [simp]: "off + 8 \<le> moff \<or> moff + n \<le> off \<Longrightarrow> rd64 off (hal_memset moff v n b) = rd64 off b"
  by (rule rd64_cong) (auto simp: hal_memset_def)

section \<open>Strings\<close>

text \<open>\<open>str_at s xs\<close>: the bytes from \<open>s 0\<close> on are \<open>xs\<close> and a null byte.\<close>

definition str_at :: "bytes \<Rightarrow> u8 list \<Rightarrow> bool" where
  "str_at s xs \<longleftrightarrow> (\<forall>i < length xs. s i = xs ! i \<and> xs ! i \<noteq> 0) \<and> s (length xs) = 0"

lemma str_at_unique: "str_at s xs \<Longrightarrow> str_at s ys \<Longrightarrow> xs = ys"
proof -
  have le: "length xs \<le> length ys" if "str_at s xs" "str_at s ys" for xs ys :: "u8 list"
    using that unfolding str_at_def by (metis not_le)
  assume a: "str_at s xs" "str_at s ys"
  then have "length xs = length ys" using le by (metis le_antisym)
  then show "xs = ys" using a by (auto simp: str_at_def intro!: nth_equalityI)
qed

lemma str_at_Nil [simp]: "str_at s [] \<longleftrightarrow> s 0 = 0"
  by (simp add: str_at_def)

lemma str_at_Cons: "str_at s (x # xs) \<longleftrightarrow> s 0 = x \<and> x \<noteq> 0 \<and> str_at (\<lambda>i. s (Suc i)) xs"
  by (auto simp: str_at_def All_less_Suc2)

lemma str_at_cong: "(\<And>i. i \<le> length xs \<Longrightarrow> s i = t i) \<Longrightarrow> str_at s xs = str_at t xs"
  by (auto simp: str_at_def)

end
