(* ===== verification/Rfs.thy ===== *)
theory Rfs
  imports Bytes
begin

text \<open>
  The memory file system, \<open>drivers/drvrfs.c\<close>: a superblock (block 0), a map of blocks in use
  (one byte per block, in block 1), the file of the root directory and one block per file.
  Each file block starts with a header \<open>fimgrhd_t\<close>; file data and directory entries start
  at byte \<open>0x200\<close>.

  The device is a piece of kernel memory. Its blocks are read and written whole, so memory
  is a map from the address of a block to its 4096 bytes. Structures inside a block are
  reached at the byte offsets of the C structures. A block copied to a buffer is a value;
  \<open>krlnew\<close> and \<open>krldelete\<close>, which provide the buffers, are a parameter \<open>kmem\<close>: \<open>kmem n\<close> tells
  whether the \<open>n\<close>-th call succeeds. The state counts these calls and the buffers in use.
\<close>

definition FSYS_ALCBLKSZ :: u64 where "FSYS_ALCBLKSZ = 0x1000"
definition DR_NM_MAX :: nat where "DR_NM_MAX = 104"
definition FBLKS_MAX :: nat where "FBLKS_MAX = 32"
definition RDR_NUL_TYPE :: u64 where "RDR_NUL_TYPE = 0"
definition RDR_DIR_TYPE :: u64 where "RDR_DIR_TYPE = 1"
definition RDR_FIL_TYPE :: u64 where "RDR_FIL_TYPE = 2"
definition RDR_DEL_TYPE :: u64 where "RDR_DEL_TYPE = 5"
definition FMD_NUL_TYPE :: u64 where "FMD_NUL_TYPE = 0"
definition FMD_DIR_TYPE :: u64 where "FMD_DIR_TYPE = 1"
definition FMD_FIL_TYPE :: u64 where "FMD_FIL_TYPE = 2"
definition FSDEV_OPENFLG_NEWFILE :: u64 where "FSDEV_OPENFLG_NEWFILE = 1"
definition FSDEV_OPENFLG_OPEFILE :: u64 where "FSDEV_OPENFLG_OPEFILE = 2"
definition FSDEV_IOCTRCD_DELFILE :: u64 where "FSDEV_IOCTRCD_DELFILE = 5"

lemmas rfs_consts = FSYS_ALCBLKSZ_def DR_NM_MAX_def FBLKS_MAX_def RDR_NUL_TYPE_def RDR_DIR_TYPE_def RDR_FIL_TYPE_def
  RDR_DEL_TYPE_def FMD_NUL_TYPE_def FMD_DIR_TYPE_def FMD_FIL_TYPE_def FSDEV_OPENFLG_NEWFILE_def FSDEV_OPENFLG_OPEFILE_def
  FSDEV_IOCTRCD_DELFILE_def

text \<open>The status codes of drivers.\<close>

datatype drvstus_t = DFCOKSTUS | DFCERRSTUS

record rfsdevext_t =
  rde_mstart :: u64
  rde_msize :: u64
  rde_mem :: "u64 \<Rightarrow> bytes"
  kmem_calls :: int
  kmem_live :: int

section \<open>The structures\<close>

text \<open>Byte offsets in \<open>fimgrhd_t\<close>, of 632 bytes.\<close>

definition fmd_stus :: nat where "fmd_stus = 0"
definition fmd_type :: nat where "fmd_type = 8"
definition fmd_flg :: nat where "fmd_flg = 16"
definition fmd_sfblk :: nat where "fmd_sfblk = 24"
definition fmd_acss :: nat where "fmd_acss = 32"
definition fmd_newtime :: nat where "fmd_newtime = 40"
definition fmd_acstime :: nat where "fmd_acstime = 48"
definition fmd_fileallbk :: nat where "fmd_fileallbk = 56"
definition fmd_filesz :: nat where "fmd_filesz = 64"
definition fmd_fileifstbkoff :: nat where "fmd_fileifstbkoff = 72"
definition fmd_fileiendbkoff :: nat where "fmd_fileiendbkoff = 80"
definition fmd_curfwritebk :: nat where "fmd_curfwritebk = 88"
definition fmd_curfinwbkoff :: nat where "fmd_curfinwbkoff = 96"
definition fb_blkstart :: "nat \<Rightarrow> nat" where "fb_blkstart i = 104 + 16 * i"
definition fb_blknr :: "nat \<Rightarrow> nat" where "fb_blknr i = 104 + 16 * i + 8"
definition fmd_linkpblk :: nat where "fmd_linkpblk = 616"
definition fmd_linknblk :: nat where "fmd_linknblk = 624"

lemmas fmd_offsets = fmd_stus_def fmd_type_def fmd_flg_def fmd_sfblk_def fmd_acss_def fmd_newtime_def fmd_acstime_def
  fmd_fileallbk_def fmd_filesz_def fmd_fileifstbkoff_def fmd_fileiendbkoff_def fmd_curfwritebk_def fmd_curfinwbkoff_def
  fb_blkstart_def fb_blknr_def fmd_linkpblk_def fmd_linknblk_def

text \<open>Offsets in \<open>rfsdir_t\<close>, of 128 bytes, which starts at \<open>o\<close>, and in \<open>rfssublk_t\<close>.\<close>

definition rdr_stus :: "nat \<Rightarrow> nat" where "rdr_stus e = e"
definition rdr_type :: "nat \<Rightarrow> nat" where "rdr_type e = e + 8"
definition rdr_blknr :: "nat \<Rightarrow> nat" where "rdr_blknr e = e + 16"
definition rdr_name :: "nat \<Rightarrow> nat" where "rdr_name e = e + 24"
definition sizeof_rfsdir_t :: nat where "sizeof_rfsdir_t = 128"
definition rsb_mgic :: nat where "rsb_mgic = 8"
definition rsb_vec :: nat where "rsb_vec = 16"
definition rsb_flg :: nat where "rsb_flg = 24"
definition rsb_stus :: nat where "rsb_stus = 32"
definition rsb_sz :: nat where "rsb_sz = 40"
definition rsb_sblksz :: nat where "rsb_sblksz = 48"
definition rsb_dblksz :: nat where "rsb_dblksz = 56"
definition rsb_bmpbks :: nat where "rsb_bmpbks = 64"
definition rsb_bmpbknr :: nat where "rsb_bmpbknr = 72"
definition rsb_fsysallblk :: nat where "rsb_fsysallblk = 80"
definition rsb_rootdir :: nat where "rsb_rootdir = 88"

lemmas rdr_offsets = rdr_stus_def rdr_type_def rdr_blknr_def rdr_name_def sizeof_rfsdir_t_def
lemmas rsb_offsets = rsb_mgic_def rsb_vec_def rsb_flg_def rsb_stus_def rsb_sz_def rsb_sblksz_def rsb_dblksz_def
  rsb_bmpbks_def rsb_bmpbknr_def rsb_fsysallblk_def rsb_rootdir_def

definition rfsdir_t_init :: "nat \<Rightarrow> bytes \<Rightarrow> bytes" where
  "rfsdir_t_init e b =
     (let b = wr64 (rdr_stus e) 0 b; b = wr64 (rdr_type e) RDR_NUL_TYPE b; b = wr64 (rdr_blknr e) 0 b
      in hal_memset (rdr_name e) 0 DR_NM_MAX b)"

definition filblks_t_init :: "nat \<Rightarrow> bytes \<Rightarrow> bytes" where
  "filblks_t_init i b = wr64 (fb_blknr i) 0 (wr64 (fb_blkstart i) 0 b)"

text \<open>The lock at the start of the superblock is four bytes that \<open>krlspinlock_init\<close> sets to 0.\<close>

definition rfssublk_t_init :: "bytes \<Rightarrow> bytes" where
  "rfssublk_t_init b =
     (let b = hal_memset 0 0 4 b; b = wr64 rsb_mgic 0x142422 b; b = wr64 rsb_vec 1 b; b = wr64 rsb_flg 0 b;
          b = wr64 rsb_stus 0 b; b = wr64 rsb_sz 216 b; b = wr64 rsb_sblksz 1 b; b = wr64 rsb_dblksz FSYS_ALCBLKSZ b;
          b = wr64 rsb_bmpbks 1 b; b = wr64 rsb_bmpbknr 0 b; b = wr64 rsb_fsysallblk 0 b
      in rfsdir_t_init rsb_rootdir b)"

definition fimgrhd_t_init :: "bytes \<Rightarrow> bytes" where
  "fimgrhd_t_init b =
     (let b = wr64 fmd_stus 0 b; b = wr64 fmd_type FMD_NUL_TYPE b; b = wr64 fmd_flg 0 b; b = wr64 fmd_sfblk 0 b;
          b = wr64 fmd_acss 0 b; b = wr64 fmd_newtime 0 b; b = wr64 fmd_acstime 0 b; b = wr64 fmd_fileallbk 0 b;
          b = wr64 fmd_filesz 0 b; b = wr64 fmd_fileifstbkoff 0x200 b; b = wr64 fmd_fileiendbkoff 0 b;
          b = wr64 fmd_curfwritebk 0 b; b = wr64 fmd_curfinwbkoff 0 b;
          b = fold filblks_t_init [0..<FBLKS_MAX] b;
          b = wr64 fmd_linkpblk 0 b
      in wr64 fmd_linknblk 0 b)"

section \<open>Blocks of the device and buffers\<close>

text \<open>The address of a block; \<open>None\<close> for the null pointer.\<close>

definition ret_rfsdevblk :: "rfsdevext_t \<Rightarrow> u64 \<Rightarrow> u64 option" where
  "ret_rfsdevblk devp blknr =
     (let blkp = rde_mstart devp + blknr * FSYS_ALCBLKSZ
      in if blkp \<ge> rde_mstart devp + rde_msize devp then None else Some blkp)"

definition ret_rfsdevmaxblknr :: "rfsdevext_t \<Rightarrow> u64" where
  "ret_rfsdevmaxblknr devp = rde_msize devp div FSYS_ALCBLKSZ"

definition read_rfsdevblk :: "rfsdevext_t \<Rightarrow> u64 \<Rightarrow> bytes option" where
  "read_rfsdevblk devp blknr = (case ret_rfsdevblk devp blknr of None \<Rightarrow> None | Some p \<Rightarrow> Some (rde_mem devp p))"

definition write_rfsdevblk :: "rfsdevext_t \<Rightarrow> bytes \<Rightarrow> u64 \<Rightarrow> drvstus_t \<times> rfsdevext_t" where
  "write_rfsdevblk devp weadr blknr =
     (case ret_rfsdevblk devp blknr of None \<Rightarrow> (DFCERRSTUS, devp)
      | Some p \<Rightarrow> (DFCOKSTUS, devp\<lparr>rde_mem := (rde_mem devp)(p := weadr)\<rparr>))"

definition new_buf :: "(int \<Rightarrow> bool) \<Rightarrow> rfsdevext_t \<Rightarrow> bool \<times> rfsdevext_t" where
  "new_buf kmem devp =
     (let ok = kmem (kmem_calls devp)
      in (ok, devp\<lparr>kmem_calls := kmem_calls devp + 1, kmem_live := kmem_live devp + (if ok then 1 else 0)\<rparr>))"

definition del_buf :: "(int \<Rightarrow> bool) \<Rightarrow> rfsdevext_t \<Rightarrow> rfsdevext_t option" where
  "del_buf kmem devp =
     (if \<not> kmem (kmem_calls devp) then hal_sysdie ''del buf err''
      else Some (devp\<lparr>kmem_calls := kmem_calls devp + 1, kmem_live := kmem_live devp - 1\<rparr>))"

text \<open>A buffer that was just cleared.\<close>

abbreviation zero_blk :: bytes where "zero_blk \<equiv> \<lambda>_. 0"

section \<open>The superblock and the map of blocks\<close>

definition get_superblk :: "(int \<Rightarrow> bool) \<Rightarrow> rfsdevext_t \<Rightarrow> (bytes option \<times> rfsdevext_t) option" where
  "get_superblk kmem devp =
     (case new_buf kmem devp of (ok, devp) \<Rightarrow>
        if \<not> ok then Some (None, devp)
        else (case read_rfsdevblk devp 0 of
            None \<Rightarrow> do { devp \<leftarrow> del_buf kmem devp; Some (None, devp) }
          | Some buf \<Rightarrow> Some (Some buf, devp)))"

definition del_superblk :: "(int \<Rightarrow> bool) \<Rightarrow> bytes \<Rightarrow> rfsdevext_t \<Rightarrow> rfsdevext_t option" where
  "del_superblk kmem sbp devp =
     (case write_rfsdevblk devp sbp 0 of
        (DFCERRSTUS, devp) \<Rightarrow> hal_sysdie ''del superblk err''
      | (DFCOKSTUS, devp) \<Rightarrow> del_buf kmem devp)"

definition get_bitmapblk :: "(int \<Rightarrow> bool) \<Rightarrow> rfsdevext_t \<Rightarrow> (bytes option \<times> rfsdevext_t) option" where
  "get_bitmapblk kmem devp = do {
     (sb, devp) \<leftarrow> get_superblk kmem devp;
     case sb of None \<Rightarrow> Some (None, devp)
     | Some sbp \<Rightarrow>
         (case new_buf kmem devp of (ok, devp) \<Rightarrow>
            if \<not> ok then Some (None, devp)
            else (case read_rfsdevblk devp (rd64 rsb_bmpbks sbp) of
                None \<Rightarrow> do { devp \<leftarrow> del_buf kmem devp; devp \<leftarrow> del_superblk kmem sbp devp; Some (None, devp) }
              | Some buf \<Rightarrow> do { devp \<leftarrow> del_superblk kmem sbp devp; Some (Some buf, devp) }))
   }"

definition del_bitmapblk :: "(int \<Rightarrow> bool) \<Rightarrow> bytes \<Rightarrow> rfsdevext_t \<Rightarrow> rfsdevext_t option" where
  "del_bitmapblk kmem bitmap devp = do {
     (sb, devp) \<leftarrow> get_superblk kmem devp;
     case sb of None \<Rightarrow> hal_sysdie ''del superblk err''
     | Some sbp \<Rightarrow>
         (case write_rfsdevblk devp bitmap (rd64 rsb_bmpbks sbp) of
            (DFCERRSTUS, devp) \<Rightarrow> do { devp \<leftarrow> del_superblk kmem sbp devp; hal_sysdie ''del superblk err1'' }
          | (DFCOKSTUS, devp) \<Rightarrow> do { devp \<leftarrow> del_superblk kmem sbp devp; del_buf kmem devp })
   }"

text \<open>Block 0 is the superblock, so 0 stands for no block.\<close>

definition rfs_new_blk :: "(int \<Rightarrow> bool) \<Rightarrow> rfsdevext_t \<Rightarrow> (u64 \<times> rfsdevext_t) option" where
  "rfs_new_blk kmem devp = do {
     (bm, devp) \<leftarrow> get_bitmapblk kmem devp;
     case bm of None \<Rightarrow> Some (0, devp)
     | Some bitmap \<Rightarrow>
         (case find (\<lambda>blknr. bitmap blknr = 0) [2..<unat FSYS_ALCBLKSZ] of
            None \<Rightarrow> do { devp \<leftarrow> del_bitmapblk kmem bitmap devp; Some (0, devp) }
          | Some blknr \<Rightarrow> do { devp \<leftarrow> del_bitmapblk kmem (bitmap(blknr := 1)) devp; Some (of_nat blknr, devp) })
   }"

text \<open>\<open>None\<close> also for the write one byte past the buffer that block number 0x1000 gives.\<close>

definition rfs_del_blk :: "(int \<Rightarrow> bool) \<Rightarrow> u64 \<Rightarrow> rfsdevext_t \<Rightarrow> rfsdevext_t option" where
  "rfs_del_blk kmem blknr devp =
     (if blknr > FSYS_ALCBLKSZ then hal_sysdie ''rfs del blk err''
      else do {
        (bm, devp) \<leftarrow> get_bitmapblk kmem devp;
        case bm of None \<Rightarrow> hal_sysdie ''rfs del blk err1''
        | Some bitmap \<Rightarrow>
            if unat blknr \<ge> unat FSYS_ALCBLKSZ then None else del_bitmapblk kmem (bitmap(unat blknr := 0)) devp
      })"

section \<open>The root directory\<close>

text \<open>The copy of \<open>rsb_rootdir\<close>, as the bytes of an \<open>rfsdir_t\<close> at offset 0.\<close>

definition get_rootdir :: "(int \<Rightarrow> bool) \<Rightarrow> rfsdevext_t \<Rightarrow> (bytes option \<times> rfsdevext_t) option" where
  "get_rootdir kmem devp = do {
     (sb, devp) \<leftarrow> get_superblk kmem devp;
     case sb of None \<Rightarrow> Some (None, devp)
     | Some sbp \<Rightarrow>
         (case new_buf kmem devp of (ok, devp) \<Rightarrow> do {
            devp \<leftarrow> del_superblk kmem sbp devp;
            Some (if ok then Some (hal_memcpy rsb_rootdir sbp 0 zero_blk sizeof_rfsdir_t) else None, devp)
          })
   }"

definition del_rootdir :: "(int \<Rightarrow> bool) \<Rightarrow> rfsdevext_t \<Rightarrow> rfsdevext_t option" where
  "del_rootdir kmem devp = del_buf kmem devp"

definition get_rootdirfile_blk :: "(int \<Rightarrow> bool) \<Rightarrow> rfsdevext_t \<Rightarrow> (bytes option \<times> rfsdevext_t) option" where
  "get_rootdirfile_blk kmem devp = do {
     (rt, devp) \<leftarrow> get_rootdir kmem devp;
     case rt of None \<Rightarrow> Some (None, devp)
     | Some rtdir \<Rightarrow>
         (case new_buf kmem devp of (ok, devp) \<Rightarrow>
            if \<not> ok then do { devp \<leftarrow> del_rootdir kmem devp; Some (None, devp) }
            else (case read_rfsdevblk devp (rd64 (rdr_blknr 0) rtdir) of
                None \<Rightarrow> do { devp \<leftarrow> del_buf kmem devp; devp \<leftarrow> del_rootdir kmem devp; Some (None, devp) }
              | Some buf \<Rightarrow> do { devp \<leftarrow> del_rootdir kmem devp; Some (Some buf, devp) }))
   }"

definition del_rootdirfile_blk :: "(int \<Rightarrow> bool) \<Rightarrow> bytes \<Rightarrow> rfsdevext_t \<Rightarrow> rfsdevext_t option" where
  "del_rootdirfile_blk kmem blkp devp =
     (case write_rfsdevblk devp blkp (rd64 fmd_sfblk blkp) of
        (DFCERRSTUS, devp) \<Rightarrow> hal_sysdie ''del_rootfile_blk err''
      | (DFCOKSTUS, devp) \<Rightarrow> del_buf kmem devp)"

section \<open>Names\<close>

partial_function (option) rfs_strcmp :: "bytes \<Rightarrow> bytes \<Rightarrow> nat \<Rightarrow> int option" where
  "rfs_strcmp str_s str_d i =
     (if str_s i \<noteq> str_d i then Some 0 else if str_s i = 0 then Some 1 else rfs_strcmp str_s str_d (Suc i))"

partial_function (option) rfs_strlen :: "bytes \<Rightarrow> nat \<Rightarrow> nat option" where
  "rfs_strlen str_s chaidx = (if str_s chaidx = 0 then Some chaidx else rfs_strlen str_s (Suc chaidx))"

text \<open>Copy to the string at offset \<open>off\<close> of \<open>str_d\<close>.\<close>

partial_function (option) rfs_strcpy :: "bytes \<Rightarrow> nat \<Rightarrow> bytes \<Rightarrow> nat \<Rightarrow> (nat \<times> bytes) option" where
  "rfs_strcpy str_s off str_d chaidx =
     (if str_s chaidx = 0 then Some (chaidx, str_d(off + chaidx := 0))
      else rfs_strcpy str_s off (str_d(off + chaidx := str_s chaidx)) (Suc chaidx))"

text \<open>The loop over the characters from \<open>i\<close> on; \<open>n\<close> steps are left before \<open>i\<close> reaches \<open>DR_NM_MAX\<close>.\<close>

fun chkfilepath_from :: "bytes \<Rightarrow> nat \<Rightarrow> nat \<Rightarrow> int" where
  "chkfilepath_from chp i 0 = (if chp i = 0x2f then 3 else 4)"
| "chkfilepath_from chp i (Suc n) =
     (if chp i = 0x2f then 3 else if chp i = 0 \<and> i > 1 then 0 else chkfilepath_from chp (Suc i) n)"

definition rfs_chkfilepath :: "bytes \<Rightarrow> int" where
  "rfs_chkfilepath fname = (if fname 0 \<noteq> 0x2f then 2 else chkfilepath_from fname 1 (DR_NM_MAX - 1))"

text \<open>The status and the buffer with the name.\<close>

definition rfs_ret_fname :: "bytes \<Rightarrow> bytes \<Rightarrow> (int \<times> bytes) option" where
  "rfs_ret_fname buf fpath =
     (let stus = rfs_chkfilepath fpath in
      if stus \<noteq> 0 then Some (stus, buf)
      else do { (n, buf) \<leftarrow> rfs_strcpy (\<lambda>i. fpath (Suc i)) 0 buf 0; Some (0, buf) })"

section \<open>Looking up names\<close>

text \<open>The loop over the directory entries, which three functions share: the offset of the entry of a
  file with the name, if there is one.\<close>

partial_function (option) dir_find :: "bytes \<Rightarrow> bytes \<Rightarrow> nat \<Rightarrow> nat option option" where
  "dir_find blkp fname dirp =
     (if dirp < unat FSYS_ALCBLKSZ - 1
      then (if rd64 (rdr_type dirp) blkp = RDR_FIL_TYPE
            then do {
              r \<leftarrow> rfs_strcmp (\<lambda>i. blkp (rdr_name dirp + i)) fname 0;
              if r = 1 then Some (Some dirp) else dir_find blkp fname (dirp + sizeof_rfsdir_t)
            }
            else dir_find blkp fname (dirp + sizeof_rfsdir_t))
      else Some None)"

definition dir_empty :: "bytes \<Rightarrow> bool" where
  "dir_empty fmp \<longleftrightarrow> rd64 fmd_curfwritebk fmp = rd64 (fb_blkstart 0) fmp \<and>
     rd64 fmd_curfinwbkoff fmp = rd64 fmd_fileifstbkoff fmp"

definition rfs_chkfileisindev :: "(int \<Rightarrow> bool) \<Rightarrow> bytes \<Rightarrow> rfsdevext_t \<Rightarrow> (int \<times> rfsdevext_t) option" where
  "rfs_chkfileisindev kmem fname devp = do {
     ch \<leftarrow> rfs_strlen fname 0;
     if ch < 1 \<or> ch \<ge> DR_NM_MAX then Some (4, devp)
     else do {
       (rd, devp) \<leftarrow> get_rootdirfile_blk kmem devp;
       case rd of None \<Rightarrow> Some (2, devp)
       | Some fmp \<Rightarrow> do {
           rets \<leftarrow> (if rd64 fmd_type fmp \<noteq> FMD_DIR_TYPE then Some 3
                   else if dir_empty fmp then Some 0
                   else do {
                     r \<leftarrow> dir_find fmp fname (unat (rd64 fmd_fileifstbkoff fmp));
                     Some (case r of None \<Rightarrow> 0 | Some dirp \<Rightarrow> 1)
                   });
           devp \<leftarrow> del_rootdirfile_blk kmem fmp devp;
           Some (rets, devp)
         }
     }
   }"

definition rfs_openfileblk :: "(int \<Rightarrow> bool) \<Rightarrow> bytes \<Rightarrow> rfsdevext_t \<Rightarrow> (bytes option \<times> rfsdevext_t) option" where
  "rfs_openfileblk kmem fname devp = do {
     (st, fne) \<leftarrow> rfs_ret_fname zero_blk fname;
     if st \<noteq> 0 then Some (None, devp)
     else do {
       (rd, devp) \<leftarrow> get_rootdirfile_blk kmem devp;
       case rd of None \<Rightarrow> Some (None, devp)
       | Some fmp \<Rightarrow> do {
           (rets, devp) \<leftarrow>
             (if rd64 fmd_type fmp \<noteq> FMD_DIR_TYPE then Some (None, devp)
              else if dir_empty fmp then Some (None, devp)
              else do {
                r \<leftarrow> dir_find fmp fne (unat (rd64 fmd_fileifstbkoff fmp));
                case r of None \<Rightarrow> Some (None, devp)
                | Some dirp \<Rightarrow>
                    (case new_buf kmem devp of (ok, devp) \<Rightarrow>
                       if \<not> ok then Some (None, devp)
                       else (case read_rfsdevblk devp (rd64 (rdr_blknr dirp) fmp) of
                           None \<Rightarrow> do { devp \<leftarrow> del_buf kmem devp; Some (None, devp) }
                         | Some buf \<Rightarrow>
                             if rd64 fmd_type buf = FMD_NUL_TYPE \<or> rd64 fmd_fileifstbkoff buf \<noteq> 0x200
                             then do { devp \<leftarrow> del_buf kmem devp; Some (None, devp) }
                             else Some (Some buf, devp)))
              });
           devp \<leftarrow> del_rootdirfile_blk kmem fmp devp;
           Some (rets, devp)
         }
     }
   }"

section \<open>Making and deleting files\<close>

text \<open>The header of a new file of one block.\<close>

definition new_header :: "u64 \<Rightarrow> u64 \<Rightarrow> bytes" where
  "new_header ty blk =
     (let b = fimgrhd_t_init zero_blk; b = wr64 fmd_type ty b; b = wr64 fmd_sfblk blk b; b = wr64 fmd_curfwritebk blk b;
          b = wr64 fmd_curfinwbkoff 0x200 b; b = wr64 (fb_blkstart 0) blk b
      in wr64 (fb_blknr 0) 1 b)"

definition rfs_new_dirfileblk :: "(int \<Rightarrow> bool) \<Rightarrow> bytes \<Rightarrow> u64 \<Rightarrow> rfsdevext_t \<Rightarrow> (drvstus_t \<times> rfsdevext_t) option" where
  "rfs_new_dirfileblk kmem fname flgtype devp =
     (if flgtype \<noteq> RDR_FIL_TYPE then Some (DFCERRSTUS, devp)
      else
        (case new_buf kmem devp of (ok, devp) \<Rightarrow>
           if \<not> ok then Some (DFCERRSTUS, devp)
           else do {
             (fblk, devp) \<leftarrow> rfs_new_blk kmem devp;
             if fblk = 0 then do { devp \<leftarrow> del_buf kmem devp; Some (DFCERRSTUS, devp) }
             else do {
               (rd, devp) \<leftarrow> get_rootdirfile_blk kmem devp;
               case rd of None \<Rightarrow> do { devp \<leftarrow> del_buf kmem devp; Some (DFCERRSTUS, devp) }
               | Some fmp \<Rightarrow>
                   let wrdirp = unat (rd64 fmd_curfinwbkoff fmp) in
                   if wrdirp \<ge> unat FSYS_ALCBLKSZ
                   then do {
                     devp \<leftarrow> del_rootdirfile_blk kmem fmp devp;
                     devp \<leftarrow> del_buf kmem devp;
                     Some (DFCERRSTUS, devp)
                   }
                   else do {
                     let fmp = wr64 (rdr_stus wrdirp) 0 fmp;
                     let fmp = wr64 (rdr_type wrdirp) flgtype fmp;
                     let fmp = wr64 (rdr_blknr wrdirp) fblk fmp;
                     (n, fmp) \<leftarrow> rfs_strcpy fname (rdr_name wrdirp) fmp 0;
                     let fmp = wr64 fmd_filesz (rd64 fmd_filesz fmp + of_nat sizeof_rfsdir_t) fmp;
                     let fmp = wr64 fmd_curfinwbkoff (rd64 fmd_curfinwbkoff fmp + of_nat sizeof_rfsdir_t) fmp;
                     (case write_rfsdevblk devp (new_header FMD_FIL_TYPE fblk) fblk of (rets, devp) \<Rightarrow> do {
                        devp \<leftarrow> del_rootdirfile_blk kmem fmp devp;
                        devp \<leftarrow> del_buf kmem devp;
                        Some (rets, devp)
                      })
                   }
             }
           }))"

definition rfs_new_file :: "(int \<Rightarrow> bool) \<Rightarrow> bytes \<Rightarrow> rfsdevext_t \<Rightarrow> (drvstus_t \<times> rfsdevext_t) option" where
  "rfs_new_file kmem fname devp = do {
     (st, fne) \<leftarrow> rfs_ret_fname zero_blk fname;
     if st \<noteq> 0 then Some (DFCERRSTUS, devp)
     else do {
       (r, devp) \<leftarrow> rfs_chkfileisindev kmem fne devp;
       if r \<noteq> 0 then Some (DFCERRSTUS, devp) else rfs_new_dirfileblk kmem fne RDR_FIL_TYPE devp
     }
   }"

definition del_dirfileblk_core :: "(int \<Rightarrow> bool) \<Rightarrow> bytes \<Rightarrow> rfsdevext_t \<Rightarrow> (int \<times> rfsdevext_t) option" where
  "del_dirfileblk_core kmem fname devp = do {
     (rd, devp) \<leftarrow> get_rootdirfile_blk kmem devp;
     case rd of None \<Rightarrow> Some (5, devp)
     | Some fmp \<Rightarrow> do {
         (rets, fmp, devp) \<leftarrow>
           (if rd64 fmd_type fmp \<noteq> FMD_DIR_TYPE then Some (4, fmp, devp)
            else if dir_empty fmp then Some (3, fmp, devp)
            else do {
              r \<leftarrow> dir_find fmp fname (unat (rd64 fmd_fileifstbkoff fmp));
              case r of None \<Rightarrow> Some (1, fmp, devp)
              | Some dirp \<Rightarrow> do {
                  devp \<leftarrow> rfs_del_blk kmem (rd64 (rdr_blknr dirp) fmp) devp;
                  Some (0, wr64 (rdr_type dirp) RDR_DEL_TYPE (rfsdir_t_init dirp fmp), devp)
                }
            });
         devp \<leftarrow> del_rootdirfile_blk kmem fmp devp;
         Some (rets, devp)
       }
   }"

definition rfs_del_dirfileblk :: "(int \<Rightarrow> bool) \<Rightarrow> bytes \<Rightarrow> u64 \<Rightarrow> u64 \<Rightarrow> rfsdevext_t \<Rightarrow> (drvstus_t \<times> rfsdevext_t) option" where
  "rfs_del_dirfileblk kmem fname flgtype val devp =
     (if flgtype \<noteq> RDR_FIL_TYPE \<or> val \<noteq> 0 then Some (DFCERRSTUS, devp)
      else do {
        (st, fne) \<leftarrow> rfs_ret_fname zero_blk fname;
        if st \<noteq> 0 then Some (DFCERRSTUS, devp)
        else do {
          (r, devp) \<leftarrow> del_dirfileblk_core kmem fne devp;
          Some (if r \<noteq> 0 then DFCERRSTUS else DFCOKSTUS, devp)
        }
      })"

definition rfs_del_file :: "(int \<Rightarrow> bool) \<Rightarrow> bytes \<Rightarrow> u64 \<Rightarrow> rfsdevext_t \<Rightarrow> (drvstus_t \<times> rfsdevext_t) option" where
  "rfs_del_file kmem fname flg devp =
     (if flg \<noteq> 0 then Some (DFCERRSTUS, devp) else rfs_del_dirfileblk kmem fname RDR_FIL_TYPE 0 devp)"

section \<open>Reading and writing an open file\<close>

text \<open>The guard with which reading and writing start.\<close>

definition one_block_file :: "bytes \<Rightarrow> bool" where
  "one_block_file fmp \<longleftrightarrow> rd64 fmd_sfblk fmp = rd64 fmd_curfwritebk fmp \<and> rd64 fmd_curfwritebk fmp = rd64 (fb_blkstart 0) fmp"

text \<open>The sum in the size check wraps around; \<open>None\<close> when the copy then runs past the buffer.\<close>

definition rfs_writefileblk :: "bytes \<Rightarrow> bytes \<Rightarrow> u64 \<Rightarrow> rfsdevext_t \<Rightarrow> (drvstus_t \<times> bytes \<times> rfsdevext_t) option" where
  "rfs_writefileblk fmp buf len devp =
     (if \<not> one_block_file fmp then Some (DFCERRSTUS, fmp, devp)
      else if rd64 fmd_curfinwbkoff fmp + len \<ge> FSYS_ALCBLKSZ then Some (DFCERRSTUS, fmp, devp)
      else if unat (rd64 fmd_curfinwbkoff fmp) + unat len > unat FSYS_ALCBLKSZ then None
      else
        (let fmp = hal_memcpy 0 buf (unat (rd64 fmd_curfinwbkoff fmp)) fmp (unat len);
             fmp = wr64 fmd_filesz (rd64 fmd_filesz fmp + len) fmp;
             fmp = wr64 fmd_curfinwbkoff (rd64 fmd_curfinwbkoff fmp + len) fmp
         in case write_rfsdevblk devp fmp (rd64 fmd_curfwritebk fmp) of (st, devp) \<Rightarrow> Some (DFCOKSTUS, fmp, devp)))"

text \<open>The status and the caller's buffer.\<close>

definition rfs_readfileblk :: "bytes \<Rightarrow> bytes \<Rightarrow> u64 \<Rightarrow> drvstus_t \<times> bytes" where
  "rfs_readfileblk fmp buf len =
     (if \<not> one_block_file fmp then (DFCERRSTUS, buf)
      else if len > FSYS_ALCBLKSZ - rd64 fmd_fileifstbkoff fmp then (DFCERRSTUS, buf)
      else (DFCOKSTUS, hal_memcpy (unat (rd64 fmd_fileifstbkoff fmp)) fmp 0 buf (unat len)))"

definition rfs_closefileblk :: "(int \<Rightarrow> bool) \<Rightarrow> bytes \<Rightarrow> rfsdevext_t \<Rightarrow> (drvstus_t \<times> rfsdevext_t) option" where
  "rfs_closefileblk kmem fmp devp =
     (case write_rfsdevblk devp fmp (rd64 fmd_sfblk fmp) of (st, devp) \<Rightarrow> do {
        devp \<leftarrow> del_buf kmem devp;
        Some (DFCOKSTUS, devp)
      })"

section \<open>Formatting\<close>

definition create_superblk :: "(int \<Rightarrow> bool) \<Rightarrow> rfsdevext_t \<Rightarrow> (bool \<times> rfsdevext_t) option" where
  "create_superblk kmem devp =
     (case new_buf kmem devp of (ok, devp) \<Rightarrow>
        if \<not> ok then Some (False, devp)
        else
          (let sbp = wr64 rsb_fsysallblk (ret_rfsdevmaxblknr devp) (rfssublk_t_init zero_blk)
           in case write_rfsdevblk devp sbp 0 of
                (DFCERRSTUS, devp) \<Rightarrow> Some (False, devp)
              | (DFCOKSTUS, devp) \<Rightarrow> do { devp \<leftarrow> del_buf kmem devp; Some (True, devp) }))"

definition create_bitmap :: "(int \<Rightarrow> bool) \<Rightarrow> rfsdevext_t \<Rightarrow> (bool \<times> rfsdevext_t) option" where
  "create_bitmap kmem devp = do {
     (sb, devp) \<leftarrow> get_superblk kmem devp;
     case sb of None \<Rightarrow> Some (False, devp)
     | Some sbp \<Rightarrow>
         (case new_buf kmem devp of (ok, devp) \<Rightarrow>
            if \<not> ok then Some (False, devp)
            else do {
              let bitmapblk = rd64 rsb_bmpbks sbp;
              let devmaxblk = rd64 rsb_fsysallblk sbp;
              let (rets, devp) =
                (if devmaxblk > FSYS_ALCBLKSZ then (False, devp)
                 else
                   (let bitmap = (\<lambda>bi. if 2 \<le> bi \<and> bi < unat devmaxblk then 0 else 1)
                    in case write_rfsdevblk devp bitmap bitmapblk of (st, devp) \<Rightarrow> (st = DFCOKSTUS, devp)));
              devp \<leftarrow> del_superblk kmem sbp devp;
              devp \<leftarrow> del_buf kmem devp;
              Some (rets, devp)
            })
   }"

definition create_rootdir :: "(int \<Rightarrow> bool) \<Rightarrow> rfsdevext_t \<Rightarrow> (bool \<times> rfsdevext_t) option" where
  "create_rootdir kmem devp = do {
     (sb, devp) \<leftarrow> get_superblk kmem devp;
     case sb of None \<Rightarrow> Some (False, devp)
     | Some sbp \<Rightarrow>
         (case new_buf kmem devp of (ok, devp) \<Rightarrow>
            if \<not> ok then do { devp \<leftarrow> del_superblk kmem sbp devp; Some (False, devp) }
            else do {
              (blk, devp) \<leftarrow> rfs_new_blk kmem devp;
              if blk = 0 then do {
                devp \<leftarrow> del_buf kmem devp;
                devp \<leftarrow> del_superblk kmem sbp devp;
                Some (False, devp)
              }
              else do {
                let sbp = sbp(rdr_name rsb_rootdir := 0x2f);
                let sbp = wr64 (rdr_type rsb_rootdir) RDR_DIR_TYPE sbp;
                let sbp = wr64 (rdr_blknr rsb_rootdir) blk sbp;
                (case write_rfsdevblk devp (new_header FMD_DIR_TYPE blk) blk of (st, devp) \<Rightarrow> do {
                   devp \<leftarrow> del_buf kmem devp;
                   devp \<leftarrow> del_superblk kmem sbp devp;
                   Some (st = DFCOKSTUS, devp)
                 })
              }
            })
   }"

definition rfs_fmat :: "(int \<Rightarrow> bool) \<Rightarrow> rfsdevext_t \<Rightarrow> rfsdevext_t option" where
  "rfs_fmat kmem devp = do {
     (ok, devp) \<leftarrow> create_superblk kmem devp;
     if \<not> ok then hal_sysdie ''create superblk err''
     else do {
       (ok, devp) \<leftarrow> create_bitmap kmem devp;
       if \<not> ok then hal_sysdie ''create bitmap err''
       else do {
         (ok, devp) \<leftarrow> create_rootdir kmem devp;
         if \<not> ok then hal_sysdie ''create rootdir err'' else Some devp
       }
     }
   }"

definition init_rfs :: "(int \<Rightarrow> bool) \<Rightarrow> rfsdevext_t \<Rightarrow> rfsdevext_t option" where
  "init_rfs kmem devp = rfs_fmat kmem devp"

section \<open>Requests\<close>

text \<open>The part of an \<open>objnode_t\<close> that the driver uses; buffers it points to are values.\<close>

record objnode_io =
  on_acsflgs :: u64
  on_len :: u64
  on_ioctrd :: u64
  on_buf :: "bytes option"
  on_bufsz :: u64
  on_fname :: "bytes option"
  on_finode :: "bytes option"

definition rfs_read_file :: "objnode_io \<Rightarrow> drvstus_t \<times> objnode_io" where
  "rfs_read_file obp =
     (case (on_finode obp, on_buf obp) of
        (Some fmp, Some buf) \<Rightarrow>
          if on_bufsz obp \<noteq> FSYS_ALCBLKSZ then (DFCERRSTUS, obp)
          else (case rfs_readfileblk fmp buf (on_len obp) of (st, buf) \<Rightarrow> (st, obp\<lparr>on_buf := Some buf\<rparr>))
      | _ \<Rightarrow> (DFCERRSTUS, obp))"

definition rfs_write_file :: "objnode_io \<Rightarrow> rfsdevext_t \<Rightarrow> (drvstus_t \<times> objnode_io \<times> rfsdevext_t) option" where
  "rfs_write_file obp devp =
     (case (on_finode obp, on_buf obp) of
        (Some fmp, Some buf) \<Rightarrow>
          if on_bufsz obp \<noteq> FSYS_ALCBLKSZ then Some (DFCERRSTUS, obp, devp)
          else do {
            (st, fmp, devp) \<leftarrow> rfs_writefileblk fmp buf (on_len obp) devp;
            Some (st, obp\<lparr>on_finode := Some fmp\<rparr>, devp)
          }
      | _ \<Rightarrow> Some (DFCERRSTUS, obp, devp))"

definition rfs_open_file :: "(int \<Rightarrow> bool) \<Rightarrow> objnode_io \<Rightarrow> rfsdevext_t \<Rightarrow> (drvstus_t \<times> objnode_io \<times> rfsdevext_t) option" where
  "rfs_open_file kmem obp devp =
     (case on_fname obp of None \<Rightarrow> Some (DFCERRSTUS, obp, devp)
      | Some fname \<Rightarrow> do {
          (fmdp, devp) \<leftarrow> rfs_openfileblk kmem fname devp;
          Some (case fmdp of None \<Rightarrow> (DFCERRSTUS, obp, devp)
                | Some f \<Rightarrow> (DFCOKSTUS, obp\<lparr>on_finode := Some f\<rparr>, devp))
        })"

definition rfs_close_file :: "(int \<Rightarrow> bool) \<Rightarrow> objnode_io \<Rightarrow> rfsdevext_t \<Rightarrow> (drvstus_t \<times> rfsdevext_t) option" where
  "rfs_close_file kmem obp devp =
     (case on_finode obp of None \<Rightarrow> Some (DFCERRSTUS, devp) | Some fmp \<Rightarrow> rfs_closefileblk kmem fmp devp)"

text \<open>\<open>rfs_ret_fname\<close> refuses a null name with status 6.\<close>

definition rfs_open :: "(int \<Rightarrow> bool) \<Rightarrow> objnode_io \<Rightarrow> rfsdevext_t \<Rightarrow> (drvstus_t \<times> objnode_io \<times> rfsdevext_t) option" where
  "rfs_open kmem obp devp =
     (if on_acsflgs obp = FSDEV_OPENFLG_OPEFILE then rfs_open_file kmem obp devp
      else if on_acsflgs obp = FSDEV_OPENFLG_NEWFILE then
        (case on_fname obp of None \<Rightarrow> Some (DFCERRSTUS, obp, devp)
         | Some fname \<Rightarrow> do { (st, devp) \<leftarrow> rfs_new_file kmem fname devp; Some (st, obp, devp) })
      else Some (DFCERRSTUS, obp, devp))"

definition rfs_ioctrl :: "(int \<Rightarrow> bool) \<Rightarrow> objnode_io \<Rightarrow> rfsdevext_t \<Rightarrow> (drvstus_t \<times> rfsdevext_t) option" where
  "rfs_ioctrl kmem obp devp =
     (if on_ioctrd obp = FSDEV_IOCTRCD_DELFILE then
        (case on_fname obp of None \<Rightarrow> Some (DFCERRSTUS, devp) | Some fname \<Rightarrow> rfs_del_file kmem fname 0 devp)
      else Some (DFCERRSTUS, devp))"

section \<open>The self-test at boot\<close>

text \<open>What \<open>rfs_entry\<close> runs after the device is registered. Output and delays are left out. \<open>None\<close> also for the
  use of a null pointer.\<close>

definition objnode_t_init :: objnode_io where
  "objnode_t_init = \<lparr>on_acsflgs = 0, on_len = 0, on_ioctrd = 0, on_buf = None, on_bufsz = 0, on_fname = None, on_finode = None\<rparr>"

definition krlnew_objnode :: "(int \<Rightarrow> bool) \<Rightarrow> rfsdevext_t \<Rightarrow> objnode_io option \<times> rfsdevext_t" where
  "krlnew_objnode kmem devp =
     (case new_buf kmem devp of (ok, devp) \<Rightarrow> (if ok then Some objnode_t_init else None, devp))"

definition test_rfs_superblk :: "(int \<Rightarrow> bool) \<Rightarrow> rfsdevext_t \<Rightarrow> rfsdevext_t option" where
  "test_rfs_superblk kmem devp = do {
     (sb, devp) \<leftarrow> get_superblk kmem devp;
     case sb of None \<Rightarrow> None | Some sbp \<Rightarrow> del_superblk kmem sbp devp
   }"

text \<open>With the number of free blocks that it prints.\<close>

definition test_rfs_bitmap :: "(int \<Rightarrow> bool) \<Rightarrow> rfsdevext_t \<Rightarrow> (nat \<times> rfsdevext_t) option" where
  "test_rfs_bitmap kmem devp =
     (case new_buf kmem devp of (ok, devp) \<Rightarrow>
        if \<not> ok then hal_sysdie ''chkbitmap err''
        else (case read_rfsdevblk devp 1 of
            None \<Rightarrow> hal_sysdie ''chkbitmap err1''
          | Some bmp \<Rightarrow> do {
              let b = fold (\<lambda>i b. if bmp i = 0 then Suc b else b) [0..<unat FSYS_ALCBLKSZ] 0;
              devp \<leftarrow> del_buf kmem devp;
              Some (b, devp)
            }))"

definition test_rfs_rootdir :: "(int \<Rightarrow> bool) \<Rightarrow> rfsdevext_t \<Rightarrow> rfsdevext_t option" where
  "test_rfs_rootdir kmem devp = do {
     (rt, devp) \<leftarrow> get_rootdir kmem devp;
     (case new_buf kmem devp of (ok, devp) \<Rightarrow>
        if \<not> ok then hal_sysdie ''testdir err''
        else (case rt of None \<Rightarrow> None
          | Some dr \<Rightarrow>
              (case read_rfsdevblk devp (rd64 (rdr_blknr 0) dr) of
                 None \<Rightarrow> hal_sysdie ''testdir1 err1''
               | Some buf \<Rightarrow> do { devp \<leftarrow> del_buf kmem devp; del_rootdir kmem devp })))
   }"

text \<open>The path \<open>/testfile\<close>.\<close>

definition testfile :: bytes where
  "testfile i = (if i < 9 then [0x2f, 0x74, 0x65, 0x73, 0x74, 0x66, 0x69, 0x6c, 0x65] ! i else 0)"

definition test_fsys :: "(int \<Rightarrow> bool) \<Rightarrow> rfsdevext_t \<Rightarrow> rfsdevext_t option" where
  "test_fsys kmem devp =
     (case new_buf kmem devp of (ok, devp) \<Rightarrow>
        if \<not> ok then hal_sysdie ''rwbuf is NULL''
        else (case krlnew_objnode kmem devp of
            (None, devp) \<Rightarrow> hal_sysdie ''ondp is NULL''
          | (Some ondp, devp) \<Rightarrow> do {
              let ondp = ondp\<lparr>on_acsflgs := FSDEV_OPENFLG_NEWFILE, on_fname := Some testfile,
                on_buf := Some (\<lambda>_. 0xff), on_bufsz := FSYS_ALCBLKSZ, on_len := 512, on_ioctrd := FSDEV_IOCTRCD_DELFILE\<rparr>;
              (st, ondp, devp) \<leftarrow> rfs_open kmem ondp devp;
              if st = DFCERRSTUS then hal_sysdie ''new file error''
              else do {
                let ondp = ondp\<lparr>on_acsflgs := FSDEV_OPENFLG_OPEFILE\<rparr>;
                (st, ondp, devp) \<leftarrow> rfs_open kmem ondp devp;
                if st = DFCERRSTUS then hal_sysdie ''open file error''
                else do {
                  (st, ondp, devp) \<leftarrow> rfs_write_file ondp devp;
                  if st = DFCERRSTUS then hal_sysdie ''write file error''
                  else do {
                    let ondp = ondp\<lparr>on_buf := Some (\<lambda>_. 0)\<rparr>;
                    let (st, ondp) = rfs_read_file ondp;
                    if st = DFCERRSTUS then hal_sysdie ''read file error''
                    else do {
                      (st, devp) \<leftarrow> rfs_close_file kmem ondp devp;
                      if st = DFCERRSTUS then hal_sysdie ''close file error''
                      else if \<not> list_all (\<lambda>i. the (on_buf ondp) i = 0xff) [0..<512] then hal_sysdie ''check file content error''
                      else do {
                        (st, devp) \<leftarrow> rfs_ioctrl kmem ondp devp;
                        if st = DFCERRSTUS then hal_sysdie ''delete file error''
                        else do {
                          let ondp = ondp\<lparr>on_acsflgs := FSDEV_OPENFLG_OPEFILE\<rparr>;
                          (st, ondp, devp) \<leftarrow> rfs_open kmem ondp devp;
                          Some devp
                        }
                      }
                    }
                  }
                }
              }
            }))"

definition rfs_entry_start :: "(int \<Rightarrow> bool) \<Rightarrow> rfsdevext_t \<Rightarrow> rfsdevext_t option" where
  "rfs_entry_start kmem devp = do {
     devp \<leftarrow> init_rfs kmem devp;
     devp \<leftarrow> test_rfs_superblk kmem devp;
     (b, devp) \<leftarrow> test_rfs_bitmap kmem devp;
     devp \<leftarrow> test_rfs_rootdir kmem devp;
     test_fsys kmem devp
   }"

end
