(* ===== verification/Rfs_Basic.thy ===== *)
theory Rfs_Basic
  imports Rfs
begin

text \<open>
  The file system's access to its device: blocks by number, the superblock, the map of
  blocks, names, and the search in the directory, when buffers are available.
\<close>

section \<open>Blocks by number\<close>

abbreviation avail :: "int \<Rightarrow> bool" where "avail \<equiv> \<lambda>_. True"

definition dev_ok :: "nat \<Rightarrow> rfsdevext_t \<Rightarrow> bool" where
  "dev_ok M d \<longleftrightarrow> rde_msize d = of_nat (4096 * M) \<and> M \<le> 4096 \<and> unat (rde_mstart d) + 4096 * M < 2 ^ 64"

definition blkaddr :: "rfsdevext_t \<Rightarrow> nat \<Rightarrow> u64" where
  "blkaddr d n = rde_mstart d + of_nat (4096 * n)"

definition blk_at :: "rfsdevext_t \<Rightarrow> nat \<Rightarrow> bytes" where
  "blk_at d n = rde_mem d (blkaddr d n)"

definition put_blk :: "nat \<Rightarrow> bytes \<Rightarrow> rfsdevext_t \<Rightarrow> rfsdevext_t" where
  "put_blk n b d = d\<lparr>rde_mem := (rde_mem d)(blkaddr d n := b)\<rparr>"

text \<open>\<open>k\<close> more calls for memory and \<open>l\<close> more buffers in use.\<close>

definition tick :: "int \<Rightarrow> int \<Rightarrow> rfsdevext_t \<Rightarrow> rfsdevext_t" where
  "tick k l d = d\<lparr>kmem_calls := kmem_calls d + k, kmem_live := kmem_live d + l\<rparr>"

lemma blkaddr_unat: "dev_ok M d \<Longrightarrow> n < M \<Longrightarrow> unat (blkaddr d n) = unat (rde_mstart d) + 4096 * n"
proof -
  assume d: "dev_ok M d" and n: "n < M"
  have "4096 * n < 2 ^ 64" "unat (rde_mstart d) + 4096 * n < 2 ^ 64" using d n by (auto simp: dev_ok_def)
  then show ?thesis unfolding blkaddr_def by (simp add: unat_word_ariths unat_of_nat del: of_nat_mult)
qed

lemma blkaddr_inj: "dev_ok M d \<Longrightarrow> n < M \<Longrightarrow> m < M \<Longrightarrow> blkaddr d n = blkaddr d m \<longleftrightarrow> n = m"
proof -
  assume d: "dev_ok M d" "n < M" "m < M"
  have "n = m" if "blkaddr d n = blkaddr d m"
  proof -
    have "unat (rde_mstart d) + 4096 * n = unat (rde_mstart d) + 4096 * m"
      using blkaddr_unat [OF d(1,2)] blkaddr_unat [OF d(1,3)] that by (simp only:)
    then show ?thesis by simp
  qed
  then show ?thesis by blast
qed

lemma tick_sel [simp]:
  "rde_mstart (tick k l d) = rde_mstart d" "rde_msize (tick k l d) = rde_msize d" "rde_mem (tick k l d) = rde_mem d"
  "blkaddr (tick k l d) n = blkaddr d n" "blk_at (tick k l d) n = blk_at d n" "dev_ok M (tick k l d) = dev_ok M d"
  "kmem_live (tick k l d) = kmem_live d + l"
  by (simp_all add: tick_def blkaddr_def blk_at_def dev_ok_def)

lemma tick_tick [simp]: "tick k l (tick k' l' d) = tick (k' + k) (l' + l) d"
  by (simp add: tick_def add.assoc)

lemma tick_put [simp]: "put_blk n b (tick k l d) = tick k l (put_blk n b d)"
  by (simp add: put_blk_def tick_def blkaddr_def)

lemma tick_0 [simp]: "tick 0 0 d = d"
  by (simp add: tick_def)

lemma put_blk_sel [simp]:
  "rde_mstart (put_blk n b d) = rde_mstart d" "rde_msize (put_blk n b d) = rde_msize d"
  "blkaddr (put_blk n b d) m = blkaddr d m" "dev_ok M (put_blk n b d) = dev_ok M d"
  "kmem_live (put_blk n b d) = kmem_live d" "blk_at (put_blk n b d) n = b"
  by (simp_all add: put_blk_def blkaddr_def dev_ok_def blk_at_def)

lemma blk_put: "dev_ok M d \<Longrightarrow> n < M \<Longrightarrow> m < M \<Longrightarrow> blk_at (put_blk n b d) m = (if m = n then b else blk_at d m)"
  using blkaddr_inj [of M d m n] by (simp add: put_blk_def blk_at_def blkaddr_def)

lemma put_same [simp]: "put_blk n (blk_at d n) d = d" "put_blk n b (put_blk n c d) = put_blk n b d"
  by (simp_all add: put_blk_def blk_at_def blkaddr_def)

lemma ret_blk: "dev_ok M d \<Longrightarrow> n < M \<Longrightarrow> ret_rfsdevblk d (of_nat n) = Some (blkaddr d n)"
proof -
  assume d: "dev_ok M d" and n: "n < M"
  have a: "rde_mstart d + of_nat n * FSYS_ALCBLKSZ = blkaddr d n" by (simp add: blkaddr_def FSYS_ALCBLKSZ_def mult.commute)
  have "unat (rde_mstart d + rde_msize d) = unat (rde_mstart d) + 4096 * M"
    using d by (auto simp: dev_ok_def unat_word_ariths unat_of_nat simp del: of_nat_mult)
  then have "\<not> blkaddr d n \<ge> rde_mstart d + rde_msize d"
    using blkaddr_unat [OF d n] n by (simp add: word_le_nat_alt)
  then show ?thesis by (simp add: ret_rfsdevblk_def Let_def a)
qed

lemma read_blk: "dev_ok M d \<Longrightarrow> n < M \<Longrightarrow> read_rfsdevblk d (of_nat n) = Some (blk_at d n)"
  by (simp add: read_rfsdevblk_def ret_blk blk_at_def)

lemma write_blk: "dev_ok M d \<Longrightarrow> n < M \<Longrightarrow> write_rfsdevblk d b (of_nat n) = (DFCOKSTUS, put_blk n b d)"
  by (simp add: write_rfsdevblk_def ret_blk put_blk_def)

lemma new_buf_avail [simp]: "new_buf avail d = (True, tick 1 1 d)"
  by (simp add: new_buf_def tick_def)

lemma del_buf_avail [simp]: "del_buf avail d = Some (tick 1 (-1) d)"
  by (simp add: del_buf_def tick_def)

section \<open>Superblock and map of blocks\<close>

text \<open>What the superblock says: the map is in block 1, the root directory in block \<open>r\<close>.\<close>

definition sup_ok :: "nat \<Rightarrow> nat \<Rightarrow> rfsdevext_t \<Rightarrow> bool" where
  "sup_ok M r d \<longleftrightarrow> dev_ok M d \<and> 2 \<le> r \<and> r < M \<and> rd64 rsb_bmpbks (blk_at d 0) = 1 \<and>
     rd64 (rdr_blknr rsb_rootdir) (blk_at d 0) = of_nat r"

lemma get_superblk_ok: "dev_ok M d \<Longrightarrow> 0 < M \<Longrightarrow> get_superblk avail d = Some (Some (blk_at d 0), tick 1 1 d)"
  using read_blk [of M "tick 1 1 d" 0] by (simp add: get_superblk_def)

lemma del_superblk_ok: "dev_ok M d \<Longrightarrow> 0 < M \<Longrightarrow> del_superblk avail b d = Some (tick 1 (-1) (put_blk 0 b d))"
  using write_blk [of M d 0] by (simp add: del_superblk_def)

lemma get_bitmapblk_ok:
  assumes "dev_ok M d" and "1 < M" and "rd64 rsb_bmpbks (blk_at d 0) = 1"
  shows "get_bitmapblk avail d = Some (Some (blk_at d 1), tick 3 1 d)"
  using assms get_superblk_ok [of M d] del_superblk_ok [of M "tick 2 2 d" "blk_at d 0"] read_blk [of M "tick 2 2 d" 1]
  by (simp add: get_bitmapblk_def)

lemma del_bitmapblk_ok:
  assumes "dev_ok M d" and "1 < M" and "rd64 rsb_bmpbks (blk_at d 0) = 1"
  shows "del_bitmapblk avail b d = Some (tick 3 (-1) (put_blk 1 b d))"
proof -
  have z: "blk_at (put_blk 1 b d) 0 = blk_at d 0" using assms(1,2) by (simp add: blk_put)
  show ?thesis
    using assms get_superblk_ok [of M d] del_superblk_ok [of M "tick 1 1 (put_blk 1 b d)" "blk_at d 0"]
      write_blk [of M "tick 1 1 d" 1 b] put_same(1) [of 0 "put_blk 1 b d"] unfolding z
    by (simp add: del_bitmapblk_def)
qed

lemma sup_okD:
  assumes "sup_ok M r d"
  shows "dev_ok M d" "2 \<le> r" "r < M" "1 < M" "0 < M" "rd64 rsb_bmpbks (blk_at d 0) = 1"
    "rd64 (rdr_blknr rsb_rootdir) (blk_at d 0) = of_nat r"
  using assms by (auto simp: sup_ok_def)

lemma sup_ok_tick [simp]: "sup_ok M r (tick k l d) = sup_ok M r d"
  by (simp add: sup_ok_def)

lemma sup_ok_put [simp]: "sup_ok M r d \<Longrightarrow> 0 < n \<Longrightarrow> n < M \<Longrightarrow> sup_ok M r (put_blk n b d)"
  by (auto simp: sup_ok_def blk_put)

text \<open>The free blocks.\<close>

definition free_blks :: "rfsdevext_t \<Rightarrow> nat set" where
  "free_blks d = {b. 2 \<le> b \<and> b < 4096 \<and> blk_at d 1 b = 0}"

lemma free_blks_tick [simp]: "free_blks (tick k l d) = free_blks d"
  by (simp add: free_blks_def)

lemma free_blks_finite [simp]: "finite (free_blks d)"
  by (rule finite_subset [of _ "{..<4096}"]) (auto simp: free_blks_def)

lemma free_blks_put:
  "sup_ok M r d \<Longrightarrow> n < M \<Longrightarrow> n \<noteq> 1 \<Longrightarrow> free_blks (put_blk n b d) = free_blks d"
  using blk_put [of M d n 1 b] by (simp add: free_blks_def sup_ok_def)

lemma free_blks_take: "free_blks (put_blk 1 ((blk_at d 1)(b := 1)) d) = free_blks d - {b}"
  by (auto simp: free_blks_def)

lemma free_blks_give: "2 \<le> b \<Longrightarrow> b < 4096 \<Longrightarrow> free_blks (put_blk 1 ((blk_at d 1)(b := 0)) d) = insert b (free_blks d)"
  by (auto simp: free_blks_def)

lemma find_least:
  "find P [m..<n] = (if \<exists>b. m \<le> b \<and> b < n \<and> P b then Some (LEAST b. m \<le> b \<and> b < n \<and> P b) else None)"
proof (cases "find P [m..<n]")
  case None
  then show ?thesis by (auto simp: find_None_iff)
next
  case (Some b)
  then obtain i where i: "i < n - m" "P (m + i)" "b = m + i" "\<forall>j < i. \<not> P (m + j)" by (auto simp: find_Some_iff)
  have "(LEAST b. m \<le> b \<and> b < n \<and> P b) = m + i"
  proof (rule Least_equality)
    show "m + i \<le> y" if y: "m \<le> y \<and> y < n \<and> P y" for y
    proof (rule ccontr)
      assume "\<not> m + i \<le> y"
      then have "y - m < i" "m + (y - m) = y" using y by auto
      then show False using i(4) y by metis
    qed
  qed (use i in auto)
  moreover have "\<exists>b. m \<le> b \<and> b < n \<and> P b" using i by (intro exI [of _ "m + i"]) auto
  ultimately show ?thesis using Some i by simp
qed

lemma rfs_new_blk_ok:
  assumes s: "sup_ok M r d"
  shows "rfs_new_blk avail d =
    (if free_blks d = {} then Some (0, tick 6 0 d)
     else Some (of_nat (Min (free_blks d)), tick 6 0 (put_blk 1 ((blk_at d 1)(Min (free_blks d) := 1)) d)))"
proof -
  note o = sup_okD [OF s]
  have F: "free_blks d = {b. 2 \<le> b \<and> b < 4096 \<and> blk_at d 1 b = 0}" by (simp add: free_blks_def)
  have f: "find (\<lambda>b. blk_at d 1 b = 0) [2..<4096] = (if free_blks d = {} then None else Some (Min (free_blks d)))"
  proof (cases "free_blks d = {}")
    case True
    then show ?thesis unfolding find_least F by auto
  next
    case False
    then have "Min (free_blks d) = (LEAST b. b \<in> free_blks d)"
      by (intro Least_equality [symmetric]) (simp_all add: Min_in)
    then show ?thesis using False unfolding find_least F by auto
  qed
  have u: "unat FSYS_ALCBLKSZ = 4096" by (simp add: FSYS_ALCBLKSZ_def)
  show ?thesis
    using get_bitmapblk_ok [OF o(1,4,6)] del_bitmapblk_ok [of M "tick 3 1 d"] o f
    by (simp add: rfs_new_blk_def u del: upt_rec_numeral)
qed

lemma rfs_del_blk_ok:
  assumes s: "sup_ok M r d" and b: "b < 4096"
  shows "rfs_del_blk avail (of_nat b) d = Some (tick 6 0 (put_blk 1 ((blk_at d 1)(b := 0)) d))"
proof -
  note o = sup_okD [OF s]
  have u: "unat (of_nat b :: u64) = b" using b by (simp add: unat_of_nat)
  then have "\<not> of_nat b > FSYS_ALCBLKSZ" using b by (simp add: word_less_nat_alt FSYS_ALCBLKSZ_def)
  moreover have "unat (of_nat b :: u64) < unat FSYS_ALCBLKSZ" using b u by (simp add: FSYS_ALCBLKSZ_def)
  ultimately show ?thesis using get_bitmapblk_ok [OF o(1,4,6)] del_bitmapblk_ok [of M "tick 3 1 d"] o u
    by (simp add: rfs_del_blk_def)
qed

section \<open>The block of the root directory\<close>

lemma rd64_memcpy_in:
  "doff \<le> off \<Longrightarrow> off + 8 \<le> doff + n \<Longrightarrow> rd64 off (hal_memcpy soff src doff dst n) = rd64 (soff + (off - doff)) src"
proof (rule bit_word_eqI)
  fix k assume a: "doff \<le> off" "off + 8 \<le> doff + n" and "k < LENGTH(64)"
  then have "k div 8 < 8" by simp
  then have "hal_memcpy soff src doff dst n (off + k div 8) = src (soff + (off - doff) + k div 8)"
    using a by (simp add: hal_memcpy_def add.assoc)
  then show "bit (rd64 off (hal_memcpy soff src doff dst n)) k = bit (rd64 (soff + (off - doff)) src) k"
    by (simp add: bit_rd64)
qed

lemma get_rootdirfile_ok:
  assumes s: "sup_ok M r d"
  shows "get_rootdirfile_blk avail d = Some (Some (blk_at d r), tick 5 1 d)"
proof -
  note o = sup_okD [OF s]
  let ?rt = "hal_memcpy rsb_rootdir (blk_at d 0) 0 zero_blk sizeof_rfsdir_t"
  have "get_rootdir avail d = Some (Some ?rt, tick 3 1 d)"
    using get_superblk_ok [OF o(1,5)] del_superblk_ok [of M "tick 2 2 d" "blk_at d 0"] o by (simp add: get_rootdir_def)
  moreover have "rd64 (rdr_blknr 0) ?rt = of_nat r"
    using o(7) rd64_memcpy_in [of 0 "rdr_blknr 0" sizeof_rfsdir_t rsb_rootdir "blk_at d 0" zero_blk]
    by (simp add: rdr_offsets)
  ultimately show ?thesis using read_blk [of M "tick 4 2 d" r] o by (simp add: get_rootdirfile_blk_def del_rootdir_def)
qed

lemma del_rootdirfile_ok:
  assumes "dev_ok M d" and "r < M" and "rd64 fmd_sfblk b = of_nat r"
  shows "del_rootdirfile_blk avail b d = Some (tick 1 (-1) (put_blk r b d))"
  using assms write_blk [of M d r b] by (simp add: del_rootdirfile_blk_def)

section \<open>Names\<close>

lemma strcmp_from:
  assumes "str_at (\<lambda>j. s (i + j)) xs" and "str_at (\<lambda>j. t (i + j)) ys"
  shows "rfs_strcmp s t i = Some (if xs = ys then 1 else 0)"
  using assms
proof (induction xs arbitrary: i ys)
  case Nil
  then show ?case by (cases ys) (auto simp: rfs_strcmp.simps [of s t i] str_at_Cons)
next
  case (Cons x xs)
  then have x: "s i = x" "x \<noteq> 0" "str_at (\<lambda>j. s (Suc i + j)) xs" by (simp_all add: str_at_Cons)
  show ?case
  proof (cases ys)
    case Nil
    then show ?thesis using x Cons.prems(2) by (simp add: rfs_strcmp.simps [of s t i])
  next
    case (Cons y zs)
    then have y: "t i = y" "str_at (\<lambda>j. t (Suc i + j)) zs" using Cons.prems by (simp_all add: str_at_Cons)
    show ?thesis using x y(1) Cons.IH [OF x(3) y(2)] Cons by (simp add: rfs_strcmp.simps [of s t i])
  qed
qed

lemma strlen_from: "str_at (\<lambda>j. s (i + j)) xs \<Longrightarrow> rfs_strlen s i = Some (i + length xs)"
proof (induction xs arbitrary: i)
  case (Cons x xs)
  then have "s i \<noteq> 0" "str_at (\<lambda>j. s (Suc i + j)) xs" by (simp_all add: str_at_Cons)
  then show ?case using Cons.IH [of "Suc i"] by (simp add: rfs_strlen.simps [of s i])
qed (simp add: rfs_strlen.simps)

lemma strcpy_from:
  assumes "str_at (\<lambda>j. s (i + j)) xs"
  shows "rfs_strcpy s off d i = Some (i + length xs, hal_memcpy i s (off + i) d (Suc (length xs)))"
  using assms
proof (induction xs arbitrary: i d)
  case Nil
  then have "hal_memcpy i s (off + i) d (Suc (length [])) = d(off + i := 0)"
    by (auto simp: hal_memcpy_def fun_eq_iff le_less_Suc_eq)
  then show ?case using Nil by (simp add: rfs_strcpy.simps [of s off d i] fun_upd_def)
next
  case (Cons x xs)
  then have x: "s i \<noteq> 0" "str_at (\<lambda>j. s (Suc i + j)) xs" by (simp_all add: str_at_Cons)
  have "hal_memcpy (Suc i) s (off + Suc i) (d(off + i := s i)) (Suc (length xs)) = hal_memcpy i s (off + i) d (Suc (length (x # xs)))"
    by (auto simp: hal_memcpy_def fun_eq_iff not_less_eq_eq le_antisym intro!: arg_cong [of _ _ s])
  then show ?case using x Cons.IH [OF x(2), of "d(off + i := s i)"] by (simp add: rfs_strcpy.simps [of s off d i] fun_upd_def)
qed

text \<open>Names of files: not empty, without a slash, at most 102 bytes.\<close>

definition valid_name :: "u8 list \<Rightarrow> bool" where
  "valid_name xs \<longleftrightarrow> xs \<noteq> [] \<and> 0x2f \<notin> set xs \<and> length xs \<le> 102"

lemma chk_from:
  assumes "str_at (\<lambda>j. s (i + j)) xs" and "i + n = 104" and "1 < i \<or> 0 < i \<and> xs \<noteq> []"
  shows "chkfilepath_from s i n = 0 \<longleftrightarrow> 0x2f \<notin> set xs \<and> i + length xs \<le> 103"
  using assms
proof (induction xs arbitrary: i n)
  case Nil
  then show ?case by (cases n) auto
next
  case (Cons x xs)
  then have x: "s i = x" "x \<noteq> 0" "str_at (\<lambda>j. s (Suc i + j)) xs" by (simp_all add: str_at_Cons)
  show ?case
  proof (cases n)
    case 0
    then show ?thesis using Cons.prems by simp
  next
    case (Suc m)
    have "1 < Suc i \<or> 0 < Suc i \<and> xs \<noteq> []" using Cons.prems(3) by auto
    then show ?thesis using x Suc Cons.prems(2) Cons.IH [OF x(3), of m] by auto
  qed
qed

lemma ret_fname_ok:
  assumes p: "str_at fpath (0x2f # xs)" and v: "valid_name xs"
  shows "\<exists>fne. rfs_ret_fname zero_blk fpath = Some (0, fne) \<and> str_at fne xs"
proof -
  have s: "fpath 0 = 0x2f" "str_at (\<lambda>j. fpath (1 + j)) xs" using p by (simp_all add: str_at_Cons)
  have "rfs_chkfilepath fpath = 0"
    using chk_from [OF s(2), of 103] v s(1) by (simp add: rfs_chkfilepath_def DR_NM_MAX_def valid_name_def)
  moreover have "str_at (\<lambda>j. (\<lambda>i. fpath (Suc i)) (0 + j)) xs" using s(2) by simp
  note strcpy_from [OF this, of 0 zero_blk]
  moreover have "str_at (hal_memcpy 0 (\<lambda>i. fpath (Suc i)) (0 + 0) zero_blk (Suc (length xs))) xs"
    using s(2) by (subst str_at_cong [where t = "\<lambda>j. fpath (1 + j)"]) (simp_all add: hal_memcpy_def)
  ultimately show ?thesis by (simp add: rfs_ret_fname_def)
qed

lemma ret_fname_bad:
  assumes p: "str_at fpath (0x2f # xs)" and v: "\<not> valid_name xs" "xs \<noteq> []"
  shows "\<exists>st. st \<noteq> 0 \<and> rfs_ret_fname zero_blk fpath = Some (st, zero_blk)"
proof -
  have s: "fpath 0 = 0x2f" "str_at (\<lambda>j. fpath (1 + j)) xs" using p by (simp_all add: str_at_Cons)
  have "rfs_chkfilepath fpath \<noteq> 0"
    using chk_from [OF s(2), of 103] v s(1) by (auto simp: rfs_chkfilepath_def DR_NM_MAX_def valid_name_def)
  then show ?thesis by (simp add: rfs_ret_fname_def)
qed

section \<open>The directory\<close>

text \<open>The 28 entries of the directory's block.\<close>

definition ent :: "nat \<Rightarrow> nat" where "ent k = 0x200 + 128 * k"

definition ent_file :: "bytes \<Rightarrow> nat \<Rightarrow> bool" where
  "ent_file D k \<longleftrightarrow> rd64 (rdr_type (ent k)) D = RDR_FIL_TYPE"

definition ent_name :: "bytes \<Rightarrow> nat \<Rightarrow> u8 list \<Rightarrow> bool" where
  "ent_name D k xs \<longleftrightarrow> str_at (\<lambda>i. D (rdr_name (ent k) + i)) xs"

lemma dir_find_from:
  assumes "str_at fne xs" and "\<And>k. j \<le> k \<Longrightarrow> k < 28 \<Longrightarrow> ent_file D k \<Longrightarrow> ent_name D k (nm k)" and "j \<le> 28"
  shows "dir_find D fne (ent j) = Some (map_option ent (find (\<lambda>k. ent_file D k \<and> nm k = xs) [j..<28]))"
  using assms(2,3)
proof (induction "28 - j" arbitrary: j)
  case 0
  then show ?case by (simp add: dir_find.simps [of D fne] ent_def FSYS_ALCBLKSZ_def)
next
  case (Suc m)
  then have j: "j < 28" by simp
  then have l: "ent j < unat FSYS_ALCBLKSZ - 1" by (simp add: ent_def FSYS_ALCBLKSZ_def)
  have nx: "ent j + sizeof_rfsdir_t = ent (Suc j)" by (simp add: ent_def sizeof_rfsdir_t_def)
  have u: "[j..<28] = j # [Suc j..<28]" using j by (simp add: upt_conv_Cons)
  have m: "m = 28 - Suc j" "Suc j \<le> 28" using Suc.hyps(2) j by simp_all
  have "ent_name D k (nm k)" if "Suc j \<le> k" "k < 28" "ent_file D k" for k using Suc.prems(1) that by simp
  note ih = Suc.hyps(1) [OF m(1) this m(2)]
  show ?case
  proof (cases "ent_file D j")
    case True
    then have "str_at (\<lambda>i. D (rdr_name (ent j) + (0 + i))) (nm j)" using Suc.prems(1) [of j] j by (simp add: ent_name_def)
    moreover have "str_at (\<lambda>i. fne (0 + i)) xs" using assms(1) by simp
    ultimately have "rfs_strcmp (\<lambda>i. D (rdr_name (ent j) + i)) fne 0 = Some (if nm j = xs then 1 else 0)"
      by (rule strcmp_from)
    then show ?thesis using True l nx ih u by (subst dir_find.simps) (simp add: ent_file_def)
  next
    case False
    then show ?thesis using l nx ih u by (subst dir_find.simps) (simp add: ent_file_def)
  qed
qed

end
