(* ===== verification/Rfs_Props.thy ===== *)
theory Rfs_Props
  imports Rfs_Basic
begin

text \<open>
  The invariant of the file system and what formatting, making, deleting, opening, writing,
  reading and closing files do to it. The abstract state is a map from names to contents.
\<close>

section \<open>Headers\<close>

definition hdr_ok :: "u64 \<Rightarrow> nat \<Rightarrow> bytes \<Rightarrow> bool" where
  "hdr_ok ty b D \<longleftrightarrow> rd64 fmd_type D = ty \<and> rd64 fmd_sfblk D = of_nat b \<and> rd64 fmd_curfwritebk D = of_nat b \<and>
     rd64 (fb_blkstart 0) D = of_nat b \<and> rd64 fmd_fileifstbkoff D = 0x200"

lemma wr64_zero_id: "(\<And>i. off \<le> i \<Longrightarrow> i < off + 8 \<Longrightarrow> b i = 0) \<Longrightarrow> wr64 off 0 b = b"
  by (auto simp: wr64_def fun_eq_iff)

lemma fimgrhd_zero: "fimgrhd_t_init zero_blk = wr64 fmd_fileifstbkoff 0x200 zero_blk"
proof -
  let ?b = "wr64 fmd_fileifstbkoff 0x200 zero_blk"
  have z: "wr64 off 0 ?b = ?b" if "80 \<le> off" for off
    using that by (intro wr64_zero_id) (simp add: fmd_offsets)
  have "filblks_t_init i ?b = ?b" for i by (simp add: filblks_t_init_def z fmd_offsets(14,15))
  then have "fold filblks_t_init l ?b = ?b" for l by (induction l) simp_all
  then show ?thesis unfolding fimgrhd_t_init_def Let_def
    by (simp add: z fmd_offsets(11-13,16,17) FMD_NUL_TYPE_def)
qed

lemma new_header_ok:
  "hdr_ok ty b (new_header ty (of_nat b))" "rd64 fmd_curfinwbkoff (new_header ty blk) = 0x200"
  "rd64 fmd_filesz (new_header ty blk) = 0" "120 \<le> i \<Longrightarrow> new_header ty blk i = 0"
  by (simp_all add: hdr_ok_def new_header_def Let_def fimgrhd_zero fmd_offsets)

lemma hdr_ok_cong:
  assumes "hdr_ok ty b D" and "\<And>i. i < 112 \<Longrightarrow> \<not> (64 \<le> i \<and> i < 72) \<Longrightarrow> \<not> (96 \<le> i \<and> i < 104) \<Longrightarrow> E i = D i"
  shows "hdr_ok ty b E"
proof -
  have "rd64 off E = rd64 off D" if "off + 8 \<le> 64 \<or> 72 \<le> off \<and> off + 8 \<le> 96 \<or> off = 104" for off
    using that by (intro rd64_cong assms(2)) auto
  then show ?thesis using assms(1) by (simp add: hdr_ok_def fmd_offsets)
qed

section \<open>The directory block\<close>

type_synonym entry = "(nat \<times> u8 list) option"

definition ent_ok :: "bytes \<Rightarrow> nat \<Rightarrow> entry \<Rightarrow> bool" where
  "ent_ok D k e = (case e of None \<Rightarrow> \<not> ent_file D k
     | Some (b, xs) \<Rightarrow> ent_file D k \<and> rd64 (rdr_blknr (ent k)) D = of_nat b \<and> ent_name D k xs \<and> length xs \<le> 103)"

definition dir_ok :: "bytes \<Rightarrow> nat \<Rightarrow> entry list \<Rightarrow> bool" where
  "dir_ok D r es \<longleftrightarrow> hdr_ok FMD_DIR_TYPE r D \<and> rd64 fmd_curfinwbkoff D = of_nat (ent (length es)) \<and> length es \<le> 28 \<and>
     (\<forall>k < 28. ent_ok D k (if k < length es then es ! k else None))"

lemma dir_ok_ent:
  assumes "dir_ok D r es" and "k < length es"
  shows "ent_ok D k (es ! k)"
proof -
  have "k < 28" using assms by (simp add: dir_ok_def)
  then have "ent_ok D k (if k < length es then es ! k else None)" using assms(1) unfolding dir_ok_def by blast
  then show ?thesis using assms(2) by simp
qed

lemma ent_ok_cong:
  assumes "\<And>i. ent k \<le> i \<Longrightarrow> i < ent k + 128 \<Longrightarrow> E i = D i"
  shows "ent_ok E k e = ent_ok D k e"
proof -
  have r: "rd64 (rdr_type (ent k)) E = rd64 (rdr_type (ent k)) D" "rd64 (rdr_blknr (ent k)) E = rd64 (rdr_blknr (ent k)) D"
    by (intro rd64_cong assms; simp add: rdr_offsets)+
  have "ent_name E k xs = ent_name D k xs" if "length xs \<le> 103" for xs
    unfolding ent_name_def using that by (intro str_at_cong assms) (simp_all add: rdr_offsets)
  then show ?thesis using r by (auto simp: ent_ok_def ent_file_def split: option.splits)
qed

lemma unat_ent: "n \<le> 28 \<Longrightarrow> unat (of_nat (ent n) :: u64) = ent n"
  by (simp add: ent_def unat_of_nat del: of_nat_add of_nat_mult)

lemma dir_ok_curoff: "dir_ok D r es \<Longrightarrow> unat (rd64 fmd_curfinwbkoff D) = ent (length es)"
  by (simp add: dir_ok_def unat_ent)

lemma find_app: "find P (xs @ ys) = (case find P xs of None \<Rightarrow> find P ys | Some x \<Rightarrow> Some x)"
  by (induction xs) auto

lemma dir_empty_iff: "dir_ok D r es \<Longrightarrow> dir_empty D \<longleftrightarrow> es = []"
proof -
  assume d: "dir_ok D r es"
  then have "dir_empty D \<longleftrightarrow> unat (rd64 fmd_curfinwbkoff D) = 0x200"
    by (auto simp: dir_empty_def dir_ok_def hdr_ok_def word_unat_eq_iff)
  then show ?thesis unfolding dir_ok_curoff [OF d] by (auto simp: ent_def)
qed

text \<open>The position of a name.\<close>

definition has_name :: "u8 list \<Rightarrow> entry \<Rightarrow> bool" where
  "has_name xs e \<longleftrightarrow> (\<exists>b. e = Some (b, xs))"

lemma dir_find_ok:
  assumes d: "dir_ok D r es" and f: "str_at fne xs"
  shows "dir_find D fne 0x200 = Some (map_option ent (find (\<lambda>k. has_name xs (es ! k)) [0..<length es]))"
proof -
  define nm where "nm k = (case es ! k of Some (b, ys) \<Rightarrow> ys | None \<Rightarrow> [])" for k
  have e: "ent_ok D k (if k < length es then es ! k else None)" if "k < 28" for k using d that by (simp add: dir_ok_def)
  have "ent_name D k (nm k)" if "0 \<le> k" "k < 28" "ent_file D k" for k
    using e [OF that(2)] that(3) by (auto simp: ent_ok_def nm_def split: option.splits if_splits)
  from dir_find_from [OF f this] have r: "dir_find D fne (ent 0) =
      Some (map_option ent (find (\<lambda>k. ent_file D k \<and> nm k = xs) [0..<28]))" by simp
  have l: "length es \<le> 28" using d by (simp add: dir_ok_def)
  have i: "ent_file D k \<and> nm k = xs \<longleftrightarrow> has_name xs (es ! k)" if "k < length es" for k
    using e [of k] that l by (auto simp: ent_ok_def nm_def has_name_def split: option.splits)
  have o: "\<not> ent_file D k" if "length es \<le> k" "k < 28" for k using e [OF that(2)] that by (simp add: ent_ok_def)
  have up: "[0..<28] = [0..<length es] @ [length es..<28]" using l upt_add_eq_append [of 0 "length es" "28 - length es"] by simp
  have "find (\<lambda>k. ent_file D k \<and> nm k = xs) [0..<28] = find (\<lambda>k. has_name xs (es ! k)) [0..<length es]"
  proof -
    have "find (\<lambda>k. ent_file D k \<and> nm k = xs) [0..<length es] = find (\<lambda>k. has_name xs (es ! k)) [0..<length es]"
      using i by (intro find_cong) auto
    moreover have "find (\<lambda>k. ent_file D k \<and> nm k = xs) [length es..<28] = None" using o by (auto simp: find_None_iff)
    ultimately show ?thesis unfolding up by (simp add: find_app split: option.split)
  qed
  then show ?thesis using r by (simp add: ent_def)
qed

section \<open>Adding and deleting entries\<close>

text \<open>The directory block with a new entry at offset \<open>e\<close>.\<close>

definition dir_add :: "nat \<Rightarrow> u64 \<Rightarrow> bytes \<Rightarrow> nat \<Rightarrow> bytes \<Rightarrow> bytes" where
  "dir_add e blk fne n D =
     (let D = hal_memcpy 0 fne (rdr_name e) (wr64 (rdr_blknr e) blk (wr64 (rdr_type e) RDR_FIL_TYPE (wr64 (rdr_stus e) 0 D))) (Suc n);
          D = wr64 fmd_filesz (rd64 fmd_filesz D + of_nat sizeof_rfsdir_t) D
      in wr64 fmd_curfinwbkoff (rd64 fmd_curfinwbkoff D + of_nat sizeof_rfsdir_t) D)"

lemma dir_add_outside:
  assumes "i < e \<or> e + 128 \<le> i" and "i < 64 \<or> 72 \<le> i" and "i < 96 \<or> 104 \<le> i" and "n \<le> 103"
  shows "dir_add e blk fne n D i = D i"
  using assms by (auto simp: dir_add_def Let_def hal_memcpy_def rdr_offsets fmd_offsets)

lemma dir_add_entry:
  assumes e: "112 \<le> e" and n: "n \<le> 103"
  shows "rd64 (rdr_type e) (dir_add e blk fne n D) = RDR_FIL_TYPE" "rd64 (rdr_blknr e) (dir_add e blk fne n D) = blk"
    "i \<le> n \<Longrightarrow> dir_add e blk fne n D (rdr_name e + i) = fne i"
    "rd64 fmd_curfinwbkoff (dir_add e blk fne n D) = rd64 fmd_curfinwbkoff D + 128"
    "rd64 fmd_filesz (dir_add e blk fne n D) = rd64 fmd_filesz D + 128"
proof -
  let ?D = "wr64 (rdr_blknr e) blk (wr64 (rdr_type e) RDR_FIL_TYPE (wr64 (rdr_stus e) 0 D))"
  let ?E = "hal_memcpy 0 fne (rdr_name e) ?D (Suc n)"
  have m: "rd64 off ?E = rd64 off ?D" if "off + 8 \<le> e + 24" for off
    using that by (intro rd64_memcpy_other) (simp add: rdr_offsets)
  show "rd64 (rdr_type e) (dir_add e blk fne n D) = RDR_FIL_TYPE" "rd64 (rdr_blknr e) (dir_add e blk fne n D) = blk"
    "rd64 fmd_curfinwbkoff (dir_add e blk fne n D) = rd64 fmd_curfinwbkoff D + 128"
    "rd64 fmd_filesz (dir_add e blk fne n D) = rd64 fmd_filesz D + 128"
    using e by (simp_all add: dir_add_def Let_def m [unfolded rdr_offsets] rdr_offsets fmd_offsets)
  show "i \<le> n \<Longrightarrow> dir_add e blk fne n D (rdr_name e + i) = fne i"
    using e by (simp add: dir_add_def Let_def fmd_offsets rdr_offsets hal_memcpy_def)
qed

lemma dir_ok_add:
  assumes d: "dir_ok D r es" and l: "length es < 28" and f: "str_at fne xs" "length xs \<le> 103"
  shows "dir_ok (dir_add (ent (length es)) (of_nat b) fne (length xs) D) r (es @ [Some (b, xs)])" (is "dir_ok ?D r ?es")
proof -
  let ?c = "length es"
  have c: "112 \<le> ent ?c" by (simp add: ent_def)
  note en = dir_add_entry [OF c f(2), where blk = "of_nat b" and fne = fne and D = D]
  have out: "?D i = D i" if "i < ent ?c \<or> ent ?c + 128 \<le> i" "i < 64 \<or> 72 \<le> i" "i < 96 \<or> 104 \<le> i" for i
    by (rule dir_add_outside [OF that f(2)])
  have "?D i = D i" if i: "i < 112" "\<not> (64 \<le> i \<and> i < 72)" "\<not> (96 \<le> i \<and> i < 104)" for i
  proof (rule out)
    show "i < ent ?c \<or> ent ?c + 128 \<le> i" using i(1) c by simp
    show "i < 64 \<or> 72 \<le> i" "i < 96 \<or> 104 \<le> i" using i(2,3) by auto
  qed
  then have "hdr_ok FMD_DIR_TYPE r ?D" using d hdr_ok_cong [of FMD_DIR_TYPE r D ?D] by (simp add: dir_ok_def)
  moreover have "rd64 fmd_curfinwbkoff ?D = of_nat (ent (length ?es))"
    using en(4) d by (simp add: dir_ok_def ent_def)
  moreover have "ent_ok ?D k (if k < length ?es then ?es ! k else None)" if k: "k < 28" for k
  proof (cases "k = ?c")
    case True
    have "ent_name ?D ?c xs" unfolding ent_name_def using f(1) en(3)
      by (subst str_at_cong [where t = fne]) simp_all
    then show ?thesis using True en(1,2) f(2) by (simp add: ent_ok_def ent_file_def)
  next
    case False
    have "ent_ok ?D k e = ent_ok D k e" for e
    proof (rule ent_ok_cong)
      fix i assume i: "ent k \<le> i" "i < ent k + 128"
      then have "i < ent ?c \<or> ent ?c + 128 \<le> i" using False unfolding ent_def by linarith
      then show "?D i = D i" using i c by (intro out) (simp_all add: ent_def)
    qed
    moreover have "(if k < length ?es then ?es ! k else None) = (if k < ?c then es ! k else None)"
      using False by (simp add: nth_append)
    ultimately show ?thesis using d k by (simp add: dir_ok_def)
  qed
  ultimately show ?thesis using l by (simp add: dir_ok_def)
qed

lemma dir_ok_del:
  assumes d: "dir_ok D r es" and k: "k < length es"
  shows "dir_ok (wr64 (rdr_type (ent k)) RDR_DEL_TYPE (rfsdir_t_init (ent k) D)) r (es[k := None])" (is "dir_ok ?D r ?es")
proof -
  have out: "?D i = D i" if "i < ent k \<or> ent k + 128 \<le> i" for i
    using that by (auto simp: rfsdir_t_init_def Let_def hal_memset_def rdr_offsets DR_NM_MAX_def)
  have lo: "?D i = D i" if "i < 512" for i using that by (intro out) (simp add: ent_def)
  then have "hdr_ok FMD_DIR_TYPE r ?D" using d hdr_ok_cong [of FMD_DIR_TYPE r D ?D] by (simp add: dir_ok_def)
  moreover have "rd64 fmd_curfinwbkoff ?D = rd64 fmd_curfinwbkoff D"
    by (rule rd64_cong) (simp add: fmd_offsets lo)
  moreover have "ent_ok ?D j (if j < length ?es then ?es ! j else None)" if j: "j < 28" for j
  proof (cases "j = k")
    case True
    then show ?thesis using k by (simp add: ent_ok_def ent_file_def RDR_DEL_TYPE_def RDR_FIL_TYPE_def)
  next
    case False
    have "ent_ok ?D j e = ent_ok D j e" for e
    proof (rule ent_ok_cong)
      fix i assume "ent j \<le> i" "i < ent j + 128"
      then show "?D i = D i" using False by (intro out) (unfold ent_def, linarith)
    qed
    then show ?thesis using d j False by (auto simp: dir_ok_def)
  qed
  ultimately show ?thesis using d by (simp add: dir_ok_def)
qed

section \<open>Files\<close>

definition content :: "bytes \<Rightarrow> u8 list" where
  "content B = map (\<lambda>i. B (0x200 + i)) [0..<unat (rd64 fmd_curfinwbkoff B) - 0x200]"

definition file_ok :: "nat \<Rightarrow> bytes \<Rightarrow> bool" where
  "file_ok b B \<longleftrightarrow> hdr_ok FMD_FIL_TYPE b B \<and> rd64 fmd_curfinwbkoff B = 0x200 + rd64 fmd_filesz B \<and>
     0x200 \<le> unat (rd64 fmd_curfinwbkoff B) \<and> unat (rd64 fmd_curfinwbkoff B) < 4096 \<and>
     (\<forall>i \<ge> unat (rd64 fmd_curfinwbkoff B). B i = 0)"

lemma new_file_block: "file_ok b (new_header FMD_FIL_TYPE (of_nat b))" "content (new_header ty blk) = []"
  by (simp_all add: file_ok_def content_def new_header_ok)

text \<open>The entries in use, and the map from names to contents that they give.\<close>

definition live :: "entry list \<Rightarrow> (nat \<times> u8 list) list" where
  "live es = List.map_filter (\<lambda>e. e) es"

definition files :: "rfsdevext_t \<Rightarrow> entry list \<Rightarrow> u8 list \<rightharpoonup> u8 list" where
  "files d es = map_of (map (\<lambda>(b, xs). (xs, content (blk_at d b))) (live es))"

lemma live_simps [simp]: "live [] = []" "live (es @ fs) = live es @ live fs" "live (None # es) = live es" "live (Some e # es) = e # live es"
  by (simp_all add: live_def map_filter_simps map_filter_def)

lemma live_set [simp]: "e \<in> set (live es) \<longleftrightarrow> Some e \<in> set es"
  by (induction es) (auto simp: live_def map_filter_simps split: option.splits)

definition fs_ok :: "nat \<Rightarrow> nat \<Rightarrow> entry list \<Rightarrow> rfsdevext_t \<Rightarrow> bool" where
  "fs_ok M r es d \<longleftrightarrow> sup_ok M r d \<and> dir_ok (blk_at d r) r es \<and> free_blks d \<subseteq> {2..<M} - {r} \<and>
     distinct (map fst (live es)) \<and> distinct (map snd (live es)) \<and>
     (\<forall>b xs. Some (b, xs) \<in> set es \<longrightarrow>
        2 \<le> b \<and> b < M \<and> b \<noteq> r \<and> b \<notin> free_blks d \<and> valid_name xs \<and> file_ok b (blk_at d b))"

lemma fs_okD:
  assumes "fs_ok M r es d"
  shows "sup_ok M r d" "dir_ok (blk_at d r) r es" "free_blks d \<subseteq> {2..<M} - {r}" "distinct (map fst (live es))"
    "distinct (map snd (live es))"
    "Some (b, xs) \<in> set es \<Longrightarrow> 2 \<le> b \<and> b < M \<and> b \<noteq> r \<and> b \<notin> free_blks d \<and> valid_name xs \<and> file_ok b (blk_at d b)"
  using assms by (simp_all add: fs_ok_def)

lemma fs_okI:
  assumes "sup_ok M r d" "dir_ok (blk_at d r) r es" "free_blks d \<subseteq> {2..<M} - {r}" "distinct (map fst (live es))"
    "distinct (map snd (live es))"
    "\<And>b xs. Some (b, xs) \<in> set es \<Longrightarrow>
       2 \<le> b \<and> b < M \<and> b \<noteq> r \<and> b \<notin> free_blks d \<and> valid_name xs \<and> file_ok b (blk_at d b)"
  shows "fs_ok M r es d"
  using assms by (simp add: fs_ok_def)

lemma fs_ok_tick [simp]: "fs_ok M r es (tick k l d) = fs_ok M r es d" "files (tick k l d) es = files d es"
  by (simp_all add: fs_ok_def files_def)

lemma files_iff:
  assumes "fs_ok M r es d"
  shows "files d es xs = Some cs \<longleftrightarrow> (\<exists>b. Some (b, xs) \<in> set es \<and> cs = content (blk_at d b))"
proof -
  have "map fst (map (\<lambda>(b, xs). (xs, content (blk_at d b))) (live es)) = map snd (live es)" by (simp add: comp_def split_beta)
  then have "distinct (map fst (map (\<lambda>(b, xs). (xs, content (blk_at d b))) (live es)))" using fs_okD(5) [OF assms] by (simp only:)
  then show ?thesis unfolding files_def by (subst map_of_eq_Some_iff) (auto simp: image_iff split_beta, force)
qed

lemma files_None: "files d es xs = None \<longleftrightarrow> (\<forall>b. Some (b, xs) \<notin> set es)"
  by (auto simp: files_def map_of_eq_None_iff image_iff split_beta) force

lemma name_unique:
  assumes "fs_ok M r es d" and "Some (b, xs) \<in> set es" and "Some (c, ys) \<in> set es"
  shows "b = c \<longleftrightarrow> xs = ys"
proof -
  have m: "(b, xs) \<in> set (live es)" "(c, ys) \<in> set (live es)" using assms by simp_all
  have i: "inj_on fst (set (live es))" "inj_on snd (set (live es))" using fs_okD(4,5) [OF assms(1)] by (simp_all add: distinct_map)
  show ?thesis using inj_onD [OF i(1) _ m] inj_onD [OF i(2) _ m] by auto
qed

section \<open>Changes that keep the invariant\<close>

lemma find_name:
  "find (\<lambda>k. has_name xs (es ! k)) [0..<length es] = None \<longleftrightarrow> (\<forall>b. Some (b, xs) \<notin> set es)"
  "find (\<lambda>k. has_name xs (es ! k)) [0..<length es] = Some k \<Longrightarrow> k < length es \<and> (\<exists>b. es ! k = Some (b, xs))"
  by (auto simp: find_None_iff find_Some_iff has_name_def in_set_conv_nth)

text \<open>A new file in block \<open>b\<close>, entered at the end of the directory.\<close>

definition put_new :: "nat \<Rightarrow> nat \<Rightarrow> bytes \<Rightarrow> rfsdevext_t \<Rightarrow> rfsdevext_t" where
  "put_new r b D d = put_blk r D (put_blk b (new_header FMD_FIL_TYPE (of_nat b)) (put_blk 1 ((blk_at d 1)(b := 1)) d))"

lemma put_new_blk:
  assumes "sup_ok M r d" and "2 \<le> b" "b < M" "b \<noteq> r" and "m < M" "m \<noteq> 1"
  shows "blk_at (put_new r b D d) m = (if m = r then D else if m = b then new_header FMD_FIL_TYPE (of_nat b) else blk_at d m)"
  using sup_okD [OF assms(1)] assms(2-) by (simp add: put_new_def blk_put)

lemma put_new_sup:
  assumes "sup_ok M r d" and "2 \<le> b" "b < M" "b \<noteq> r"
  shows "sup_ok M r (put_new r b D d)" "free_blks (put_new r b D d) = free_blks d - {b}"
proof -
  note o = sup_okD [OF assms(1)]
  let ?d1 = "put_blk 1 ((blk_at d 1)(b := 1)) d"
  have s1: "sup_ok M r ?d1" using assms o by (intro sup_ok_put) simp_all
  have s2: "sup_ok M r (put_blk b (new_header FMD_FIL_TYPE (of_nat b)) ?d1)" (is "sup_ok M r ?d2")
    using assms sup_ok_put [OF s1, of b] by simp
  show "sup_ok M r (put_new r b D d)" using o sup_ok_put [OF s2, of r D] by (simp add: put_new_def)
  show "free_blks (put_new r b D d) = free_blks d - {b}"
    using free_blks_put [OF s2, of r D] free_blks_put [OF s1, of b] free_blks_take [of d b] assms o
    by (simp add: put_new_def)
qed

lemma fs_ok_new:
  assumes f: "fs_ok M r es d" and b: "b \<in> free_blks d" and v: "valid_name xs" "files d es xs = None"
    and D: "dir_ok D r (es @ [Some (b, xs)])"
  shows "fs_ok M r (es @ [Some (b, xs)]) (put_new r b D d)"
    and "files (put_new r b D d) (es @ [Some (b, xs)]) = (files d es)(xs \<mapsto> [])"
proof -
  note o = fs_okD [OF f]
  let ?d = "put_new r b D d" and ?es = "es @ [Some (b, xs)]"
  have bb: "2 \<le> b" "b < M" "b \<noteq> r" using o(3) b by auto
  note p = put_new_blk [OF o(1) bb] and q = put_new_sup [OF o(1) bb, where D = D]
  have old: "blk_at ?d c = blk_at d c" "c \<noteq> b" "ys \<noteq> xs" if "Some (c, ys) \<in> set es" for c ys
  proof -
    show c: "c \<noteq> b" using o(6) [OF that] b by auto
    show "blk_at ?d c = blk_at d c" using o(6) [OF that] p [of c] c by simp
    show "ys \<noteq> xs" using v(2) that by (auto simp: files_None)
  qed
  have nb: "blk_at ?d b = new_header FMD_FIL_TYPE (of_nat b)" using p [of b] bb by simp
  have "b \<notin> fst ` set (live es)" "xs \<notin> snd ` set (live es)" using old(2,3) by fastforce+
  then show ok: "fs_ok M r ?es ?d"
    using o q D p [of r] bb old nb v(1) sup_okD(2,3) [OF o(1)] unfolding fs_ok_def by (auto simp: new_file_block)
  show "files ?d ?es = (files d es)(xs \<mapsto> [])"
  proof
    fix ys
    show "files ?d ?es ys = ((files d es)(xs \<mapsto> [])) ys"
    proof (cases "ys = xs")
      case True
      have "files ?d ?es xs = Some []" unfolding files_iff [OF ok] by (auto simp: nb new_file_block)
      then show ?thesis using True by simp
    next
      case False
      have "files ?d ?es ys = Some cs \<longleftrightarrow> files d es ys = Some cs" for cs
        unfolding files_iff [OF ok] files_iff [OF f] using False old(1) by auto
      then show ?thesis using False by (cases "files d es ys") auto
    qed
  qed
qed

text \<open>The file in block \<open>b\<close> deleted.\<close>

definition put_del :: "nat \<Rightarrow> nat \<Rightarrow> bytes \<Rightarrow> rfsdevext_t \<Rightarrow> rfsdevext_t" where
  "put_del r b D d = put_blk r D (put_blk 1 ((blk_at d 1)(b := 0)) d)"

lemma put_del_sup:
  assumes "sup_ok M r d" and "2 \<le> b" "b < M"
  shows "sup_ok M r (put_del r b D d)" "free_blks (put_del r b D d) = insert b (free_blks d)"
    "m < M \<Longrightarrow> m \<noteq> 1 \<Longrightarrow> blk_at (put_del r b D d) m = (if m = r then D else blk_at d m)"
proof -
  note o = sup_okD [OF assms(1)]
  have M: "M \<le> 4096" using o(1) by (simp add: dev_ok_def)
  have s1: "sup_ok M r (put_blk 1 ((blk_at d 1)(b := 0)) d)" using assms o by (intro sup_ok_put) simp_all
  then show "sup_ok M r (put_del r b D d)" using o sup_ok_put [OF s1, of r D] by (simp add: put_del_def)
  show "free_blks (put_del r b D d) = insert b (free_blks d)"
    using free_blks_put [OF s1, of r D] free_blks_give [of b d] assms o M by (simp add: put_del_def)
  show "m < M \<Longrightarrow> m \<noteq> 1 \<Longrightarrow> blk_at (put_del r b D d) m = (if m = r then D else blk_at d m)"
    using o by (simp add: put_del_def blk_put)
qed

lemma live_del:
  assumes "fs_ok M r es d" and k: "k < length es" "es ! k = Some (b, xs)"
  shows "live (es[k := None]) = filter (\<lambda>e. e \<noteq> (b, xs)) (live es)"
proof -
  have e: "es = take k es @ Some (b, xs) # drop (Suc k) es" using k id_take_nth_drop [of k es] by simp
  have u: "es[k := None] = take k es @ None # drop (Suc k) es" using k by (simp add: upd_conv_take_nth_drop)
  have l: "live es = live (take k es) @ (b, xs) # live (drop (Suc k) es)" by (subst e) simp
  then have "distinct (live (take k es) @ (b, xs) # live (drop (Suc k) es))"
    using fs_okD(4) [OF assms(1)] by (metis distinct_map)
  then have "(b, xs) \<notin> set (live (take k es))" "(b, xs) \<notin> set (live (drop (Suc k) es))" by auto
  then have "filter (\<lambda>e. e \<noteq> (b, xs)) (live (take k es)) = live (take k es)"
    "filter (\<lambda>e. e \<noteq> (b, xs)) (live (drop (Suc k) es)) = live (drop (Suc k) es)"
    by (auto simp: filter_id_conv)
  then show ?thesis unfolding l u by simp
qed

lemma fs_ok_del:
  assumes f: "fs_ok M r es d" and k: "k < length es" "es ! k = Some (b, xs)" and D: "dir_ok D r (es[k := None])"
  shows "fs_ok M r (es[k := None]) (put_del r b D d)"
    and "files (put_del r b D d) (es[k := None]) = (files d es)(xs := None)"
    and "free_blks (put_del r b D d) = insert b (free_blks d)"
proof -
  note o = fs_okD [OF f]
  let ?d = "put_del r b D d" and ?es = "es[k := None]"
  have m: "Some (b, xs) \<in> set es" using k by (metis nth_mem)
  note bb = o(6) [OF m]
  note p = put_del_sup [OF o(1), where b = b and D = D]
  have es: "Some (c, ys) \<in> set ?es \<longleftrightarrow> Some (c, ys) \<in> set es \<and> (c, ys) \<noteq> (b, xs)" for c ys
    using arg_cong [OF live_del [OF f k], of set] live_set [of "(c, ys)" ?es] live_set [of "(c, ys)" es] by auto
  have old: "blk_at ?d c = blk_at d c" "c \<noteq> b" "ys \<noteq> xs" if "Some (c, ys) \<in> set ?es" for c ys
  proof -
    have c: "Some (c, ys) \<in> set es" "(c, ys) \<noteq> (b, xs)" using that unfolding es by blast+
    show "blk_at ?d c = blk_at d c" using o(6) [OF c(1)] p(3) [of c] bb by simp
    show "c \<noteq> b" "ys \<noteq> xs" using c(2) name_unique [OF f m c(1)] by auto
  qed
  have fr: "free_blks ?d = insert b (free_blks d)" using p(2) bb by blast
  show ok: "fs_ok M r ?es ?d"
  proof (rule fs_okI)
    show "sup_ok M r ?d" using p(1) bb by blast
    show "dir_ok (blk_at ?d r) r ?es" using p(3) [of r] bb D sup_okD(2,3) [OF o(1)] by simp
    show "free_blks ?d \<subseteq> {2..<M} - {r}" using fr o(3) bb by auto
    show "distinct (map fst (live ?es))" "distinct (map snd (live ?es))"
      using o(4,5) by (simp_all add: live_del [OF f k] distinct_map_filter)
    show "2 \<le> c \<and> c < M \<and> c \<noteq> r \<and> c \<notin> free_blks ?d \<and> valid_name ys \<and> file_ok c (blk_at ?d c)"
      if a: "Some (c, ys) \<in> set ?es" for c ys
      using o(6) [of c ys] a old [OF a] unfolding es fr by simp
  qed
  show "files ?d ?es = (files d es)(xs := None)"
  proof
    fix ys
    show "files ?d ?es ys = ((files d es)(xs := None)) ys"
    proof (cases "ys = xs")
      case True
      have "files ?d ?es xs = None" unfolding files_None using old(3) by blast
      then show ?thesis using True by simp
    next
      case False
      have "Some (c, ys) \<in> set ?es \<longleftrightarrow> Some (c, ys) \<in> set es" for c unfolding es using False by simp
      then have "files ?d ?es ys = Some cs \<longleftrightarrow> files d es ys = Some cs" for cs
        unfolding files_iff [OF ok] files_iff [OF f] using old(1) by metis
      then show ?thesis using False by (cases "files d es ys") auto
    qed
  qed
  show "free_blks ?d = insert b (free_blks d)" by (rule fr)
qed

text \<open>A changed block of a file.\<close>

lemma fs_ok_file:
  assumes f: "fs_ok M r es d" and m: "Some (b, xs) \<in> set es" and B: "file_ok b B"
  shows "fs_ok M r es (put_blk b B d)" and "files (put_blk b B d) es = (files d es)(xs \<mapsto> content B)"
    and "free_blks (put_blk b B d) = free_blks d"
proof -
  note o = fs_okD [OF f]
  note bb = o(6) [OF m]
  let ?d = "put_blk b B d"
  have s: "sup_ok M r ?d" "free_blks ?d = free_blks d"
    using sup_ok_put [OF o(1), of b B] free_blks_put [OF o(1), of b B] bb by auto
  have p: "blk_at ?d c = (if c = b then B else blk_at d c)" if "c < M" for c
    using blk_put [of M d b c B] sup_okD(1) [OF o(1)] bb that by simp
  have n: "c = b \<longleftrightarrow> ys = xs" if "Some (c, ys) \<in> set es" for c ys using name_unique [OF f that m] .
  show ok: "fs_ok M r es ?d"
  proof (rule fs_okI)
    show "dir_ok (blk_at ?d r) r es" using p [of r] bb o(2) sup_okD(3) [OF o(1)] by simp
    show "2 \<le> c \<and> c < M \<and> c \<noteq> r \<and> c \<notin> free_blks ?d \<and> valid_name ys \<and> file_ok c (blk_at ?d c)"
      if "Some (c, ys) \<in> set es" for c ys using o(6) [OF that] p [of c] s(2) B by simp
  qed (use o s in simp_all)
  show "files ?d es = (files d es)(xs \<mapsto> content B)"
  proof
    fix ys
    show "files ?d es ys = ((files d es)(xs \<mapsto> content B)) ys"
    proof (cases "ys = xs")
      case True
      have "files ?d es xs = Some (content B)" unfolding files_iff [OF ok] using m by auto
      then show ?thesis using True by simp
    next
      case False
      have "files ?d es ys = Some cs \<longleftrightarrow> files d es ys = Some cs" for cs
        unfolding files_iff [OF ok] files_iff [OF f] using False n p o(6) by metis
      then show ?thesis using False by (cases "files d es ys") auto
    qed
  qed
  show "free_blks ?d = free_blks d" by (rule s(2))
qed

end
