(* ===== verification/Rfs_Ops.thy ===== *)
theory Rfs_Ops
  imports Rfs_Props
begin

text \<open>
  The operations of the file system on the abstract state: a map from names to contents, the
  free blocks and the entries of the directory that were ever used, all computed from the blocks.
\<close>

section \<open>The abstract state\<close>

definition root_of :: "rfsdevext_t \<Rightarrow> nat" where
  "root_of d = unat (rd64 (rdr_blknr rsb_rootdir) (blk_at d 0))"

definition name_at :: "bytes \<Rightarrow> nat \<Rightarrow> u8 list" where
  "name_at D k = takeWhile (\<lambda>c. c \<noteq> 0) (map (\<lambda>i. D (rdr_name (ent k) + i)) [0..<104])"

definition fs_entries :: "rfsdevext_t \<Rightarrow> entry list" where
  "fs_entries d =
     (let D = blk_at d (root_of d)
      in map (\<lambda>k. if ent_file D k then Some (unat (rd64 (rdr_blknr (ent k)) D), name_at D k) else None)
           [0..<(unat (rd64 fmd_curfinwbkoff D) - 0x200) div 128])"

definition fs_files :: "rfsdevext_t \<Rightarrow> u8 list \<rightharpoonup> u8 list" where
  "fs_files d = files d (fs_entries d)"

definition rfs_ok :: "nat \<Rightarrow> rfsdevext_t \<Rightarrow> bool" where
  "rfs_ok M d \<longleftrightarrow> fs_ok M (root_of d) (fs_entries d) d"

lemma name_at_str:
  assumes "ent_name D k xs" and "length xs \<le> 103"
  shows "name_at D k = xs"
proof -
  have s: "\<forall>i < length xs. D (rdr_name (ent k) + i) = xs ! i \<and> xs ! i \<noteq> 0" "D (rdr_name (ent k) + length xs) = 0"
    using assms(1) by (simp_all add: ent_name_def str_at_def)
  have u: "[0..<104] = [0..<length xs] @ length xs # [Suc (length xs)..<104]"
    using assms(2) upt_add_eq_append [of 0 "length xs" "104 - length xs"] by (simp add: upt_conv_Cons del: upt_rec_numeral)
  have "map (\<lambda>i. D (rdr_name (ent k) + i)) [0..<length xs] = xs" using s(1) by (intro nth_equalityI) simp_all
  moreover have "0 \<notin> set xs" using s(1) by (metis in_set_conv_nth)
  ultimately show ?thesis unfolding name_at_def u using s(2) by (auto simp: takeWhile_append simp del: upt_rec_numeral)
qed

lemma fs_abs:
  assumes f: "fs_ok M r es d"
  shows "root_of d = r" "fs_entries d = es" "rfs_ok M d" "fs_files d = files d es"
proof -
  note o = fs_okD [OF f]
  have M: "M \<le> 4096" using o(1) by (simp add: sup_ok_def dev_ok_def)
  have u: "unat (of_nat b :: u64) = b" if "b < M" for b using M that by (simp add: unat_of_nat)
  show r: "root_of d = r" using sup_okD(3,7) [OF o(1)] u by (simp add: root_of_def)
  have n: "(unat (rd64 fmd_curfinwbkoff (blk_at d r)) - 0x200) div 128 = length es"
    unfolding dir_ok_curoff [OF o(2)] by (simp add: ent_def)
  show e: "fs_entries d = es"
  proof (rule nth_equalityI)
    show "length (fs_entries d) = length es" by (simp add: fs_entries_def Let_def r n)
    fix k assume "k < length (fs_entries d)"
    then have k: "k < length es" by (simp add: fs_entries_def Let_def r n)
    then have ek: "ent_ok (blk_at d r) k (es ! k)" using dir_ok_ent [OF o(2)] by simp
    show "fs_entries d ! k = es ! k"
    proof (cases "es ! k")
      case None
      then show ?thesis using ek k by (simp add: fs_entries_def Let_def r n ent_ok_def)
    next
      case (Some p)
      obtain b xs where p: "p = (b, xs)" by (cases p)
      have "Some (b, xs) \<in> set es" using Some p k by (metis nth_mem)
      then show ?thesis using Some p ek k u [of b] o(6) [of b xs] name_at_str [of "blk_at d r" k xs]
        by (simp add: fs_entries_def Let_def r n ent_ok_def)
    qed
  qed
  show "rfs_ok M d" "fs_files d = files d es" using f by (simp_all add: rfs_ok_def fs_files_def r e)
qed

lemma rfs_okE: "rfs_ok M d \<Longrightarrow> fs_ok M (root_of d) (fs_entries d) d"
  by (simp add: rfs_ok_def)

section \<open>Looking up\<close>

lemma dir_lookup:
  assumes f: "fs_ok M r es d" and s: "str_at fne xs"
  shows "dir_find (blk_at d r) fne (unat (rd64 fmd_fileifstbkoff (blk_at d r))) =
      Some (map_option ent (find (\<lambda>k. has_name xs (es ! k)) [0..<length es]))"
    and "rd64 fmd_type (blk_at d r) = FMD_DIR_TYPE" and "dir_empty (blk_at d r) \<Longrightarrow> files d es xs = None"
    and "rd64 fmd_sfblk (blk_at d r) = of_nat r"
proof -
  note o = fs_okD [OF f]
  have h: "hdr_ok FMD_DIR_TYPE r (blk_at d r)" using o(2) by (simp add: dir_ok_def)
  then show "rd64 fmd_type (blk_at d r) = FMD_DIR_TYPE" "rd64 fmd_sfblk (blk_at d r) = of_nat r" by (simp_all add: hdr_ok_def)
  have "unat (rd64 fmd_fileifstbkoff (blk_at d r)) = 0x200" using h by (simp add: hdr_ok_def)
  then show "dir_find (blk_at d r) fne (unat (rd64 fmd_fileifstbkoff (blk_at d r))) =
      Some (map_option ent (find (\<lambda>k. has_name xs (es ! k)) [0..<length es]))"
    using dir_find_ok [OF o(2) s] by simp
  show "dir_empty (blk_at d r) \<Longrightarrow> files d es xs = None" using dir_empty_iff [OF o(2)] by (simp add: files_None)
qed

lemma chkfileisindev_ok:
  assumes f: "fs_ok M r es d" and s: "str_at fne xs" and v: "valid_name xs"
  shows "rfs_chkfileisindev avail fne d = Some (if files d es xs = None then 0 else 1, tick 6 0 d)"
proof -
  note o = fs_okD [OF f]
  have l: "rfs_strlen fne 0 = Some (length xs)" using strlen_from [of fne 0 xs] s by simp
  have n: "\<not> (length xs < 1 \<or> length xs \<ge> DR_NM_MAX)" using v by (auto simp: valid_name_def DR_NM_MAX_def Suc_le_eq)
  have "del_rootdirfile_blk avail (blk_at d r) (tick 5 1 d) = Some (tick 6 0 d)"
    using del_rootdirfile_ok [of M "tick 5 1 d" r "blk_at d r"] sup_okD [OF o(1)] dir_lookup(4) [OF f s] by simp
  moreover have "find (\<lambda>k. has_name xs (es ! k)) [0..<length es] = None \<longleftrightarrow> files d es xs = None"
    by (simp add: find_name(1) files_None)
  ultimately show ?thesis
    using l n get_rootdirfile_ok [OF o(1)] dir_lookup [OF f s]
    by (auto simp: rfs_chkfileisindev_def split: option.splits)
qed

section \<open>New files\<close>

lemma new_dirfileblk_nofree:
  assumes f: "fs_ok M r es d" and e: "free_blks d = {}"
  shows "rfs_new_dirfileblk avail fne RDR_FIL_TYPE d = Some (DFCERRSTUS, tick 8 0 d)"
  using rfs_new_blk_ok [of M r "tick 1 1 d"] fs_okD(1) [OF f] e by (simp add: rfs_new_dirfileblk_def)

text \<open>What making a file starts with: the least free block is taken and the directory read.\<close>

lemma new_dirfileblk_taken:
  assumes f: "fs_ok M r es d" and e: "free_blks d \<noteq> {}"
  defines "b \<equiv> Min (free_blks d)"
  defines "d1 \<equiv> put_blk 1 ((blk_at d 1)(b := 1)) d"
  shows "b \<in> free_blks d" "2 \<le> b" "b < M" "b \<noteq> r" "sup_ok M r d1" "blk_at d1 r = blk_at d r" "of_nat b \<noteq> (0::u64)"
    "rfs_new_blk avail (tick 1 1 d) = Some (of_nat b, tick 7 1 d1)"
    "get_rootdirfile_blk avail (tick 7 1 d1) = Some (Some (blk_at d r), tick 12 2 d1)"
proof -
  note o = fs_okD [OF f]
  show m: "b \<in> free_blks d" unfolding b_def using e by (intro Min_in) simp_all
  then show b: "2 \<le> b" "b < M" "b \<noteq> r" using o(3) by auto
  have "M \<le> 4096" using o(1) by (simp add: sup_ok_def dev_ok_def)
  then have "unat (of_nat b :: u64) = b" using b by (simp add: unat_of_nat)
  then show "of_nat b \<noteq> (0::u64)" using b(1) by (metis not_numeral_le_zero unat_0)
  show s: "sup_ok M r d1" unfolding d1_def using o(1) sup_okD(4) [OF o(1)] by (intro sup_ok_put) simp_all
  show r: "blk_at d1 r = blk_at d r" unfolding d1_def using sup_okD [OF o(1)] blk_put [of M d 1 r] by simp
  show "rfs_new_blk avail (tick 1 1 d) = Some (of_nat b, tick 7 1 d1)"
    using rfs_new_blk_ok [of M r "tick 1 1 d"] o(1) e by (simp add: d1_def b_def)
  show "get_rootdirfile_blk avail (tick 7 1 d1) = Some (Some (blk_at d r), tick 12 2 d1)"
    using get_rootdirfile_ok [of M r "tick 7 1 d1"] s r by simp
qed

lemma fs_ok_leak:
  assumes f: "fs_ok M r es d" and e: "free_blks d \<noteq> {}"
  defines "b \<equiv> Min (free_blks d)"
  defines "d1 \<equiv> put_blk 1 ((blk_at d 1)(b := 1)) d"
  shows "fs_ok M r es d1" "files d1 es = files d es" "free_blks d1 = free_blks d - {b}"
proof -
  note o = fs_okD [OF f] and t = new_dirfileblk_taken [OF f e, folded b_def, folded d1_def]
  show fr: "free_blks d1 = free_blks d - {b}" unfolding d1_def by (rule free_blks_take)
  have p: "blk_at d1 c = blk_at d c" if "c < M" "2 \<le> c" for c
    unfolding d1_def using blk_put [of M d 1 c] sup_okD(1,4) [OF o(1)] that by simp
  show ok: "fs_ok M r es d1"
  proof (rule fs_okI)
    show "2 \<le> c \<and> c < M \<and> c \<noteq> r \<and> c \<notin> free_blks d1 \<and> valid_name ys \<and> file_ok c (blk_at d1 c)"
      if "Some (c, ys) \<in> set es" for c ys using o(6) [OF that] p [of c] by (simp add: fr)
    show "dir_ok (blk_at d1 r) r es" using t(6) o(2) by simp
    show "free_blks d1 \<subseteq> {2..<M} - {r}" using fr o(3) by blast
  qed (use o t(5) in simp_all)
  have "files d1 es ys = Some cs \<longleftrightarrow> files d es ys = Some cs" for ys cs
    unfolding files_iff [OF ok] files_iff [OF f] using p o(6) by metis
  then show "files d1 es = files d es" by (metis not_None_eq ext)
qed

text \<open>With the directory full, the block that was taken is not given back.\<close>

lemma new_dirfileblk_full:
  assumes f: "fs_ok M r es d" and e: "free_blks d \<noteq> {}" and l: "length es = 28"
  shows "rfs_new_dirfileblk avail fne RDR_FIL_TYPE d =
      Some (DFCERRSTUS, tick 14 0 (put_blk 1 ((blk_at d 1)(Min (free_blks d) := 1)) d))"
proof -
  note o = fs_okD [OF f] and t = new_dirfileblk_taken [OF f e]
  let ?d1 = "put_blk 1 ((blk_at d 1)(Min (free_blks d) := 1)) d"
  have "unat (rd64 fmd_curfinwbkoff (blk_at d r)) = 4096" using dir_ok_curoff [OF o(2)] l by (simp add: ent_def)
  moreover have "put_blk r (blk_at d r) ?d1 = ?d1" using put_same(1) [of r ?d1] unfolding t(6) .
  moreover have "rd64 fmd_sfblk (blk_at d r) = of_nat r" using o(2) by (simp add: dir_ok_def hdr_ok_def)
  then have "del_rootdirfile_blk avail (blk_at d r) (tick 12 2 ?d1) = Some (tick 13 1 (put_blk r (blk_at d r) ?d1))"
    using del_rootdirfile_ok [of M "tick 12 2 ?d1" r "blk_at d r"] sup_okD(1,3) [OF t(5)] by simp
  ultimately show ?thesis using t(7-9) by (simp add: rfs_new_dirfileblk_def FSYS_ALCBLKSZ_def)
qed

lemma new_dirfileblk_ok:
  assumes f: "fs_ok M r es d" and e: "free_blks d \<noteq> {}" and l: "length es < 28" and s: "str_at fne xs" and x: "length xs \<le> 103"
  defines "b \<equiv> Min (free_blks d)"
  shows "rfs_new_dirfileblk avail fne RDR_FIL_TYPE d =
      Some (DFCOKSTUS, tick 14 0 (put_new r b (dir_add (ent (length es)) (of_nat b) fne (length xs) (blk_at d r)) d))"
proof -
  note o = fs_okD [OF f] and t = new_dirfileblk_taken [OF f e, folded b_def]
  let ?d1 = "put_blk 1 ((blk_at d 1)(b := 1)) d" and ?D = "dir_add (ent (length es)) (of_nat b) fne (length xs) (blk_at d r)"
  let ?d2 = "put_blk b (new_header FMD_FIL_TYPE (of_nat b)) ?d1"
  have c: "unat (rd64 fmd_curfinwbkoff (blk_at d r)) = ent (length es)" using dir_ok_curoff [OF o(2)] .
  then have nf: "\<not> unat (rd64 fmd_curfinwbkoff (blk_at d r)) \<ge> unat FSYS_ALCBLKSZ" using l by (simp add: ent_def FSYS_ALCBLKSZ_def)
  have cp: "rfs_strcpy fne off E 0 = Some (length xs, hal_memcpy 0 fne off E (Suc (length xs)))" for off E
    using strcpy_from [of fne 0 xs off E] s by simp
  have w: "write_rfsdevblk (tick 12 2 ?d1) (new_header FMD_FIL_TYPE (of_nat b)) (of_nat b) = (DFCOKSTUS, tick 12 2 ?d2)"
    using write_blk [of M "tick 12 2 ?d1" b] sup_okD(1) [OF t(5)] t(3) by simp
  have "dir_ok ?D r (es @ [Some (b, xs)])" using dir_ok_add [OF o(2) l s x] .
  then have "rd64 fmd_sfblk ?D = of_nat r" by (simp add: dir_ok_def hdr_ok_def)
  then have "del_rootdirfile_blk avail ?D (tick 12 2 ?d2) = Some (tick 13 1 (put_blk r ?D ?d2))"
    using del_rootdirfile_ok [of M "tick 12 2 ?d2" r ?D] sup_okD [OF o(1)] by simp
  then show ?thesis using t(7-9) nf cp w by (simp add: rfs_new_dirfileblk_def Let_def c dir_add_def put_new_def)
qed

text \<open>Making a file of a valid name.\<close>

lemma rfs_new_file_ok:
  assumes f: "rfs_ok M d" and p: "str_at fname (0x2f # xs)" and v: "valid_name xs"
  shows "\<exists>st d'. rfs_new_file avail fname d = Some (st, d') \<and> rfs_ok M d' \<and> kmem_live d' = kmem_live d \<and>
    (if fs_files d xs \<noteq> None \<or> free_blks d = {}
     then st = DFCERRSTUS \<and> fs_files d' = fs_files d \<and> free_blks d' = free_blks d \<and> fs_entries d' = fs_entries d
     else if length (fs_entries d) = 28
     then st = DFCERRSTUS \<and> fs_files d' = fs_files d \<and> free_blks d' = free_blks d - {Min (free_blks d)} \<and> fs_entries d' = fs_entries d
     else st = DFCOKSTUS \<and> fs_files d' = (fs_files d)(xs \<mapsto> []) \<and> free_blks d' = free_blks d - {Min (free_blks d)} \<and>
       fs_entries d' = fs_entries d @ [Some (Min (free_blks d), xs)])"
proof -
  let ?r = "root_of d" and ?es = "fs_entries d"
  have g: "fs_ok M ?r ?es d" using f by (rule rfs_okE)
  note o = fs_okD [OF g] and a0 = fs_abs(4) [OF g]
  obtain fne where n: "rfs_ret_fname zero_blk fname = Some (0, fne)" "str_at fne xs" using ret_fname_ok [OF p v] by blast
  note ch = chkfileisindev_ok [OF g n(2) v]
  have x: "length xs \<le> 103" "length ?es \<le> 28" using v o(2) by (simp_all add: valid_name_def dir_ok_def)
  have g6: "fs_ok M ?r ?es (tick 6 0 d)" using g by simp
  show ?thesis
  proof (cases "fs_files d xs \<noteq> None")
    case True
    then have "rfs_new_file avail fname d = Some (DFCERRSTUS, tick 6 0 d)" using ch n by (auto simp: rfs_new_file_def a0)
    then show ?thesis using True fs_abs [OF g6] a0 by auto
  next
    case F: False
    then have nf: "rfs_new_file avail fname d = rfs_new_dirfileblk avail fne RDR_FIL_TYPE (tick 6 0 d)"
      using ch n by (simp add: rfs_new_file_def a0)
    consider (none) "free_blks d = {}" | (full) "free_blks d \<noteq> {}" "length ?es = 28" | (ok) "free_blks d \<noteq> {}" "length ?es < 28"
      using x(2) by linarith
    then show ?thesis
    proof cases
      case none
      then have "rfs_new_file avail fname d = Some (DFCERRSTUS, tick 14 0 d)" unfolding nf
        using new_dirfileblk_nofree [OF g6] by simp
      moreover have "fs_ok M ?r ?es (tick 14 0 d)" using g by simp
      ultimately show ?thesis using none fs_abs [of M ?r ?es "tick 14 0 d"] a0 by auto
    next
      case full
      let ?d = "tick 20 0 (put_blk 1 ((blk_at d 1)(Min (free_blks d) := 1)) d)"
      have "rfs_new_file avail fname d = Some (DFCERRSTUS, ?d)" unfolding nf
        using new_dirfileblk_full [OF g6] full by simp
      moreover have "fs_ok M ?r ?es ?d" "free_blks ?d = free_blks d - {Min (free_blks d)}" "files ?d ?es = files d ?es"
        using fs_ok_leak [OF g full(1)] by simp_all
      moreover have "kmem_live ?d = kmem_live d" by simp
      ultimately show ?thesis using full F fs_abs [of M ?r ?es ?d] a0 by (intro exI [of _ DFCERRSTUS] exI [of _ ?d]) simp
    next
      case ok
      let ?b = "Min (free_blks d)"
      let ?D = "dir_add (ent (length ?es)) (of_nat ?b) fne (length xs) (blk_at d ?r)"
      let ?d = "tick 20 0 (put_new ?r ?b ?D d)"
      have t: "put_new ?r ?b ?D (tick 6 0 d) = tick 6 0 (put_new ?r ?b ?D d)" by (simp add: put_new_def)
      have "rfs_new_file avail fname d = Some (DFCOKSTUS, ?d)" unfolding nf
        using new_dirfileblk_ok [OF g6 _ ok(2) n(2) x(1)] ok(1) t by simp
      moreover have D: "dir_ok ?D ?r (?es @ [Some (?b, xs)])" using dir_ok_add [OF o(2) ok(2) n(2) x(1)] .
      have b: "?b \<in> free_blks d" using ok(1) by (intro Min_in) simp_all
      have z: "files d ?es xs = None" using F a0 by simp
      have "fs_ok M ?r (?es @ [Some (?b, xs)]) ?d" "files ?d (?es @ [Some (?b, xs)]) = (fs_files d)(xs \<mapsto> [])"
        using fs_ok_new [OF g b v z D] a0 by simp_all
      moreover have bb: "2 \<le> ?b" "?b < M" "?b \<noteq> ?r" using b o(3) by auto
      have "free_blks ?d = free_blks d - {?b}" using put_new_sup(2) [OF o(1) bb] by simp
      moreover have "kmem_live ?d = kmem_live d" by (simp add: put_new_def)
      ultimately show ?thesis using ok F fs_abs [of M ?r "?es @ [Some (?b, xs)]" ?d]
        by (intro exI [of _ DFCOKSTUS] exI [of _ ?d]) simp
    qed
  qed
qed

section \<open>Deleting files\<close>

lemma del_core_ok:
  assumes f: "fs_ok M r es d" and s: "str_at fne xs"
  shows "\<exists>st d'. del_dirfileblk_core avail fne d = Some (st, d') \<and> kmem_live d' = kmem_live d \<and>
    (case find (\<lambda>k. has_name xs (es ! k)) [0..<length es] of
       None \<Rightarrow> st \<noteq> 0 \<and> d' = tick 6 0 d
     | Some k \<Rightarrow> st = 0 \<and> fs_ok M r (es[k := None]) d' \<and> files d' (es[k := None]) = (files d es)(xs := None) \<and>
         free_blks d' = insert (fst (the (es ! k))) (free_blks d))"
proof (cases "find (\<lambda>k. has_name xs (es ! k)) [0..<length es]")
  case None
  note o = fs_okD [OF f] and l = dir_lookup [OF f s]
  have "del_rootdirfile_blk avail (blk_at d r) (tick 5 1 d) = Some (tick 6 0 d)"
    using del_rootdirfile_ok [of M "tick 5 1 d" r "blk_at d r"] sup_okD [OF o(1)] l(4) by simp
  then show ?thesis using None get_rootdirfile_ok [OF o(1)] l(1,2)
    by (cases "dir_empty (blk_at d r)") (simp_all add: del_dirfileblk_core_def)
next
  case (Some k)
  note o = fs_okD [OF f] and l = dir_lookup [OF f s]
  obtain b where k: "k < length es" "es ! k = Some (b, xs)" using find_name(2) [OF Some] by blast
  then have m: "Some (b, xs) \<in> set es" by (metis nth_mem)
  have ne: "\<not> dir_empty (blk_at d r)" using l(3) m files_None [of d es xs] by blast
  have "M \<le> 4096" using o(1) by (simp add: sup_ok_def dev_ok_def)
  then have b: "b < 4096" using o(6) [OF m] by simp
  have bk: "rd64 (rdr_blknr (ent k)) (blk_at d r) = of_nat b" using dir_ok_ent [OF o(2) k(1)] k(2) by (simp add: ent_ok_def)
  let ?D = "wr64 (rdr_type (ent k)) RDR_DEL_TYPE (rfsdir_t_init (ent k) (blk_at d r))"
  let ?d1 = "put_blk 1 ((blk_at d 1)(b := 0)) d"
  have D: "dir_ok ?D r (es[k := None])" using dir_ok_del [OF o(2) k(1)] .
  then have "rd64 fmd_sfblk ?D = of_nat r" by (simp add: dir_ok_def hdr_ok_def)
  then have "del_rootdirfile_blk avail ?D (tick 11 1 ?d1) = Some (tick 12 0 (put_del r b ?D d))"
    using del_rootdirfile_ok [of M "tick 11 1 ?d1" r ?D] sup_okD [OF o(1)] by (simp add: put_del_def)
  moreover have "rfs_del_blk avail (of_nat b) (tick 5 1 d) = Some (tick 11 1 ?d1)"
    using rfs_del_blk_ok [of M r "tick 5 1 d" b] o(1) b by simp
  ultimately have "del_dirfileblk_core avail fne d = Some (0, tick 12 0 (put_del r b ?D d))"
    using get_rootdirfile_ok [OF o(1)] l(1,2) ne Some bk by (simp add: del_dirfileblk_core_def)
  moreover have "kmem_live (put_del r b ?D d) = kmem_live d" by (simp add: put_del_def)
  ultimately show ?thesis using Some fs_ok_del [OF f k D] k(2) by simp
qed

text \<open>Deleting frees the block and leaves the entry unusable.\<close>

lemma rfs_del_file_ok:
  assumes f: "rfs_ok M d" and p: "str_at fname (0x2f # xs)" and v: "valid_name xs"
  shows "\<exists>st d'. rfs_del_file avail fname 0 d = Some (st, d') \<and> rfs_ok M d' \<and> kmem_live d' = kmem_live d \<and>
    fs_files d' = (fs_files d)(xs := None) \<and> length (fs_entries d') = length (fs_entries d) \<and>
    (if fs_files d xs = None then st = DFCERRSTUS \<and> free_blks d' = free_blks d
     else st = DFCOKSTUS \<and> (\<exists>b. b \<notin> free_blks d \<and> free_blks d' = insert b (free_blks d)))"
proof -
  let ?r = "root_of d" and ?es = "fs_entries d"
  have g: "fs_ok M ?r ?es d" using f by (rule rfs_okE)
  note a0 = fs_abs(4) [OF g]
  obtain fne where n: "rfs_ret_fname zero_blk fname = Some (0, fne)" "str_at fne xs" using ret_fname_ok [OF p v] by blast
  have df: "rfs_del_file avail fname 0 d = do { (r, d) \<leftarrow> del_dirfileblk_core avail fne d; Some (if r \<noteq> 0 then DFCERRSTUS else DFCOKSTUS, d) }"
    using n(1) by (simp add: rfs_del_file_def rfs_del_dirfileblk_def)
  obtain st d' where c: "del_dirfileblk_core avail fne d = Some (st, d')" "kmem_live d' = kmem_live d" and
    cs: "case find (\<lambda>k. has_name xs (?es ! k)) [0..<length ?es] of
       None \<Rightarrow> st \<noteq> 0 \<and> d' = tick 6 0 d
     | Some k \<Rightarrow> st = 0 \<and> fs_ok M ?r (?es[k := None]) d' \<and> files d' (?es[k := None]) = (files d ?es)(xs := None) \<and>
         free_blks d' = insert (fst (the (?es ! k))) (free_blks d)"
    using del_core_ok [OF g n(2)] by blast
  show ?thesis
  proof (cases "find (\<lambda>k. has_name xs (?es ! k)) [0..<length ?es]")
    case None
    then have "files d ?es xs = None" by (simp add: find_name(1) files_None)
    then have z: "fs_files d xs = None" "(fs_files d)(xs := None) = fs_files d" by (simp_all add: a0 fun_upd_idem)
    have d: "st \<noteq> 0" "d' = tick 6 0 d" using cs None by simp_all
    have "fs_ok M ?r ?es d'" using g d by simp
    note ab = fs_abs [OF this]
    have "rfs_del_file avail fname 0 d = Some (DFCERRSTUS, d')" using df c d by simp
    then show ?thesis using ab z c(2) d a0 by (intro exI [of _ DFCERRSTUS] exI [of _ d']) simp
  next
    case (Some k)
    obtain b where k: "k < length ?es" "?es ! k = Some (b, xs)" using find_name(2) [OF Some] by blast
    then have m: "Some (b, xs) \<in> set ?es" by (metis nth_mem)
    have z: "fs_files d xs \<noteq> None" using m files_None [of d ?es xs] unfolding a0 by blast
    have d: "st = 0" "fs_ok M ?r (?es[k := None]) d'" "files d' (?es[k := None]) = (files d ?es)(xs := None)"
      "free_blks d' = insert b (free_blks d)" using cs Some k by simp_all
    note ab = fs_abs [OF d(2)]
    have "rfs_del_file avail fname 0 d = Some (DFCOKSTUS, d')" using df c d by simp
    moreover have "b \<notin> free_blks d" using fs_okD(6) [OF g m] by blast
    ultimately show ?thesis using ab z c(2) d(3,4) a0 by (intro exI [of _ DFCOKSTUS] exI [of _ d']) auto
  qed
qed

section \<open>Opening, reading, writing and closing\<close>

lemma openfileblk_ok:
  assumes f: "fs_ok M r es d" and p: "str_at fname (0x2f # xs)" and v: "valid_name xs"
  shows "files d es xs = None \<Longrightarrow> rfs_openfileblk avail fname d = Some (None, tick 6 0 d)"
    and "Some (b, xs) \<in> set es \<Longrightarrow> rfs_openfileblk avail fname d = Some (Some (blk_at d b), tick 7 1 d)"
proof -
  note o = fs_okD [OF f]
  obtain fne where n: "rfs_ret_fname zero_blk fname = Some (0, fne)" "str_at fne xs" using ret_fname_ok [OF p v] by blast
  note l = dir_lookup [OF f n(2)] and c = sup_okD [OF o(1)]
  have del: "del_rootdirfile_blk avail (blk_at d r) (tick k j d) = Some (tick (k + 1) (j - 1) d)" for k j
    using del_rootdirfile_ok [of M "tick k j d" r "blk_at d r"] c l(4) by simp
  show "files d es xs = None \<Longrightarrow> rfs_openfileblk avail fname d = Some (None, tick 6 0 d)"
    using n(1) get_rootdirfile_ok [OF o(1)] l(1,2) del [of 5 1] find_name(1) [of xs es]
    by (cases "dir_empty (blk_at d r)") (simp_all add: rfs_openfileblk_def files_None)
  assume m: "Some (b, xs) \<in> set es"
  then have ne: "\<not> dir_empty (blk_at d r)" using l(3) files_None [of d es xs] by blast
  obtain k where k: "find (\<lambda>k. has_name xs (es ! k)) [0..<length es] = Some k"
    using m find_name(1) [of xs es] by fastforce
  obtain b' where b': "k < length es" "es ! k = Some (b', xs)" using find_name(2) [OF k] by blast
  then have "Some (b', xs) \<in> set es" by (metis nth_mem)
  then have b: "b' = b" using name_unique [OF f _ m] by blast
  have bk: "rd64 (rdr_blknr (ent k)) (blk_at d r) = of_nat b" using dir_ok_ent [OF o(2) b'(1)] b'(2) b by (simp add: ent_ok_def)
  have "file_ok b (blk_at d b)" "b < M" using o(6) [OF m] by blast+
  then have h: "rd64 fmd_type (blk_at d b) = FMD_FIL_TYPE" "rd64 fmd_fileifstbkoff (blk_at d b) = 0x200"
    "read_rfsdevblk (tick 6 2 d) (of_nat b) = Some (blk_at d b)"
    using read_blk [of M "tick 6 2 d" b] c(1) by (simp_all add: file_ok_def hdr_ok_def)
  show "rfs_openfileblk avail fname d = Some (Some (blk_at d b), tick 7 1 d)"
    using n(1) get_rootdirfile_ok [OF o(1)] l(1,2) del [of 6 2] ne k bk h
    by (simp add: rfs_openfileblk_def FMD_FIL_TYPE_def FMD_NUL_TYPE_def)
qed

lemma length_content: "length (content B) = unat (rd64 fmd_curfinwbkoff B) - 512"
  by (simp add: content_def)

lemma content_nth: "i < unat (rd64 fmd_curfinwbkoff B) - 512 \<Longrightarrow> content B ! i = B (512 + i)"
  by (simp add: content_def)

text \<open>The block after \<open>n\<close> bytes of \<open>buf\<close> are appended.\<close>

definition appended :: "bytes \<Rightarrow> bytes \<Rightarrow> u64 \<Rightarrow> bytes" where
  "appended B buf len =
     (let B = hal_memcpy 0 buf (unat (rd64 fmd_curfinwbkoff B)) B (unat len);
          B = wr64 fmd_filesz (rd64 fmd_filesz B + len) B
      in wr64 fmd_curfinwbkoff (rd64 fmd_curfinwbkoff B + len) B)"

lemma appended_ok:
  assumes f: "file_ok b B" and l: "unat (rd64 fmd_curfinwbkoff B) + unat len < 4096"
  shows "file_ok b (appended B buf len)" and "content (appended B buf len) = content B @ map buf [0..<unat len]"
proof -
  let ?e = "unat (rd64 fmd_curfinwbkoff B)" and ?B = "appended B buf len"
  have e: "0x200 \<le> ?e" using f unfolding file_ok_def by blast
  have r: "rd64 off (hal_memcpy 0 buf ?e B (unat len)) = rd64 off B" if "off < 128" for off
    using that e by (intro rd64_memcpy_other) simp
  have c: "rd64 fmd_curfinwbkoff ?B = rd64 fmd_curfinwbkoff B + len" "rd64 fmd_filesz ?B = rd64 fmd_filesz B + len"
    by (simp_all add: appended_def Let_def fmd_offsets r [unfolded fmd_offsets])
  then have u: "unat (rd64 fmd_curfinwbkoff ?B) = ?e + unat len" using l by (simp add: unat_word_ariths)
  have lo: "?B i = B i" if "i < ?e" "\<not> (64 \<le> i \<and> i < 72)" "\<not> (96 \<le> i \<and> i < 104)" for i
    using that by (simp add: appended_def Let_def fmd_offsets hal_memcpy_def not_less not_le)
  have hi: "?B (?e + i) = buf i" if "i < unat len" for i
    using that e by (simp add: appended_def Let_def fmd_offsets hal_memcpy_def)
  have "hdr_ok FMD_FIL_TYPE b B" using f by (simp add: file_ok_def)
  then have "hdr_ok FMD_FIL_TYPE b ?B"
  proof (rule hdr_ok_cong)
    fix i :: nat assume i: "i < 112" "\<not> (64 \<le> i \<and> i < 72)" "\<not> (96 \<le> i \<and> i < 104)"
    have "i < ?e" using i(1) e by linarith
    then show "?B i = B i" using i(2,3) by (rule lo)
  qed
  moreover have "rd64 fmd_curfinwbkoff B = 0x200 + rd64 fmd_filesz B" using f by (simp add: file_ok_def)
  then have "rd64 fmd_curfinwbkoff ?B = 0x200 + rd64 fmd_filesz ?B" unfolding c by (simp only: add.assoc)
  moreover have "0x200 \<le> ?e + unat len" "?e + unat len < 4096" using e l by linarith+
  moreover have "?B i = 0" if i: "?e + unat len \<le> i" for i
  proof -
    have "B i = 0" using f i unfolding file_ok_def by simp
    moreover have "?B i = hal_memcpy 0 buf ?e B (unat len) i" using i e by (simp add: appended_def Let_def fmd_offsets)
    ultimately show ?thesis using i by (simp add: hal_memcpy_def)
  qed
  ultimately show "file_ok b ?B" unfolding file_ok_def u by (intro conjI allI impI)
  have d: "?e + unat len - 512 = (?e - 512) + unat len" using e by simp
  show "content ?B = content B @ map buf [0..<unat len]"
  proof (rule nth_equalityI)
    show "length (content ?B) = length (content B @ map buf [0..<unat len])" unfolding length_append length_content u d by simp
    fix i assume "i < length (content ?B)"
    then have i: "i < (?e - 512) + unat len" unfolding length_content u d .
    then have B: "content ?B ! i = ?B (512 + i)" by (intro content_nth) (simp only: u d)
    show "content ?B ! i = (content B @ map buf [0..<unat len]) ! i"
    proof (cases "i < ?e - 512")
      case True
      then have "512 + i < ?e" "\<not> (64 \<le> 512 + i \<and> 512 + i < 72)" "\<not> (96 \<le> 512 + i \<and> 512 + i < 104)" by linarith+
      then have "?B (512 + i) = B (512 + i)" by (rule lo)
      then show ?thesis unfolding B nth_append length_content if_P [OF True] content_nth [OF True] .
    next
      case False
      then have "i - (?e - 512) < unat len" "512 + i = ?e + (i - (?e - 512))" using i e by linarith+
      then have "?B (512 + i) = buf (i - (?e - 512))" "map buf [0..<unat len] ! (i - (?e - 512)) = buf (i - (?e - 512))"
        using hi [of "i - (?e - 512)"] by simp_all
      then show ?thesis unfolding B nth_append length_content if_not_P [OF False] by (simp only:)
    qed
  qed
qed

text \<open>The three outcomes of writing: appended, refused, or a copy past the buffer when the sum of the
  size check wraps around.\<close>

lemma writefileblk_ok:
  fixes len :: u64
  assumes f: "file_ok b B" and d: "dev_ok M d" "b < M"
  defines "n \<equiv> unat (rd64 fmd_curfinwbkoff B) + unat len"
  shows "rfs_writefileblk B buf len d =
    (if n < 4096 then Some (DFCOKSTUS, appended B buf len, put_blk b (appended B buf len) d)
     else if n < 2 ^ 64 then Some (DFCERRSTUS, B, d) else None)"
proof -
  have h: "hdr_ok FMD_FIL_TYPE b B" "unat (rd64 fmd_curfinwbkoff B) < 4096" using f unfolding file_ok_def by blast+
  have g: "one_block_file B" using h(1) by (simp add: one_block_file_def hdr_ok_def)
  have lim: "rd64 fmd_curfinwbkoff B + len \<ge> FSYS_ALCBLKSZ \<longleftrightarrow> n mod 2 ^ 64 \<ge> 4096"
    unfolding n_def by (simp add: FSYS_ALCBLKSZ_def word_le_nat_alt unat_word_ariths)
  consider (fits) "n < 4096" | (big) "4096 \<le> n" "n < 2 ^ 64" | (wrap) "2 ^ 64 \<le> n" by linarith
  then show ?thesis
  proof cases
    case fits
    have "hdr_ok FMD_FIL_TYPE b (appended B buf len)" using appended_ok(1) [OF f, of len buf] fits
      unfolding n_def file_ok_def by blast
    then have "write_rfsdevblk d (appended B buf len) (rd64 fmd_curfwritebk (appended B buf len)) = (DFCOKSTUS, put_blk b (appended B buf len) d)"
      using write_blk [OF d] by (simp add: hdr_ok_def)
    moreover have "\<not> rd64 fmd_curfinwbkoff B + len \<ge> FSYS_ALCBLKSZ" using lim fits by simp
    moreover have "\<not> unat (rd64 fmd_curfinwbkoff B) + unat len > unat FSYS_ALCBLKSZ" using fits by (simp add: n_def FSYS_ALCBLKSZ_def)
    ultimately show ?thesis using g fits by (simp add: rfs_writefileblk_def appended_def Let_def)
  next
    case big
    then show ?thesis using g lim by (simp add: rfs_writefileblk_def)
  next
    case wrap
    have "unat len < 2 ^ 64" by (rule less_le_trans [OF unsigned_less]) simp
    then have "n < 2 ^ 64 + 4096" using h(2) by (simp add: n_def)
    then have "n - 2 ^ 64 < 4096" "(n - 2 ^ 64) mod 2 ^ 64 = n - 2 ^ 64" using wrap by simp_all
    then have "n mod 2 ^ 64 < 4096" using wrap le_mod_geq [OF wrap] by simp
    moreover have "unat (rd64 fmd_curfinwbkoff B) + unat len > unat FSYS_ALCBLKSZ" using wrap by (simp add: n_def FSYS_ALCBLKSZ_def)
    ultimately show ?thesis using g lim wrap by (simp add: rfs_writefileblk_def)
  qed
qed

lemma readfileblk_ok:
  assumes f: "file_ok b B"
  shows "rfs_readfileblk B buf len =
    (if unat len \<le> 0xE00 then (DFCOKSTUS, hal_memcpy 0x200 B 0 buf (unat len)) else (DFCERRSTUS, buf))"
proof -
  have h: "hdr_ok FMD_FIL_TYPE b B" using f by (simp add: file_ok_def)
  then have g: "one_block_file B" "rd64 fmd_fileifstbkoff B = 0x200" by (simp_all add: one_block_file_def hdr_ok_def)
  have "len > FSYS_ALCBLKSZ - 0x200 \<longleftrightarrow> unat len > 0xE00" by (simp add: FSYS_ALCBLKSZ_def word_less_nat_alt)
  then show ?thesis using g by (simp add: rfs_readfileblk_def)
qed

lemma closefileblk_ok:
  assumes f: "file_ok b B" and d: "dev_ok M d" "b < M"
  shows "rfs_closefileblk avail B d = Some (DFCOKSTUS, tick 1 (-1) (put_blk b B d))"
  using f write_blk [OF d, of B] by (simp add: rfs_closefileblk_def file_ok_def hdr_ok_def)

end
