(* ===== verification/Rfs_Fmt.thy ===== *)
theory Rfs_Fmt
  imports Rfs_Ops
begin

text \<open>
  Formatting, the self-test at boot, and runs of requests.
\<close>

section \<open>Formatting\<close>

lemma rfs_fmat_ok:
  assumes d: "dev_ok M d" and M: "3 \<le> M"
  shows "\<exists>d'. rfs_fmat avail d = Some d' \<and> fs_ok M 2 [] d' \<and> free_blks d' = {3..<M} \<and> kmem_live d' = kmem_live d \<and>
    blk_at d' 1 0 = 1 \<and> blk_at d' 1 1 = 1"
proof -
  let ?S = "wr64 rsb_fsysallblk (of_nat M) (rfssublk_t_init zero_blk)"
  let ?d1 = "put_blk 0 ?S d"
  let ?bm = "\<lambda>bi. if 2 \<le> bi \<and> bi < M then 0 else 1 :: u8"
  let ?d2 = "put_blk 1 ?bm ?d1"
  have M4: "M \<le> 4096" using d by (simp add: dev_ok_def)
  have M1: "0 < M" "1 < M" using M by simp_all
  have sb: "rd64 rsb_bmpbks ?S = 1" "rd64 rsb_fsysallblk ?S = of_nat M"
    by (simp_all add: rfssublk_t_init_def rfsdir_t_init_def Let_def rsb_offsets rdr_offsets)
  have mx: "ret_rfsdevmaxblknr e = of_nat M" if "rde_msize e = rde_msize d" for e
  proof -
    have "rde_msize e = of_nat (4096 * M)" "4096 * M < 2 ^ 64" using that d by (simp_all add: dev_ok_def)
    then have "unat (ret_rfsdevmaxblknr e) = M"
      by (simp add: ret_rfsdevmaxblknr_def FSYS_ALCBLKSZ_def unat_div unat_of_nat del: of_nat_mult)
    moreover have "unat (of_nat M :: u64) = M" using M4 by (simp add: unat_of_nat)
    ultimately show ?thesis by (simp add: word_unat_eq_iff)
  qed
  have c1: "create_superblk avail d = Some (True, tick 2 0 ?d1)"
    using write_blk [of M "tick 1 1 d" 0 ?S] d M1 mx [of "tick 1 1 d"] by (simp add: create_superblk_def Let_def)
  have z1: "blk_at ?d1 0 = ?S" and z2: "blk_at ?d2 0 = ?S" using blk_put [of M ?d1 1 0 ?bm] d M1 by simp_all
  have p0: "put_blk 0 ?S ?d2 = ?d2" using put_same(1) [of 0 ?d2] unfolding z2 .
  have uM: "unat (of_nat M :: u64) = M" "\<not> (of_nat M :: u64) > FSYS_ALCBLKSZ"
    using M4 by (simp_all add: unat_of_nat FSYS_ALCBLKSZ_def word_less_nat_alt)
  have c2: "create_bitmap avail (tick 2 0 ?d1) = Some (True, tick 6 0 ?d2)"
    using get_superblk_ok [of M "tick 2 0 ?d1"] del_superblk_ok [of M "tick 4 2 ?d2" ?S]
      write_blk [of M "tick 4 2 ?d1" 1 ?bm] d M1 sb z1 p0 uM by (simp add: create_bitmap_def Let_def)
  let ?b1 = "?bm(2 := 1)" and ?H = "new_header FMD_DIR_TYPE (2 :: u64)"
  let ?S' = "wr64 (rdr_blknr rsb_rootdir) 2 (wr64 (rdr_type rsb_rootdir) RDR_DIR_TYPE (?S(rdr_name rsb_rootdir := 0x2f)))"
  let ?d3 = "put_blk 1 ?b1 ?d1"
  let ?d4 = "put_blk 2 ?H ?d3"
  let ?d5 = "put_blk 0 ?S' ?d4"
  have sb': "rd64 rsb_bmpbks ?S' = 1" "rd64 (rdr_blknr rsb_rootdir) ?S' = 2"
    using sb(1) rd64_cong [of rsb_bmpbks "?S(rdr_name rsb_rootdir := 0x2f)" ?S] by (simp_all add: rsb_offsets rdr_offsets)
  have nb: "rfs_new_blk avail (tick 8 2 ?d2) = Some (2, tick 14 2 ?d3)"
  proof -
    have "find (\<lambda>b. ?bm b = 0) [2..<4096] = Some 2" using M M4 by (simp add: upt_conv_Cons del: upt_rec_numeral)
    then show ?thesis
      using get_bitmapblk_ok [of M "tick 8 2 ?d2"] del_bitmapblk_ok [of M "tick 11 3 ?d2" ?b1] d M1 z2 sb(1)
      by (simp add: rfs_new_blk_def FSYS_ALCBLKSZ_def del: upt_rec_numeral)
  qed
  have "create_rootdir avail (tick 6 0 ?d2) = Some (True, tick 16 0 ?d5)"
    using get_superblk_ok [of M "tick 6 0 ?d2"] nb z2 write_blk [of M "tick 14 2 ?d3" 2 ?H]
      del_superblk_ok [of M "tick 15 1 ?d4" ?S'] d M M1 by (simp add: create_rootdir_def Let_def)
  then have fm: "rfs_fmat avail d = Some (tick 16 0 ?d5)" using c1 c2 by (simp add: rfs_fmat_def)
  have bl: "blk_at ?d5 0 = ?S'" "blk_at ?d5 1 = ?b1" "blk_at ?d5 2 = ?H"
    using d M M1 blk_put [of M ?d4 0 2 ?S'] blk_put [of M ?d4 0 1 ?S'] blk_put [of M ?d3 2 1 ?H] by simp_all
  have "sup_ok M 2 ?d5" unfolding sup_ok_def bl(1) using d M sb' by simp
  moreover have "dir_ok (blk_at ?d5 2) 2 []"
  proof -
    have z: "rd64 (rdr_type (ent k)) ?H = 0" for k
      using rd64_cong [of "rdr_type (ent k)" ?H zero_blk] new_header_ok(4) [of _ FMD_DIR_TYPE 2] by (simp add: rdr_offsets ent_def)
    show ?thesis unfolding bl(3) using new_header_ok(1) [of FMD_DIR_TYPE 2] new_header_ok(2) [of FMD_DIR_TYPE 2]
      by (simp add: dir_ok_def ent_ok_def ent_file_def z RDR_FIL_TYPE_def) (simp add: ent_def)
  qed
  moreover have fr: "free_blks ?d5 = {3..<M}"
  proof (rule set_eqI)
    fix x show "x \<in> free_blks ?d5 \<longleftrightarrow> x \<in> {3..<M}"
      unfolding free_blks_def bl(2) mem_Collect_eq atLeastLessThan_iff using M4 by (cases "x = 2") simp_all
  qed
  moreover have "{3..<M} \<subseteq> {2..<M} - {2}" by auto
  ultimately have "fs_ok M 2 [] ?d5" by (simp only: fs_ok_def live_simps list.map distinct.simps list.set empty_iff simp_thms)
  moreover have "kmem_live ?d5 = kmem_live d" by simp
  moreover have "blk_at ?d5 1 0 = 1" "blk_at ?d5 1 1 = 1" unfolding bl(2) by simp_all
  ultimately obtain e where "rfs_fmat avail d = Some (tick 16 0 e)" "fs_ok M 2 [] e" "free_blks e = {3..<M}" "kmem_live e = kmem_live d"
    "blk_at e 1 0 = 1" "blk_at e 1 1 = 1"
    using that [OF fm _ fr] by (simp only:)
  then show ?thesis by simp
qed

end
