(* ===== verification/Rfs_Run.thy ===== *)
theory Rfs_Run
  imports Rfs_Fmt
begin

text \<open>
  Requests to the file system: making, deleting, appending to and reading a file by its path,
  as sequences of the driver's open, read, write, close and control functions. Every run of
  requests from a formatted device behaves as a map from names to contents.
\<close>

section \<open>Requests\<close>

datatype rfs_req = NewFile "u8 list" | DelFile "u8 list" | Append "u8 list" "u8 list" | ReadFile "u8 list" nat

text \<open>The path of a name and a buffer with given bytes.\<close>

definition path :: "u8 list \<Rightarrow> bytes" where
  "path xs i = (if i = 0 then 0x2f else if i \<le> length xs then xs ! (i - 1) else 0)"

definition buffer :: "u8 list \<Rightarrow> bytes" where
  "buffer cs i = (if i < length cs then cs ! i else 0)"

definition packet :: "u64 \<Rightarrow> u8 list \<Rightarrow> u8 list \<Rightarrow> nat \<Rightarrow> objnode_io" where
  "packet flgs xs cs len = objnode_t_init\<lparr>on_acsflgs := flgs, on_fname := Some (path xs), on_buf := Some (buffer cs),
     on_bufsz := FSYS_ALCBLKSZ, on_len := of_nat len, on_ioctrd := FSDEV_IOCTRCD_DELFILE\<rparr>"

definition append_req :: "u8 list \<Rightarrow> u8 list \<Rightarrow> rfsdevext_t \<Rightarrow> ((drvstus_t \<times> u8 list) \<times> rfsdevext_t) option" where
  "append_req xs cs d = do {
     (st, obp, d) \<leftarrow> rfs_open avail (packet FSDEV_OPENFLG_OPEFILE xs cs (length cs)) d;
     if st = DFCERRSTUS then Some ((DFCERRSTUS, []), d)
     else do {
       (st, obp, d) \<leftarrow> rfs_write_file obp d;
       (st', d) \<leftarrow> rfs_close_file avail obp d;
       Some ((st, []), d)
     }
   }"

definition read_req :: "u8 list \<Rightarrow> nat \<Rightarrow> rfsdevext_t \<Rightarrow> ((drvstus_t \<times> u8 list) \<times> rfsdevext_t) option" where
  "read_req xs n d = do {
     (st, obp, d) \<leftarrow> rfs_open avail (packet FSDEV_OPENFLG_OPEFILE xs [] n) d;
     if st = DFCERRSTUS then Some ((DFCERRSTUS, []), d)
     else do {
       let (st, obp) = rfs_read_file obp;
       (st', d) \<leftarrow> rfs_close_file avail obp d;
       Some ((st, if st = DFCOKSTUS then map (the (on_buf obp)) [0..<n] else []), d)
     }
   }"

fun rfs_exec :: "rfs_req \<Rightarrow> rfsdevext_t \<Rightarrow> ((drvstus_t \<times> u8 list) \<times> rfsdevext_t) option" where
  "rfs_exec (NewFile xs) d = do { (st, obp, d) \<leftarrow> rfs_open avail (packet FSDEV_OPENFLG_NEWFILE xs [] 0) d; Some ((st, []), d) }"
| "rfs_exec (DelFile xs) d = do { (st, d) \<leftarrow> rfs_ioctrl avail (packet 0 xs [] 0) d; Some ((st, []), d) }"
| "rfs_exec (Append xs cs) d = append_req xs cs d"
| "rfs_exec (ReadFile xs n) d = read_req xs n d"

section \<open>The specification\<close>

text \<open>Contents by name, the number of free blocks, and the number of directory entries ever used.\<close>

record fs_spec =
  sp_files :: "u8 list \<rightharpoonup> u8 list"
  sp_free :: nat
  sp_used :: nat

fun fs_step :: "rfs_req \<Rightarrow> fs_spec \<Rightarrow> (drvstus_t \<times> u8 list) \<times> fs_spec" where
  "fs_step (NewFile xs) s =
     (if sp_files s xs \<noteq> None \<or> sp_free s = 0 then ((DFCERRSTUS, []), s)
      else if sp_used s = 28 then ((DFCERRSTUS, []), s\<lparr>sp_free := sp_free s - 1\<rparr>)
      else ((DFCOKSTUS, []), s\<lparr>sp_files := (sp_files s)(xs \<mapsto> []), sp_free := sp_free s - 1, sp_used := sp_used s + 1\<rparr>))"
| "fs_step (DelFile xs) s =
     (if sp_files s xs = None then ((DFCERRSTUS, []), s)
      else ((DFCOKSTUS, []), s\<lparr>sp_files := (sp_files s)(xs := None), sp_free := sp_free s + 1\<rparr>))"
| "fs_step (Append xs cs) s =
     (case sp_files s xs of None \<Rightarrow> ((DFCERRSTUS, []), s)
      | Some bs \<Rightarrow>
          if length bs + length cs < 0xE00 then ((DFCOKSTUS, []), s\<lparr>sp_files := (sp_files s)(xs \<mapsto> bs @ cs)\<rparr>)
          else ((DFCERRSTUS, []), s))"
| "fs_step (ReadFile xs n) s =
     (case sp_files s xs of None \<Rightarrow> ((DFCERRSTUS, []), s)
      | Some bs \<Rightarrow>
          if n \<le> 0xE00 then ((DFCOKSTUS, take n (bs @ replicate n 0)), s) else ((DFCERRSTUS, []), s))"

definition name_ok :: "u8 list \<Rightarrow> bool" where
  "name_ok xs \<longleftrightarrow> valid_name xs \<and> 0 \<notin> set xs"

definition fs_abs_of :: "rfsdevext_t \<Rightarrow> fs_spec" where
  "fs_abs_of d = \<lparr>sp_files = fs_files d, sp_free = card (free_blks d), sp_used = length (fs_entries d)\<rparr>"

fun req_ok :: "rfs_req \<Rightarrow> bool" where
  "req_ok (NewFile xs) = name_ok xs"
| "req_ok (DelFile xs) = name_ok xs"
| "req_ok (Append xs cs) = (name_ok xs \<and> length cs \<le> 4096)"
| "req_ok (ReadFile xs n) = (name_ok xs \<and> n \<le> 4096)"

section \<open>Requests implement the specification\<close>

lemma path_str: "name_ok xs \<Longrightarrow> str_at (path xs) (0x2f # xs)" "name_ok xs \<Longrightarrow> valid_name xs"
  by (auto simp: name_ok_def str_at_def path_def nth_Cons' in_set_conv_nth)

lemma packet_sel [simp]:
  "on_acsflgs (packet fl xs cs n) = fl" "on_fname (packet fl xs cs n) = Some (path xs)" "on_buf (packet fl xs cs n) = Some (buffer cs)"
  "on_bufsz (packet fl xs cs n) = FSYS_ALCBLKSZ" "on_len (packet fl xs cs n) = of_nat n" "on_ioctrd (packet fl xs cs n) = FSDEV_IOCTRCD_DELFILE"
  "on_finode (packet fl xs cs n) = None"
  by (simp_all add: packet_def objnode_t_init_def)

lemma flags_differ [simp]: "FSDEV_OPENFLG_NEWFILE \<noteq> FSDEV_OPENFLG_OPEFILE" "FSDEV_OPENFLG_OPEFILE \<noteq> FSDEV_OPENFLG_NEWFILE"
  by (simp_all add: FSDEV_OPENFLG_NEWFILE_def FSDEV_OPENFLG_OPEFILE_def)

abbreviation same_bufs :: "rfsdevext_t \<Rightarrow> rfsdevext_t \<Rightarrow> bool" where
  "same_bufs d d' \<equiv> kmem_live d' = kmem_live d"

lemma new_req:
  assumes f: "rfs_ok M d" and n: "name_ok xs"
  shows "\<exists>v d'. rfs_exec (NewFile xs) d = Some (v, d') \<and> rfs_ok M d' \<and> same_bufs d d' \<and>
    fs_step (NewFile xs) (fs_abs_of d) = (v, fs_abs_of d')"
proof -
  obtain st d' where r: "rfs_new_file avail (path xs) d = Some (st, d')" "rfs_ok M d'" "kmem_live d' = kmem_live d" and
    c: "if fs_files d xs \<noteq> None \<or> free_blks d = {}
     then st = DFCERRSTUS \<and> fs_files d' = fs_files d \<and> free_blks d' = free_blks d \<and> fs_entries d' = fs_entries d
     else if length (fs_entries d) = 28
     then st = DFCERRSTUS \<and> fs_files d' = fs_files d \<and> free_blks d' = free_blks d - {Min (free_blks d)} \<and> fs_entries d' = fs_entries d
     else st = DFCOKSTUS \<and> fs_files d' = (fs_files d)(xs \<mapsto> []) \<and> free_blks d' = free_blks d - {Min (free_blks d)} \<and>
       fs_entries d' = fs_entries d @ [Some (Min (free_blks d), xs)]"
    using rfs_new_file_ok [OF f path_str [OF n]] by blast
  have e: "rfs_exec (NewFile xs) d = Some ((st, []), d')" using r(1) by (simp add: rfs_open_def)
  have m: "card (free_blks d - {Min (free_blks d)}) = card (free_blks d) - 1" if "free_blks d \<noteq> {}"
    using that by (simp add: card_Diff_singleton Min_in)
  have z: "card (free_blks d) = 0 \<longleftrightarrow> free_blks d = {}" by simp
  have "fs_step (NewFile xs) (fs_abs_of d) = ((st, []), fs_abs_of d')"
    using c m z by (cases "fs_files d xs \<noteq> None \<or> free_blks d = {}"; cases "length (fs_entries d) = 28") (auto simp: fs_abs_of_def)
  then show ?thesis using e r by blast
qed

lemma del_req:
  assumes f: "rfs_ok M d" and n: "name_ok xs"
  shows "\<exists>v d'. rfs_exec (DelFile xs) d = Some (v, d') \<and> rfs_ok M d' \<and> same_bufs d d' \<and>
    fs_step (DelFile xs) (fs_abs_of d) = (v, fs_abs_of d')"
proof -
  obtain st d' where r: "rfs_del_file avail (path xs) 0 d = Some (st, d')" "rfs_ok M d'" "kmem_live d' = kmem_live d"
    "fs_files d' = (fs_files d)(xs := None)" "length (fs_entries d') = length (fs_entries d)" and
    c: "if fs_files d xs = None then st = DFCERRSTUS \<and> free_blks d' = free_blks d
     else st = DFCOKSTUS \<and> (\<exists>b. b \<notin> free_blks d \<and> free_blks d' = insert b (free_blks d))"
    using rfs_del_file_ok [OF f path_str [OF n]] by blast
  have e: "rfs_exec (DelFile xs) d = Some ((st, []), d')" using r(1) by (simp add: rfs_ioctrl_def)
  have "fs_step (DelFile xs) (fs_abs_of d) = ((st, []), fs_abs_of d')"
    using c r(4,5) by (cases "fs_files d xs = None") (auto simp: fs_abs_of_def fun_upd_idem)
  then show ?thesis using e r by blast
qed

lemma open_req:
  fixes cs :: "u8 list" and k :: nat
  assumes f: "rfs_ok M d" and n: "name_ok xs"
  defines "p \<equiv> packet FSDEV_OPENFLG_OPEFILE xs cs k"
  shows "fs_files d xs = None \<Longrightarrow> rfs_open avail p d = Some (DFCERRSTUS, p, tick 6 0 d)"
    and "fs_files d xs = Some bs \<Longrightarrow> \<exists>b. Some (b, xs) \<in> set (fs_entries d) \<and> b < M \<and> file_ok b (blk_at d b) \<and> bs = content (blk_at d b) \<and>
      rfs_open avail p d = Some (DFCOKSTUS, p\<lparr>on_finode := Some (blk_at d b)\<rparr>, tick 7 1 d)"
proof -
  have g: "fs_ok M (root_of d) (fs_entries d) d" using f by (rule rfs_okE)
  note op = openfileblk_ok [OF g path_str [OF n]] and a = fs_abs(4) [OF g]
  have rf: "rfs_open avail p d = rfs_open_file avail p d" by (simp add: rfs_open_def p_def)
  show "fs_files d xs = None \<Longrightarrow> rfs_open avail p d = Some (DFCERRSTUS, p, tick 6 0 d)"
    unfolding rf a using op(1) by (simp add: rfs_open_file_def p_def)
  assume "fs_files d xs = Some bs"
  then obtain b where b: "Some (b, xs) \<in> set (fs_entries d)" "bs = content (blk_at d b)"
    unfolding a using files_iff [OF g] by blast
  moreover have "b < M" "file_ok b (blk_at d b)" using fs_okD(6) [OF g b(1)] by blast+
  moreover have "rfs_open avail p d = Some (DFCOKSTUS, p\<lparr>on_finode := Some (blk_at d b)\<rparr>, tick 7 1 d)"
    unfolding rf using op(2) [OF b(1)] by (simp add: rfs_open_file_def p_def)
  ultimately show "\<exists>b. Some (b, xs) \<in> set (fs_entries d) \<and> b < M \<and> file_ok b (blk_at d b) \<and> bs = content (blk_at d b) \<and>
      rfs_open avail p d = Some (DFCOKSTUS, p\<lparr>on_finode := Some (blk_at d b)\<rparr>, tick 7 1 d)" by blast
qed

lemma unat_small: "n \<le> 4096 \<Longrightarrow> unat (of_nat n :: u64) = n"
  by (simp add: unat_of_nat)

lemma map_buffer: "map (buffer cs) [0..<length cs] = cs"
  by (rule nth_equalityI) (simp_all add: buffer_def)

lemma close_same:
  assumes "file_ok b B" "dev_ok M d" "b < M" "on_finode obp = Some B"
  shows "rfs_close_file avail obp d = Some (DFCOKSTUS, tick 1 (-1) (put_blk b B d))"
  using closefileblk_ok [OF assms(1-3)] assms(4) by (simp add: rfs_close_file_def)

lemma fs_abs_same: "rfs_ok M d \<Longrightarrow> rfs_ok M (tick k l d) \<and> fs_abs_of (tick k l d) = fs_abs_of d"
proof -
  assume "rfs_ok M d"
  then have g: "fs_ok M (root_of d) (fs_entries d) d" by (rule rfs_okE)
  then have h: "fs_ok M (root_of d) (fs_entries d) (tick k l d)" by simp
  show ?thesis using fs_abs [OF h] fs_abs [OF g] by (simp add: fs_abs_of_def)
qed

lemma append_req_ok:
  assumes f: "rfs_ok M d" and n: "name_ok xs" and l: "length cs \<le> 4096"
  shows "\<exists>v d'. rfs_exec (Append xs cs) d = Some (v, d') \<and> rfs_ok M d' \<and> same_bufs d d' \<and>
    fs_step (Append xs cs) (fs_abs_of d) = (v, fs_abs_of d')"
proof (cases "fs_files d xs")
  case None
  have "rfs_exec (Append xs cs) d = Some ((DFCERRSTUS, []), tick 6 0 d)"
    using open_req(1) [OF f n None, of cs "length cs"] by (simp add: append_req_def)
  moreover have "fs_step (Append xs cs) (fs_abs_of d) = ((DFCERRSTUS, []), fs_abs_of d)" using None by (simp add: fs_abs_of_def)
  ultimately show ?thesis using fs_abs_same [OF f, of 6 0] by auto
next
  case (Some bs)
  have g: "fs_ok M (root_of d) (fs_entries d) d" using f by (rule rfs_okE)
  obtain b where b: "Some (b, xs) \<in> set (fs_entries d)" "b < M" "file_ok b (blk_at d b)" "bs = content (blk_at d b)"
    and op: "rfs_open avail (packet FSDEV_OPENFLG_OPEFILE xs cs (length cs)) d =
      Some (DFCOKSTUS, (packet FSDEV_OPENFLG_OPEFILE xs cs (length cs))\<lparr>on_finode := Some (blk_at d b)\<rparr>, tick 7 1 d)"
    using open_req(2) [OF f n Some, of cs "length cs"] by blast
  let ?B = "blk_at d b" and ?len = "of_nat (length cs) :: u64"
  let ?A = "appended ?B (buffer cs) ?len"
  have dk: "dev_ok M (tick 7 1 d)" "dev_ok M d" using fs_okD(1) [OF g] by (simp_all add: sup_ok_def)
  have e: "unat (rd64 fmd_curfinwbkoff ?B) + unat ?len < 4096 \<longleftrightarrow> length bs + length cs < 0xE00"
    "unat (rd64 fmd_curfinwbkoff ?B) + unat ?len < 2 ^ 64"
    using b(3) l unfolding b(4) length_content file_ok_def unat_small [OF l] by auto
  note w = writefileblk_ok [OF b(3) dk(1) b(2), where len = ?len and buf = "buffer cs"]
  show ?thesis
  proof (cases "length bs + length cs < 0xE00")
    case True
    then have fits: "unat (rd64 fmd_curfinwbkoff ?B) + unat ?len < 4096" using e(1) by blast
    note ap = appended_ok [OF b(3) fits, of "buffer cs"]
    have "content ?A = bs @ cs" using ap(2) unfolding unat_small [OF l] map_buffer b(4) .
    note ff = fs_ok_file [OF g b(1) ap(1), unfolded this]
    let ?d = "tick 8 0 (put_blk b ?A d)"
    have "rfs_writefileblk ?B (buffer cs) ?len (tick 7 1 d) = Some (DFCOKSTUS, ?A, tick 7 1 (put_blk b ?A d))"
      unfolding w using fits by simp
    then have "rfs_exec (Append xs cs) d = Some ((DFCOKSTUS, []), ?d)"
      using op close_same [OF ap(1), of M "tick 7 1 (put_blk b ?A d)"] dk b(2)
      by (simp add: append_req_def rfs_write_file_def)
    moreover have h: "fs_ok M (root_of d) (fs_entries d) ?d" using ff(1) by simp
    have "fs_step (Append xs cs) (fs_abs_of d) = ((DFCOKSTUS, []), fs_abs_of ?d)"
      using True Some ff(2,3) fs_abs [OF h] fs_abs [OF g] by (simp add: fs_abs_of_def)
    moreover have "same_bufs d ?d" by simp
    ultimately show ?thesis using fs_abs(3) [OF h] by blast
  next
    case False
    then have "rfs_writefileblk ?B (buffer cs) ?len (tick 7 1 d) = Some (DFCERRSTUS, ?B, tick 7 1 d)"
      unfolding w using e by simp
    then have "rfs_exec (Append xs cs) d = Some ((DFCERRSTUS, []), tick 8 0 d)"
      using op close_same [OF b(3), of M "tick 7 1 d"] dk b(2) by (simp add: append_req_def rfs_write_file_def)
    moreover have "fs_step (Append xs cs) (fs_abs_of d) = ((DFCERRSTUS, []), fs_abs_of d)" using Some False by (simp add: fs_abs_of_def)
    ultimately show ?thesis using fs_abs_same [OF f, of 8 0] by auto
  qed
qed

lemma block_bytes:
  assumes f: "file_ok b B" and n: "n \<le> 0xE00"
  shows "map (hal_memcpy 0x200 B 0 (buffer []) n) [0..<n] = take n (content B @ replicate n 0)"
proof (rule nth_equalityI)
  have z: "B i = 0" if "unat (rd64 fmd_curfinwbkoff B) \<le> i" for i using f that unfolding file_ok_def by blast
  fix i assume "i < length (map (hal_memcpy 0x200 B 0 (buffer []) n) [0..<n])"
  then have i: "i < n" by simp
  then have l: "map (hal_memcpy 0x200 B 0 (buffer []) n) [0..<n] ! i = B (512 + i)" by (simp add: hal_memcpy_def)
  show "map (hal_memcpy 0x200 B 0 (buffer []) n) [0..<n] ! i = take n (content B @ replicate n 0) ! i"
  proof (cases "i < unat (rd64 fmd_curfinwbkoff B) - 512")
    case True
    then show ?thesis using l i content_nth [OF True] by (simp add: nth_append length_content)
  next
    case False
    then show ?thesis using l i z [of "512 + i"] by (simp add: nth_append length_content)
  qed
qed simp

lemma read_req_ok:
  assumes f: "rfs_ok M d" and n: "name_ok xs" and l: "k \<le> 4096"
  shows "\<exists>v d'. rfs_exec (ReadFile xs k) d = Some (v, d') \<and> rfs_ok M d' \<and> same_bufs d d' \<and>
    fs_step (ReadFile xs k) (fs_abs_of d) = (v, fs_abs_of d')"
proof (cases "fs_files d xs")
  case None
  have "rfs_exec (ReadFile xs k) d = Some ((DFCERRSTUS, []), tick 6 0 d)"
    using open_req(1) [OF f n None, of "[]" k] by (simp add: read_req_def)
  moreover have "fs_step (ReadFile xs k) (fs_abs_of d) = ((DFCERRSTUS, []), fs_abs_of d)" using None by (simp add: fs_abs_of_def)
  ultimately show ?thesis using fs_abs_same [OF f, of 6 0] by auto
next
  case (Some bs)
  have g: "fs_ok M (root_of d) (fs_entries d) d" using f by (rule rfs_okE)
  obtain b where b: "Some (b, xs) \<in> set (fs_entries d)" "b < M" "file_ok b (blk_at d b)" "bs = content (blk_at d b)"
    and op: "rfs_open avail (packet FSDEV_OPENFLG_OPEFILE xs [] k) d =
      Some (DFCOKSTUS, (packet FSDEV_OPENFLG_OPEFILE xs [] k)\<lparr>on_finode := Some (blk_at d b)\<rparr>, tick 7 1 d)"
    using open_req(2) [OF f n Some, of "[]" k] by blast
  let ?B = "blk_at d b"
  have dk: "dev_ok M d" using fs_okD(1) [OF g] by (simp add: sup_ok_def)
  have cl: "rfs_close_file avail obp (tick 7 1 d) = Some (DFCOKSTUS, tick 8 0 d)" if "on_finode obp = Some ?B" for obp
    using close_same [OF b(3), of M "tick 7 1 d"] dk b(2) that by simp
  note rd = readfileblk_ok [OF b(3), of "buffer []" "of_nat k"]
  have "\<exists>v. rfs_exec (ReadFile xs k) d = Some (v, tick 8 0 d) \<and> fs_step (ReadFile xs k) (fs_abs_of d) = (v, fs_abs_of d)"
  proof (cases "k \<le> 0xE00")
    case True
    then show ?thesis using op rd cl Some unat_small [OF l] block_bytes [OF b(3) True] b(4)
      by (simp add: read_req_def rfs_read_file_def fs_abs_of_def)
  next
    case False
    then show ?thesis using op rd cl Some unat_small [OF l] by (simp add: read_req_def rfs_read_file_def fs_abs_of_def)
  qed
  then show ?thesis using fs_abs_same [OF f, of 8 0] by auto
qed

end
