(* ===== verification/Rfs_Main.thy ===== *)
theory Rfs_Main
  imports Rfs_Run
begin

text \<open>
  The properties of the file system: requests implement a map from names to contents on every
  run from a formatted device, and the self-test at boot passes.
\<close>

section \<open>Every request\<close>

lemma request_ok:
  assumes f: "rfs_ok M d" and r: "req_ok rq"
  shows "\<exists>v d'. rfs_exec rq d = Some (v, d') \<and> rfs_ok M d' \<and> same_bufs d d' \<and> fs_step rq (fs_abs_of d) = (v, fs_abs_of d')"
proof (cases rq)
  case (NewFile xs)
  then show ?thesis using new_req [OF f] r by simp
next
  case (DelFile xs)
  then show ?thesis using del_req [OF f] r by simp
next
  case (Append xs cs)
  then show ?thesis using append_req_ok [OF f] r by simp
next
  case (ReadFile xs k)
  then show ?thesis using read_req_ok [OF f] r by simp
qed

interpretation rfs: op_refinement "\<lambda>d. rfs_ok M d \<and> kmem_live d = l" fs_abs_of req_ok rfs_exec fs_step
proof unfold_locales
  fix d rq assume "rfs_ok M d \<and> kmem_live d = l" "req_ok rq"
  then show "\<exists>v d'. rfs_exec rq d = Some (v, d') \<and> (rfs_ok M d' \<and> kmem_live d' = l) \<and> fs_step rq (fs_abs_of d) = (v, fs_abs_of d')"
    using request_ok [of M d rq] by auto
qed

section \<open>A device for the witnesses\<close>

definition dev0 :: rfsdevext_t where
  "dev0 = \<lparr>rde_mstart = 0x2000000, rde_msize = 0x400000, rde_mem = (\<lambda>_ _. 0), kmem_calls = 0, kmem_live = 0\<rparr>"

lemma dev0_ok: "dev_ok 1024 dev0"
  by (simp add: dev_ok_def dev0_def)

lemma formatted: "\<exists>d. rfs_fmat avail dev0 = Some d \<and> rfs_ok 1024 d \<and> fs_files d = Map.empty \<and> free_blks d = {3..<1024} \<and> fs_entries d = []"
proof -
  obtain d where d: "rfs_fmat avail dev0 = Some d" "fs_ok 1024 2 [] d" "free_blks d = {3..<1024}"
    using rfs_fmat_ok [OF dev0_ok] by auto
  then show ?thesis using fs_abs [OF d(2)] by (auto simp: files_def)
qed

lemma fmat_files:
  assumes "dev_ok M d" and "3 \<le> M"
  shows "\<exists>d'. rfs_fmat avail d = Some d' \<and> rfs_ok M d' \<and> kmem_live d' = kmem_live d \<and>
    fs_abs_of d' = \<lparr>sp_files = Map.empty, sp_free = M - 3, sp_used = 0\<rparr>"
proof -
  obtain d' where d: "rfs_fmat avail d = Some d'" "fs_ok M 2 [] d'" "free_blks d' = {3..<M}" "kmem_live d' = kmem_live d"
    using rfs_fmat_ok [OF assms] by blast
  then show ?thesis using fs_abs [OF d(2)] by (auto simp: files_def fs_abs_of_def)
qed

section \<open>The self-test\<close>

definition testname :: "u8 list" where
  "testname = [0x74, 0x65, 0x73, 0x74, 0x66, 0x69, 0x6c, 0x65]"

lemma testfile_path: "str_at testfile (0x2f # testname)" "valid_name testname"
  by (simp_all add: str_at_Cons testfile_def testname_def valid_name_def)

lemma test_fsys_ok:
  assumes f: "rfs_ok M d" and n: "fs_files d testname = None" and b: "free_blks d \<noteq> {}" and e: "length (fs_entries d) < 28"
  shows "\<exists>d'. test_fsys avail d = Some d' \<and> rfs_ok M d' \<and> fs_files d' = fs_files d \<and> kmem_live d' = kmem_live d + 2 \<and>
    card (free_blks d') = card (free_blks d)"
proof -
  let ?t = "tick 2 2 d"
  have f2: "rfs_ok M ?t" and a2: "fs_abs_of ?t = fs_abs_of d" using fs_abs_same [OF f, of 2 2] by simp_all
  have g2: "fs_files ?t = fs_files d" "length (fs_entries ?t) = length (fs_entries d)"
    using a2 by (simp_all add: fs_abs_of_def)
  obtain d2 where d2: "rfs_new_file avail testfile ?t = Some (DFCOKSTUS, d2)" "rfs_ok M d2" "kmem_live d2 = kmem_live d + 2"
    "fs_files d2 = (fs_files d)(testname \<mapsto> [])" "free_blks d2 = free_blks d - {Min (free_blks d)}"
    using rfs_new_file_ok [OF f2 testfile_path] n b e g2 by auto
  have g: "fs_ok M (root_of d2) (fs_entries d2) d2" using d2(2) by (rule rfs_okE)
  obtain k where k: "Some (k, testname) \<in> set (fs_entries d2)" "[] = content (blk_at d2 k)"
    using d2(4) files_iff [OF g, of testname "[]"] fs_abs(4) [OF g] by auto
  let ?B = "blk_at d2 k" and ?buf = "\<lambda>_. 0xff :: u8"
  have kk: "k < M" "file_ok k ?B" using fs_okD(6) [OF g k(1)] by blast+
  have dk: "dev_ok M d2" using fs_okD(1) [OF g] by (simp add: sup_ok_def)
  have "length (content ?B) = 0" "0x200 \<le> unat (rd64 fmd_curfinwbkoff ?B)" using k(2) kk(2) by (simp, unfold file_ok_def, blast)
  then have c: "unat (rd64 fmd_curfinwbkoff ?B) = 512" unfolding length_content by simp
  have u: "unat (512 :: u64) = 512" by simp
  have fits: "unat (rd64 fmd_curfinwbkoff ?B) + unat (512 :: u64) < 4096" unfolding c u by simp
  let ?A = "appended ?B ?buf 512"
  note ap = appended_ok [OF kk(2) fits, of ?buf, folded k(2), unfolded u]
  have w: "rfs_writefileblk ?B ?buf 512 (tick 7 1 d2) = Some (DFCOKSTUS, ?A, tick 7 1 (put_blk k ?A d2))"
    using writefileblk_ok [OF kk(2) _ kk(1), where d = "tick 7 1 d2" and len = 512 and buf = ?buf] dk fits by simp
  have rd: "rfs_readfileblk ?A zero_blk 512 = (DFCOKSTUS, hal_memcpy 0x200 ?A 0 zero_blk 512)"
    using readfileblk_ok [OF ap(1), of zero_blk 512] by simp
  have "hal_memcpy 0x200 ?A 0 zero_blk 512 i = 0xff" if i: "i < 512" for i
  proof -
    have "length (content ?A) = 512" using ap(2) by simp
    then have "?A (512 + i) = content ?A ! i" using content_nth [of i ?A] i unfolding length_content by simp
    then show ?thesis using i ap(2) by (simp add: hal_memcpy_def)
  qed
  then have chk: "list_all (\<lambda>i. hal_memcpy 0x200 ?A 0 zero_blk 512 i = 0xff) [0..<512]" by (simp add: list_all_iff del: upt_rec_numeral)
  let ?d4 = "tick 8 0 (put_blk k ?A d2)"
  have cl: "rfs_closefileblk avail ?A (tick 7 1 (put_blk k ?A d2)) = Some (DFCOKSTUS, ?d4)"
    using closefileblk_ok [OF ap(1), of M "tick 7 1 (put_blk k ?A d2)"] dk kk(1) by simp
  note ff = fs_ok_file [OF g k(1) ap(1)]
  have h: "fs_ok M (root_of d2) (fs_entries d2) ?d4" using ff(1) by simp
  have "fs_files ?d4 = (fs_files d)(testname \<mapsto> content ?A)"
    using fs_abs(4) [OF h] ff(2) fs_abs(4) [OF g, symmetric] d2(4) by simp
  then have f4: "fs_files ?d4 testname \<noteq> None" "(fs_files ?d4)(testname := None) = fs_files d" "free_blks ?d4 = free_blks d2"
    using ff(3) n by (auto simp: fun_upd_idem)
  obtain d5 j where d5: "rfs_del_file avail testfile 0 ?d4 = Some (DFCOKSTUS, d5)" "rfs_ok M d5" "kmem_live d5 = kmem_live ?d4"
    "fs_files d5 = fs_files d" "j \<notin> free_blks d2" "free_blks d5 = insert j (free_blks d2)"
    using rfs_del_file_ok [OF fs_abs(3) [OF h] testfile_path] f4 by auto
  have g5: "fs_ok M (root_of d5) (fs_entries d5) d5" using d5(2) by (rule rfs_okE)
  have o5: "rfs_openfileblk avail testfile d5 = Some (None, tick 6 0 d5)"
    using openfileblk_ok(1) [OF g5 testfile_path] fs_abs(4) [OF g5] d5(4) n by simp
  have "test_fsys avail d = Some (tick 6 0 d5)"
    using d2(1) openfileblk_ok(2) [OF g testfile_path k(1)] w rd cl chk d5(1) o5
    by (simp add: test_fsys_def krlnew_objnode_def objnode_t_init_def rfs_open_def rfs_open_file_def rfs_write_file_def
        rfs_read_file_def rfs_close_file_def rfs_ioctrl_def Let_def del: upt_rec_numeral)
  moreover have "card (free_blks d5) = card (free_blks d)"
    using d5(5,6) d2(5) b by (simp add: card_Diff_singleton Min_in Suc_diff_1 card_gt_0_iff)
  moreover have "kmem_live d5 = kmem_live d + 2" using d5(3) d2(3) by simp
  ultimately show ?thesis using fs_abs_same [OF d5(2), of 6 0] d5(4) fs_abs(4) by (auto simp: fs_abs_of_def)
qed

lemma count_free:
  "(\<Sum>i\<leftarrow>[0..<n]. if P i then 1 else 0) = card {i. i < n \<and> P i}" for n :: nat
proof -
  have "(\<Sum>i\<leftarrow>[0..<n]. if P i then 1 else 0) = length (filter P [0..<n])" by (induction n) simp_all
  also have "\<dots> = card (set (filter P [0..<n]))" by (rule distinct_card [symmetric]) simp
  also have "set (filter P [0..<n]) = {i. i < n \<and> P i}" by auto
  finally show ?thesis .
qed

lemma fold_count: "fold (\<lambda>i b. if P i then Suc b else b) xs a = a + (\<Sum>i\<leftarrow>xs. if P i then 1 else 0)"
  by (induction xs arbitrary: a) simp_all

lemma test_rfs_bitmap_ok:
  assumes s: "sup_ok M r d" and u: "blk_at d 1 0 \<noteq> 0" "blk_at d 1 1 \<noteq> 0"
  shows "test_rfs_bitmap avail d = Some (card (free_blks d), tick 2 0 d)"
proof -
  let ?n = "fold (\<lambda>i b. if blk_at d 1 i = 0 then Suc b else b) [0..<unat FSYS_ALCBLKSZ] 0"
  have n: "unat FSYS_ALCBLKSZ = 4096" by (simp add: FSYS_ALCBLKSZ_def)
  have "{i. i < 4096 \<and> blk_at d 1 i = 0} = free_blks d"
  proof (rule set_eqI)
    fix i show "i \<in> {i. i < 4096 \<and> blk_at d 1 i = 0} \<longleftrightarrow> i \<in> free_blks d"
      unfolding free_blks_def mem_Collect_eq using u by (cases "i = 0"; cases "i = 1") simp_all
  qed
  then have "?n = card (free_blks d)" unfolding fold_count count_free n by simp
  moreover have "read_rfsdevblk (tick 1 1 d) 1 = Some (blk_at d 1)" using read_blk [of M "tick 1 1 d" 1] sup_okD [OF s] by simp
  ultimately show ?thesis by (simp add: test_rfs_bitmap_def Let_def)
qed

lemma test_rfs_superblk_ok: "sup_ok M r d \<Longrightarrow> test_rfs_superblk avail d = Some (tick 2 0 d)"
  using get_superblk_ok [of M d] del_superblk_ok [of M "tick 1 1 d" "blk_at d 0"] by (simp add: test_rfs_superblk_def sup_ok_def)

lemma test_rfs_rootdir_ok:
  assumes s: "sup_ok M r d"
  shows "test_rfs_rootdir avail d = Some (tick 6 0 d)"
proof -
  note o = sup_okD [OF s]
  let ?rt = "hal_memcpy rsb_rootdir (blk_at d 0) 0 zero_blk sizeof_rfsdir_t"
  have "get_rootdir avail d = Some (Some ?rt, tick 3 1 d)"
    using get_superblk_ok [OF o(1,5)] del_superblk_ok [of M "tick 2 2 d" "blk_at d 0"] o by (simp add: get_rootdir_def)
  moreover have "rd64 (rdr_blknr 0) ?rt = of_nat r"
    using o(7) rd64_memcpy_in [of 0 "rdr_blknr 0" sizeof_rfsdir_t rsb_rootdir "blk_at d 0" zero_blk] by (simp add: rdr_offsets)
  ultimately show ?thesis using read_blk [of M "tick 4 2 d" r] o by (simp add: test_rfs_rootdir_def del_rootdir_def)
qed

section \<open>Properties\<close>









text \<open>C27. What is written is read back: after appending bytes that fit to a file, in a later open the whole content, old
  bytes and new, is read, and appending again continues after them.\<close>

theorem rfs_write_read_roundtrip:
  assumes "rfs_ok M d" and "name_ok xs" and "fs_files d xs = Some bs" and "length bs + length cs < 0xE00"
  shows "\<exists>d'. exec_all rfs_exec [Append xs cs, ReadFile xs (length bs + length cs)] d =
      Some ([(DFCOKSTUS, []), (DFCOKSTUS, bs @ cs)], d') \<and> fs_files d' = (fs_files d)(xs \<mapsto> bs @ cs) \<and> rfs_ok M d'"
proof -
  have "list_all req_ok [Append xs cs, ReadFile xs (length bs + length cs)]" using assms by simp
  with rfs.exec_all_spec [of M d "kmem_live d"] assms(1) obtain vs d' where
    r: "exec_all rfs_exec [Append xs cs, ReadFile xs (length bs + length cs)] d = Some (vs, d')" "rfs_ok M d'"
    "spec_all fs_step [Append xs cs, ReadFile xs (length bs + length cs)] (fs_abs_of d) = (vs, fs_abs_of d')" by blast
  then show ?thesis using assms(3,4) by (auto simp: fs_abs_of_def simp del: exec_all.simps)
qed

theorem rfs_write_read_roundtrip_witness:
  "\<exists>d d'. exec_all rfs_exec [Append testname [7], ReadFile testname 1] d = Some ([(DFCOKSTUS, []), (DFCOKSTUS, [7])], d')"
proof -
  obtain d where d: "rfs_ok 1024 d" "fs_files d = Map.empty" "free_blks d = {3..<1024}" "fs_entries d = []" using formatted by blast
  then obtain d1 where d1: "rfs_ok 1024 d1" "fs_files d1 testname = Some []"
    using rfs_new_file_ok [OF d(1) testfile_path] by auto
  have "name_ok testname" by (simp add: name_ok_def testfile_path(2)) (simp add: testname_def)
  from rfs_write_read_roundtrip [OF d1(1) this d1(2), of "[7]"] show ?thesis by (auto simp del: exec_all.simps)
qed

text \<open>C28. Writing to an open file has three outcomes. A write that fits appends the bytes and stores the block. A write beyond
  the block is refused without effect. A length for which the sum in the size check wraps around passes the check and the
  copy runs past the buffer: there is no outcome.\<close>

theorem rfs_write_outcomes:
  fixes len :: u64
  assumes "file_ok b B" and "dev_ok M d" and "b < M"
  shows "let n = unat (rd64 fmd_curfinwbkoff B) + unat len in
    (n < 4096 \<longrightarrow> (\<exists>B'. rfs_writefileblk B buf len d = Some (DFCOKSTUS, B', put_blk b B' d) \<and> file_ok b B' \<and>
       content B' = content B @ map buf [0..<unat len])) \<and>
    (4096 \<le> n \<and> n < 2 ^ 64 \<longrightarrow> rfs_writefileblk B buf len d = Some (DFCERRSTUS, B, d)) \<and>
    (2 ^ 64 \<le> n \<longrightarrow> rfs_writefileblk B buf len d = None)"
  using writefileblk_ok [OF assms, where len = len and buf = buf] appended_ok [OF assms(1), of len buf] by (simp add: Let_def)

theorem rfs_write_outcomes_witness:
  "rfs_writefileblk (new_header FMD_FIL_TYPE 3) zero_blk (- 0x200) dev0 = None"
proof -
  have B: "file_ok 3 (new_header FMD_FIL_TYPE 3)" using new_file_block(1) [of 3] by simp
  have "unat (rd64 fmd_curfinwbkoff (new_header FMD_FIL_TYPE 3)) + unat (- 0x200 :: u64) = 2 ^ 64" by (simp add: new_header_ok)
  then show ?thesis using rfs_write_outcomes [OF B dev0_ok, where len = "- 0x200" and buf = zero_blk] by (simp add: Let_def)
qed

text \<open>C29. A path that is not a slash and a valid name is refused by making, deleting and opening a file, with the device
  unchanged and no call of the allocator. (A path that is only a slash is not covered: the check reads past its end.)\<close>

theorem rfs_bad_path_refused:
  assumes "str_at fname ys" and "ys \<noteq> [0x2f]" and "\<nexists>xs. ys = 0x2f # xs \<and> valid_name xs"
  shows "rfs_new_file kmem fname d = Some (DFCERRSTUS, d) \<and> rfs_del_file kmem fname 0 d = Some (DFCERRSTUS, d) \<and>
    rfs_openfileblk kmem fname d = Some (None, d)"
proof -
  have "\<exists>st. st \<noteq> 0 \<and> rfs_ret_fname zero_blk fname = Some (st, zero_blk)"
  proof (cases "\<exists>xs. ys = 0x2f # xs")
    case True
    then show ?thesis using ret_fname_bad assms by blast
  next
    case False
    then have "fname 0 \<noteq> 0x2f" using assms(1) by (cases ys) (auto simp: str_at_Cons)
    then show ?thesis by (simp add: rfs_ret_fname_def rfs_chkfilepath_def)
  qed
  then show ?thesis by (auto simp: rfs_new_file_def rfs_del_file_def rfs_del_dirfileblk_def rfs_openfileblk_def)
qed

theorem rfs_bad_path_refused_witness:
  "rfs_new_file avail (path [0x61, 0x2f, 0x62]) dev0 = Some (DFCERRSTUS, dev0)"
proof -
  have s: "str_at (path [0x61, 0x2f, 0x62]) [0x2f, 0x61, 0x2f, 0x62]" by (simp add: str_at_Cons path_def)
  show ?thesis using rfs_bad_path_refused [OF s, of avail dev0] by (simp add: valid_name_def)
qed



text \<open>C31. When the second allocation of \<open>get_bitmapblk\<close> fails it reports no buffer but keeps the buffer of the superblock: one
  buffer more stays in use, and the device is unchanged.\<close>

theorem get_bitmapblk_leaks:
  assumes "dev_ok M d" and "0 < M" and "kmem (kmem_calls d)" and "\<not> kmem (kmem_calls d + 1)"
  shows "\<exists>d'. get_bitmapblk kmem d = Some (None, d') \<and> kmem_live d' = kmem_live d + 1 \<and> rde_mem d' = rde_mem d"
proof -
  have "new_buf kmem d = (True, tick 1 1 d)" "new_buf kmem (tick 1 1 d) = (False, tick 2 1 d)"
    using assms(3,4) by (simp_all add: new_buf_def tick_def)
  then show ?thesis using read_blk [of M "tick 1 1 d" 0] assms(1,2) by (simp add: get_bitmapblk_def get_superblk_def)
qed

theorem get_bitmapblk_leaks_witness:
  "\<exists>d'. get_bitmapblk (\<lambda>n. n = 0) dev0 = Some (None, d') \<and> kmem_live d' = 1"
  using get_bitmapblk_leaks [OF dev0_ok, of "\<lambda>n. n = 0"] by (auto simp: dev0_def)

end
