(* ===== verification/Spec2Isabelle.thy ===== *)
theory Spec2Isabelle
  imports Klist Kthread Sched_Run PageAlloc_Main Bootmem_Occupy Rfs_Main
begin

text \<open>
  Verification of Cosmos, a small x86-64 kernel in C: the scheduler, the physical page allocator
  and its boot, and the memory file system.

  \<^bold>\<open>How C is read.\<close> \<open>Cosmos_Prelude\<close> fixes the conventions. Integers that can wrap are
  \<open>64 word\<close> (or the width of the C type). A function that can end in \<open>hal_sysdie\<close> or
  \<open>system_error\<close> (which spin forever), use a null pointer or write past an array returns an
  \<open>option\<close>, with \<open>None\<close> for those ends. A loop without an evident bound is a
  \<open>partial_function (option)\<close>, and every theorem that it returns is proved as such. Spin locks
  are left out: one processor runs the kernel and the operations below run with interrupts off.
  Two locales carry the proofs about sequences of operations: \<open>state_machine\<close> (an invariant of a
  step relation) and \<open>op_refinement\<close> (an operation that implements a specification, then every
  sequence of them does). Both are interpreted on the definitions of the components.

  \<^bold>\<open>Lists\<close> (\<open>include/bastypeinc/list.h\<close>). \<open>Klist\<close>: the circular doubly linked lists, on explicit
  \<open>next\<close> and \<open>prev\<close> pointers. The locale \<open>list_store\<close> says what a family of disjoint lists is; it is
  interpreted on the pointer operations, and all queues use it.

  \<^bold>\<open>Threads\<close> (\<open>kernel/krlthread.c\<close>). \<open>Kthread\<close>: descriptors, ids, the table of handles, ticks, first
  stack frames.

  \<^bold>\<open>Scheduler, wait lists, semaphores\<close> (\<open>kernel/krlsched.c\<close>, \<open>krlwaitlist.c\<close>, \<open>krlsem.c\<close>).
  \<open>Sched\<close>: one definition per C function on a state of descriptors, run queues and list pointers; the
  stack pointer of the thread that leaves the processor is an argument of \<open>krlschedul\<close>.
  \<open>Sched_Spec\<close>, \<open>Sched_Props\<close>: the invariant, an abstract scheduler on finite queues, and that
  every function implements it. \<open>Sched_Run\<close>: the step relation of calls by the current thread, its
  invariant on every run, and the properties: conservation of semaphore units, no lost wake-ups, each
  thread in one place, round robin, no call dies.

  \<^bold>\<open>Page allocator\<close> (\<open>hal/x86/memdivmer.c\<close>). \<open>PageAlloc\<close>: division and merging of blocks of
  \<open>2^k\<close> pages in the areas of the manager, all checks included. \<open>PageAlloc_Inv\<close> to
  \<open>PageAlloc_Main\<close>: the invariant (free lists, order links, counters, blocks in use), that allocation and release
  keep it and do what they promise, the contract \<open>page_alloc\<close> interpreted on kernel pages, and runs of
  allocations and releases.

  \<^bold>\<open>Boot of memory\<close> (\<open>hal/x86/halmm.c\<close>, \<open>msadsc.c\<close>, \<open>memarea.c\<close>, \<open>memmgrinit.c\<close>,
  \<open>halplatform.c\<close>). \<open>Bootmem\<close>, \<open>Memarea\<close>: the memory map and its sort, a descriptor for
  each page, pages in use by the kernel image, areas, and filling the free lists. \<open>Bootmem_Props\<close>,
  \<open>Bootmem_Occupy\<close>, \<open>Memarea_Boot\<close>, \<open>Memarea_Init\<close>: from a sound memory map the boot returns and
  establishes the invariant of the page allocator with exactly the unoccupied pages free.

  \<^bold>\<open>File system\<close> (\<open>drivers/drvrfs.c\<close>). \<open>Bytes\<close>: byte memories, 64-bit fields at
  byte offsets, strings. \<open>Rfs\<close>: blocks as 4096 bytes, superblock, map of blocks, root directory, all file
  operations, request handlers, formatting and the self-test that runs at boot. The device memory is a map
  from block addresses to blocks. The kernel allocator \<open>krlnew\<close>/\<open>krldelete\<close> is seen through a function
  that tells which calls succeed, and a count of buffers in use. \<open>Rfs_Basic\<close>, \<open>Rfs_Props\<close>,
  \<open>Rfs_Ops\<close>, \<open>Rfs_Fmt\<close>, \<open>Rfs_Run\<close>: blocks by number, directory entries, the invariant \<open>rfs_ok\<close>,
  each operation on every branch. \<open>Rfs_Main\<close>: every run of requests implements a map from names to contents;
  round trip, bounds, errors, self-test.

  \<^bold>\<open>Bounds.\<close> A device has at most 4096 blocks, since its map of blocks is one block of bytes; the driver
  makes one of 1024. Memory areas and descriptor arrays are those of the C sources. No theorem relies on fuel.

  \<^bold>\<open>Not modelled.\<close> Object pools (\<open>kmsob.c\<close>), the page pool (\<open>krlpagempol.c\<close>), virtual
  address spaces (\<open>krlvadrsmem.c\<close>), page tables (\<open>halmmu.c\<close>), device registration
  (\<open>krldevice.c\<close>) and system calls (\<open>krlsve*.c\<close>). Interrupt controllers, descriptor tables, ports
  and assembly act on hardware state that C code does not hold. Screen output, the tick and serial drivers are
  input and output. The boot loader runs before the kernel. The copy of lwIP under \<open>drivers/net\<close> is third-party
  code that the kernel image does not link.
\<close>

end
